(* ===== verification/Go_Prelude.thy ===== *)
theory Go_Prelude
  imports Main "HOL-Library.AList" "HOL-Library.Sublist"
begin

text \<open>
  What every component of the development shares: the collections of simplification
  rules the component proofs are built on, Go maps as association lists, pointers and
  the heap, and a few lemmas on lists.

  A Go map is an association list with distinct keys. The order of the list is the
  iteration order of a \<open>range\<close> loop, which Go leaves unspecified; a lookup is
  \<open>map_of\<close>, an assignment \<open>m[k] = v\<close> is \<open>AList.update\<close>, \<open>delete(m, k)\<close> is
  \<open>AList.delete\<close>. A nil map and an empty map are told apart only where the code does.
  A set of the \<open>sets\<close> package is a list without duplicates, with \<open>List.insert\<close> and
  \<open>removeAll\<close> for its \<open>Insert\<close> and \<open>Delete\<close>.
\<close>

named_theorems string_simps \<open>equations of the string routines\<close>
named_theorems meta_simps \<open>equations of the object metadata\<close>
named_theorems graph_simps \<open>equations of the dependency graph\<close>
named_theorems task_simps \<open>equations of the tasks and of the run state\<close>
named_theorems status_simps \<open>equations of the status checks\<close>

type_synonym ('k, 'v) gomap = "('k \<times> 'v) list"

text \<open>A pointer to an object, and a heap that gives the object behind each pointer.\<close>

type_synonym ref = nat
type_synonym 'a heap = "ref \<Rightarrow> 'a"

definition has_key :: "('k, 'v) gomap \<Rightarrow> 'k \<Rightarrow> bool" where
  "has_key m k \<longleftrightarrow> map_of m k \<noteq> None"

lemma has_key_iff: "has_key m k \<longleftrightarrow> k \<in> fst ` set m"
  by (simp add: has_key_def map_of_eq_None_iff)

text \<open>Reading a missing key gives the zero value of the element type.\<close>

definition lookup_zero :: "'v \<Rightarrow> ('k, 'v) gomap \<Rightarrow> 'k \<Rightarrow> 'v" where
  "lookup_zero z m k = (case map_of m k of None \<Rightarrow> z | Some v \<Rightarrow> v)"

lemma keys_update [simp]: "fst ` set (AList.update k v m) = insert k (fst ` set m)"
  by (simp add: dom_update)

lemma distinct_update [intro]:
  "distinct (map fst m) \<Longrightarrow> distinct (map fst (AList.update k v m))"
  by (rule distinct_update)

subsection \<open>Lists\<close>

lemma set_removeAll_diff: "set (removeAll x xs) = set xs - {x}"
  by simp

lemma map_of_distinct_mem:
  "distinct (map fst m) \<Longrightarrow> (k, v) \<in> set m \<Longrightarrow> map_of m k = Some v"
  by simp

lemma concat_eq_Nil_iff: "concat xss = [] \<longleftrightarrow> (\<forall>xs \<in> set xss. xs = [])"
  by simp

text \<open>
  Two strings that agree up to a first separator agree on both sides of it, and likewise
  up to a last one.
\<close>

lemma append_Cons_eq_first:
  assumes "c \<notin> set xs" and "c \<notin> set ys" and "xs @ c # us = ys @ c # vs"
  shows "xs = ys \<and> us = vs"
  using assms
proof (induction xs arbitrary: ys)
  case Nil
  then show ?case by (cases ys) auto
next
  case (Cons x xs)
  then show ?case by (cases ys) auto
qed

lemma append_Cons_eq_last:
  assumes "c \<notin> set us" and "c \<notin> set vs" and "xs @ c # us = ys @ c # vs"
  shows "xs = ys \<and> us = vs"
proof -
  have "rev us @ c # rev xs = rev vs @ c # rev ys"
    using arg_cong [OF assms(3), of rev] by simp
  with assms(1,2) have "rev us = rev vs \<and> rev xs = rev ys"
    by (intro append_Cons_eq_first) auto
  then show ?thesis by simp
qed

text \<open>A fold that stops at the first error: the shape of every \<open>for\<close> loop that returns early.\<close>

fun fold_result :: "('s \<Rightarrow> 'a \<Rightarrow> 'e + 's) \<Rightarrow> 's \<Rightarrow> 'a list \<Rightarrow> 'e + 's" where
  "fold_result f s [] = Inr s"
| "fold_result f s (x # xs) =
     (case f s x of Inl e \<Rightarrow> Inl e | Inr s' \<Rightarrow> fold_result f s' xs)"

lemma fold_result_append:
  "fold_result f s (xs @ ys) =
     (case fold_result f s xs of Inl e \<Rightarrow> Inl e | Inr s' \<Rightarrow> fold_result f s' ys)"
  by (induction xs arbitrary: s) (auto split: sum.splits)

lemma fold_result_invariant:
  assumes "fold_result f s xs = Inr t" and "P s"
    and "\<And>s x s'. x \<in> set xs \<Longrightarrow> P s \<Longrightarrow> f s x = Inr s' \<Longrightarrow> P s'"
  shows "P t"
  using assms
proof (induction xs arbitrary: s)
  case Nil
  then show ?case by simp
next
  case (Cons x xs)
  then obtain s' where "f s x = Inr s'" and "fold_result f s' xs = Inr t"
    by (auto split: sum.splits)
  with Cons show ?case by (meson list.set_intros)
qed

end
