(* ===== verification/Go_Strings.thy ===== *)
theory Go_Strings
  imports Go_Prelude "HOL-Library.Char_ord" "HOL-Library.List_Lexorder"
begin

text \<open>
  The routines of Go's standard library on strings that the program uses. A Go string is
  a sequence of bytes, here a list of characters; \<open><\<close> on strings is the lexicographic
  order on bytes (\<open>List_Lexorder\<close> over \<open>Char_ord\<close>).
\<close>

subsection \<open>strings.Split and strings.Join\<close>

text \<open>\<open>strings.Split\<close> for the one-byte separators the program uses.\<close>

fun strings_Split :: "string \<Rightarrow> char \<Rightarrow> string list" where
  "strings_Split [] c = [[]]"
| "strings_Split (x # xs) c =
     (if x = c then [] # strings_Split xs c
      else (case strings_Split xs c of [] \<Rightarrow> [[x]] | p # ps \<Rightarrow> (x # p) # ps))"

fun strings_Join :: "string list \<Rightarrow> string \<Rightarrow> string" where
  "strings_Join [] sep = []"
| "strings_Join [s] sep = s"
| "strings_Join (s # t # ss) sep = s @ sep @ strings_Join (t # ss) sep"

lemma strings_Split_nonempty [simp]: "strings_Split s c \<noteq> []"
  by (induction s c rule: strings_Split.induct) (auto split: list.splits)

lemma strings_Split_no_sep [string_simps]: "c \<notin> set s \<Longrightarrow> strings_Split s c = [s]"
  by (induction s c rule: strings_Split.induct) auto

lemma strings_Split_append_sep [string_simps]:
  "c \<notin> set s \<Longrightarrow> strings_Split (s @ c # t) c = s # strings_Split t c"
  by (induction s) auto

lemma strings_Split_parts: "p \<in> set (strings_Split s c) \<Longrightarrow> c \<notin> set p"
  by (induction s c arbitrary: p rule: strings_Split.induct) (auto split: list.splits if_splits)

lemma strings_Join_Cons:
  "ss \<noteq> [] \<Longrightarrow> strings_Join (s # ss) sep = s @ sep @ strings_Join ss sep"
  by (cases ss) auto

text \<open>Splitting and joining are inverse of each other, both ways.\<close>

lemma strings_Join_Split: "strings_Join (strings_Split s c) [c] = s"
proof (induction s c rule: strings_Split.induct)
  case (2 x xs c)
  then show ?case
    by (cases "strings_Split xs c"; cases "tl (strings_Split xs c)")
       (auto simp: strings_Join_Cons)
qed simp

lemma strings_Split_Join:
  assumes "ss \<noteq> []" and "\<And>s. s \<in> set ss \<Longrightarrow> c \<notin> set s"
  shows "strings_Split (strings_Join ss [c]) c = ss"
  using assms
proof (induction ss)
  case (Cons s ss)
  then show ?case
    by (cases "ss = []") (auto simp: strings_Join_Cons string_simps)
qed simp

subsection \<open>strings.TrimSpace\<close>

text \<open>
  The white space of \<open>unicode.IsSpace\<close>, as UTF-8 byte sequences. Each sequence opens with
  a byte that starts a rune and goes on with continuation bytes, so looking for it at
  either end of the string finds what decoding the first or the last rune finds.
\<close>

definition space_runes :: "string list" where
  "space_runes =
     map (\<lambda>n. [char_of (n::nat)]) [9, 10, 11, 12, 13, 32] @
     map (\<lambda>n. [char_of (0xC2::nat), char_of (n::nat)]) [0x85, 0xA0] @
     [[char_of (0xE1::nat), char_of (0x9A::nat), char_of (0x80::nat)]] @
     map (\<lambda>n. [char_of (0xE2::nat), char_of (0x80::nat), char_of (n::nat)])
       [0x80, 0x81, 0x82, 0x83, 0x84, 0x85, 0x86, 0x87, 0x88, 0x89, 0x8A, 0xA8, 0xA9, 0xAF] @
     [[char_of (0xE2::nat), char_of (0x81::nat), char_of (0x9F::nat)],
      [char_of (0xE3::nat), char_of (0x80::nat), char_of (0x80::nat)]]"

text \<open>The white space the string starts with, if it starts with some.\<close>

definition starting_rune :: "string list \<Rightarrow> string \<Rightarrow> string option" where
  "starting_rune rs s = find (\<lambda>r. prefix r s) rs"

lemma starting_runeD:
  "starting_rune rs s = Some r \<Longrightarrow> r \<in> set rs \<and> prefix r s"
  by (auto simp: starting_rune_def find_Some_iff in_set_conv_nth)

lemma space_runes_nonempty: "[] \<notin> set space_runes"
  by (simp add: space_runes_def)

function trim_left :: "string list \<Rightarrow> string \<Rightarrow> string" where
  "trim_left rs s =
     (case starting_rune (filter (\<lambda>r. r \<noteq> []) rs) s of
        None \<Rightarrow> s | Some r \<Rightarrow> trim_left rs (drop (length r) s))"
  by pat_completeness auto
termination
proof (relation "measure (\<lambda>(rs, s). length s)", simp)
  fix rs s r
  assume "starting_rune (filter (\<lambda>r. r \<noteq> []) rs) s = Some r"
  then have "r \<noteq> []" and "prefix r s"
    using starting_runeD by fastforce+
  then have "length (drop (length r) s) < length s"
    by (auto simp: prefix_def)
  then show "((rs, drop (length r) s), (rs, s)) \<in> measure (\<lambda>(rs, s). length s)"
    by simp
qed

declare trim_left.simps [simp del]

definition strings_TrimSpace :: "string \<Rightarrow> string" where
  "strings_TrimSpace s = rev (trim_left (map rev space_runes) (rev (trim_left space_runes s)))"

text \<open>A string is trimmed when no white space stands at either end.\<close>

definition trimmed :: "string \<Rightarrow> bool" where
  "trimmed s \<longleftrightarrow> (\<forall>r \<in> set space_runes. \<not> prefix r s \<and> \<not> suffix r s)"

lemma trim_left_id:
  assumes "\<And>r. r \<in> set rs \<Longrightarrow> \<not> prefix r s"
  shows "trim_left rs s = s"
proof -
  have "starting_rune (filter (\<lambda>r. r \<noteq> []) rs) s = None"
    using assms by (auto simp: starting_rune_def find_None_iff)
  then show ?thesis by (subst trim_left.simps) simp
qed

lemma trim_left_no_prefix:
  "r \<in> set rs \<Longrightarrow> r \<noteq> [] \<Longrightarrow> \<not> prefix r (trim_left rs s)"
proof (induction rs s rule: trim_left.induct)
  case (1 rs s)
  show ?case
  proof (cases "starting_rune (filter (\<lambda>r. r \<noteq> []) rs) s")
    case None
    then have "trim_left rs s = s" by (subst trim_left.simps) simp
    with None "1.prems" show ?thesis
      by (auto simp: starting_rune_def find_None_iff)
  next
    case (Some q)
    with "1.IH" [OF Some] "1.prems" show ?thesis by (subst trim_left.simps) simp
  qed
qed

lemma strings_TrimSpace_id [string_simps]:
  assumes "trimmed s"
  shows "strings_TrimSpace s = s"
proof -
  have "trim_left space_runes s = s"
    using assms by (auto simp: trimmed_def intro: trim_left_id)
  moreover have "trim_left (map rev space_runes) (rev s) = rev s"
    using assms by (intro trim_left_id) (auto simp: trimmed_def suffix_to_prefix)
  ultimately show ?thesis by (simp add: strings_TrimSpace_def)
qed

subsection \<open>strings.ReplaceAll\<close>

text \<open>
  \<open>strings.ReplaceAll(s, old, new)\<close> for a non-empty \<open>old\<close>, given by its first byte and the
  rest: the leftmost non-overlapping occurrences, from left to right.
\<close>

fun strings_ReplaceAll :: "char \<Rightarrow> string \<Rightarrow> string \<Rightarrow> string \<Rightarrow> string" where
  "strings_ReplaceAll c cs new [] = []"
| "strings_ReplaceAll c cs new (x # xs) =
     (if prefix (c # cs) (x # xs)
      then new @ strings_ReplaceAll c cs new (drop (length cs) xs)
      else x # strings_ReplaceAll c cs new xs)"

lemma strings_ReplaceAll_absent:
  "c \<notin> set s \<Longrightarrow> strings_ReplaceAll c cs new s = s"
  by (induction s) auto

text \<open>Replacing one byte works byte by byte.\<close>

lemma strings_ReplaceAll_byte:
  "strings_ReplaceAll c [] new s = concat (map (\<lambda>x. if x = c then new else [x]) s)"
  by (induction s) auto

subsection \<open>Numbers in decimal\<close>

fun digits_of :: "nat \<Rightarrow> string" where
  "digits_of n =
     (if n < 10 then [char_of (48 + n)] else digits_of (n div 10) @ [char_of (48 + n mod 10)])"

declare digits_of.simps [simp del]

text \<open>The verb \<open>%d\<close> on a signed integer.\<close>

definition fmt_d :: "int \<Rightarrow> string" where
  "fmt_d i = (if i < 0 then ''-'' @ digits_of (nat (- i)) else digits_of (nat i))"

text \<open>
  The verb \<open>%q\<close>, which is \<open>strconv.Quote\<close>: the string in double quotes, with the quote,
  the backslash and the control characters escaped. Bytes from 128 on are kept, as Go
  keeps them when they are the encoding of a printable rune; the strings the program
  quotes (kinds, names and phases of Kubernetes) are ASCII.
\<close>

definition hex_digit :: "nat \<Rightarrow> char" where
  "hex_digit n = (if n < 10 then char_of (48 + n) else char_of (87 + n))"

definition quote_byte :: "char \<Rightarrow> string" where
  "quote_byte c = (let n = of_char c :: nat in
     if n = 34 \<or> n = 92 then [char_of (92::nat), c]
     else if n = 7 then [char_of (92::nat), CHR ''a'']
     else if n = 8 then [char_of (92::nat), CHR ''b'']
     else if n = 9 then [char_of (92::nat), CHR ''t'']
     else if n = 10 then [char_of (92::nat), CHR ''n'']
     else if n = 11 then [char_of (92::nat), CHR ''v'']
     else if n = 12 then [char_of (92::nat), CHR ''f'']
     else if n = 13 then [char_of (92::nat), CHR ''r'']
     else if n < 32 \<or> n = 127
       then [char_of (92::nat), CHR ''x'', hex_digit (n div 16), hex_digit (n mod 16)]
     else [c])"

definition fmt_q :: "string \<Rightarrow> string" where
  "fmt_q s = [char_of (34::nat)] @ concat (map quote_byte s) @ [char_of (34::nat)]"

end
