(* ===== verification/Resource_Metadata.thy ===== *)
theory Resource_Metadata
  imports Go_Strings
begin

text \<open>
  \<open>pkg/resource/resourcemetadata.go\<close>: the identity of a deployed resource, its string form
  and the regular expression that reads the string form back, together with the object
  type the whole program passes around.
\<close>

subsection \<open>Group, version and kind\<close>

datatype GroupKind = GroupKind (gk_group: string) (gk_kind: string)

datatype GroupVersionKind =
  GroupVersionKind (gvk_group: string) (gvk_version: string) (gvk_kind: string)

text \<open>\<open>GroupKind.WithVersion\<close> and \<open>GroupVersionKind.GroupKind\<close>.\<close>

definition WithVersion :: "GroupKind \<Rightarrow> string \<Rightarrow> GroupVersionKind" where
  "WithVersion gk v = GroupVersionKind (gk_group gk) v (gk_kind gk)"

definition groupKind :: "GroupVersionKind \<Rightarrow> GroupKind" where
  "groupKind g = GroupKind (gvk_group g) (gvk_kind g)"

subsection \<open>Objects\<close>

text \<open>
  \<open>*unstructured.Unstructured\<close> of the library \<open>apimachinery\<close>, as the data its accessors
  read and write: \<open>GroupVersionKind\<close>, \<open>GetName\<close>, \<open>GetNamespace\<close>, \<open>GetLabels\<close>,
  \<open>GetAnnotations\<close>, \<open>GetGeneration\<close> and \<open>GetDeletionTimestamp\<close> are the fields. A map field
  is \<open>None\<close> where the accessor returns a nil map. Everything else of the object is
  \<open>objContent\<close>, of any type: the program reads it only through conversions of the
  library, which are parameters of the definitions that use them.
\<close>

datatype Time = ZeroTime | At int

record 'c unstructured =
  objGVK :: GroupVersionKind
  objName :: string
  objNamespace :: string
  objLabels :: "(string, string) gomap option"
  objAnnotations :: "(string, string) gomap option"
  objGeneration :: int
  objDeletionTimestamp :: "Time option"
  objContent :: 'c

text \<open>\<open>GroupVersionKind().GroupKind()\<close> of an object.\<close>

definition objGK :: "'c unstructured \<Rightarrow> GroupKind" where
  "objGK obj = groupKind (objGVK obj)"

text \<open>Reading a nil map is reading an empty one.\<close>

definition gomap_of :: "('k, 'v) gomap option \<Rightarrow> ('k, 'v) gomap" where
  "gomap_of m = (case m of None \<Rightarrow> [] | Some m' \<Rightarrow> m')"

subsection \<open>ObjectMetadata\<close>

datatype ObjectMetadata =
  ObjectMetadata (Name: string) (Namespace: string) (Group: string) (Kind: string)

definition emptyMetadata :: ObjectMetadata where
  "emptyMetadata = ObjectMetadata [] [] [] []"

definition ObjectMetadataFromUnstructured :: "'c unstructured \<Rightarrow> ObjectMetadata" where
  "ObjectMetadataFromUnstructured obj =
     (let gvk = objGVK obj in
      ObjectMetadata (objName obj) (objNamespace obj) (gvk_group gvk) (gvk_kind gvk))"

lemma ObjectMetadataFromUnstructured_sel [simp, meta_simps]:
  "Name (ObjectMetadataFromUnstructured obj) = objName obj"
  "Namespace (ObjectMetadataFromUnstructured obj) = objNamespace obj"
  "Group (ObjectMetadataFromUnstructured obj) = gk_group (objGK obj)"
  "Kind (ObjectMetadataFromUnstructured obj) = gk_kind (objGK obj)"
  by (simp_all add: ObjectMetadataFromUnstructured_def objGK_def groupKind_def Let_def)

definition separator :: char where "separator = CHR ''_''"

definition colonReplacement :: string where "colonReplacement = ''__''"

definition ToString :: "ObjectMetadata \<Rightarrow> string" where
  "ToString m =
     Namespace m @ [separator] @
     strings_ReplaceAll CHR '':'' [] colonReplacement (Name m) @ [separator] @
     Group m @ [separator] @
     Kind m"

subsection \<open>Regular expressions over character classes\<close>

text \<open>
  The part of Go's \<open>regexp\<close> that the template needs: a sequence of one class, an optional
  class \<open>?\<close> and a repeated class \<open>*\<close>, anchored at both ends. Go returns the match that a
  backtracking search finds first, with \<open>*\<close> and \<open>?\<close> trying to consume before they try
  not to; \<open>re_match\<close> is that search, and gives for each atom the text it consumed.
\<close>

datatype atom = One "char \<Rightarrow> bool" | Maybe "char \<Rightarrow> bool" | Many "char \<Rightarrow> bool"

function re_match :: "atom list \<Rightarrow> string \<Rightarrow> string list option" where
  "re_match [] [] = Some []"
| "re_match [] (c # s) = None"
| "re_match (One P # as) [] = None"
| "re_match (One P # as) (c # s) =
     (if P c then map_option ((#) [c]) (re_match as s) else None)"
| "re_match (Maybe P # as) [] = map_option ((#) []) (re_match as [])"
| "re_match (Maybe P # as) (c # s) =
     (if P c
      then (case re_match as s of
              Some r \<Rightarrow> Some ([c] # r)
            | None \<Rightarrow> map_option ((#) []) (re_match as (c # s)))
      else map_option ((#) []) (re_match as (c # s)))"
| "re_match (Many P # as) [] = map_option ((#) []) (re_match as [])"
| "re_match (Many P # as) (c # s) =
     (if P c
      then (case re_match (Many P # as) s of
              Some r \<Rightarrow> Some ((c # hd r) # tl r)
            | None \<Rightarrow> map_option ((#) []) (re_match as (c # s)))
      else map_option ((#) []) (re_match as (c # s)))"
  by pat_completeness auto
termination
  by (relation "measure (\<lambda>(as, s). length as + length s)") auto

fun atom_accepts :: "atom \<Rightarrow> string \<Rightarrow> bool" where
  "atom_accepts (One P) t \<longleftrightarrow> (case t of [c] \<Rightarrow> P c | _ \<Rightarrow> False)"
| "atom_accepts (Maybe P) t \<longleftrightarrow> (case t of [] \<Rightarrow> True | [c] \<Rightarrow> P c | _ \<Rightarrow> False)"
| "atom_accepts (Many P) t \<longleftrightarrow> list_all P t"

text \<open>The search is sound: what it returns cuts the string into accepted pieces.\<close>

lemma re_match_sound:
  "re_match as s = Some ts \<Longrightarrow> concat ts = s \<and> list_all2 atom_accepts as ts"
proof (induction as s arbitrary: ts rule: re_match.induct)
  case (6 P as c s)
  then show ?case by (fastforce split: if_splits option.splits)
next
  case (8 P as c s)
  show ?case
  proof (cases "P c \<and> re_match (Many P # as) s \<noteq> None")
    case True
    then obtain r where r: "re_match (Many P # as) s = Some r" by auto
    with "8.IH"(1) True have "concat r = s" and "list_all2 atom_accepts (Many P # as) r"
      by auto
    moreover from this(2) obtain t q where "r = t # q" by (auto simp: list_all2_Cons1)
    ultimately show ?thesis using True r "8.prems" by auto
  next
    case False
    with "8.prems" obtain r where "re_match as (c # s) = Some r" and "ts = [] # r"
      by (auto split: if_splits option.splits)
    with "8.IH"(2,3) False show ?thesis by (cases "P c") auto
  qed
qed (auto split: if_splits)

lemma re_match_length: "re_match as s = Some ts \<Longrightarrow> length ts = length as"
  using re_match_sound list_all2_lengthD by fastforce

text \<open>And it is complete: it finds a match where there is one.\<close>

lemma re_match_Maybe_skip:
  "re_match as s = Some us \<Longrightarrow> \<exists>vs. re_match (Maybe P # as) s = Some vs"
  by (cases s) (auto split: option.splits)

lemma re_match_Maybe_take:
  "P c \<Longrightarrow> re_match as s = Some us \<Longrightarrow> \<exists>vs. re_match (Maybe P # as) (c # s) = Some vs"
  by simp

lemma re_match_Many_skip:
  "re_match as s = Some us \<Longrightarrow> \<exists>vs. re_match (Many P # as) s = Some vs"
  by (cases s) (auto split: option.splits)

lemma re_match_Many_take:
  assumes "re_match as s = Some us" and "list_all P t"
  shows "\<exists>vs. re_match (Many P # as) (t @ s) = Some vs"
  using assms(2)
proof (induction t)
  case Nil
  then show ?case using re_match_Many_skip [OF assms(1)] by simp
next
  case (Cons c t)
  then obtain vs where "re_match (Many P # as) (t @ s) = Some vs" by auto
  with Cons.prems show ?case by auto
qed

lemma re_match_complete:
  "list_all2 atom_accepts as ts \<Longrightarrow> \<exists>us. re_match as (concat ts) = Some us"
proof (induction as arbitrary: ts)
  case Nil
  then show ?case by simp
next
  case (Cons a as)
  then obtain t ts' where ts: "ts = t # ts'" and a: "atom_accepts a t"
    and as: "list_all2 atom_accepts as ts'"
    by (auto simp: list_all2_Cons1)
  from Cons.IH [OF as] obtain us where us: "re_match as (concat ts') = Some us" ..
  show ?case
  proof (cases a)
    case (One P)
    with a ts us show ?thesis by (auto split: list.splits)
  next
    case (Maybe P)
    with a consider "t = []" | c where "t = [c]" "P c" by (auto split: list.splits)
    then show ?thesis
      using Maybe ts re_match_Maybe_skip [OF us] re_match_Maybe_take [OF _ us] by cases auto
  next
    case (Many P)
    with a ts re_match_Many_take [OF us] show ?thesis by simp
  qed
qed

subsection \<open>Reading the string form\<close>

definition is_alnum :: "char \<Rightarrow> bool" where
  "is_alnum c = (let n = of_char c :: nat in
     48 \<le> n \<and> n \<le> 57 \<or> 65 \<le> n \<and> n \<le> 90 \<or> 97 \<le> n \<and> n \<le> 122)"

text \<open>\<open>[[:alnum:]-.]\<close> and \<open>[[:alnum:]-._]\<close>.\<close>

definition is_dotted :: "char \<Rightarrow> bool" where
  "is_dotted c \<longleftrightarrow> is_alnum c \<or> c = CHR ''-'' \<or> c = CHR ''.''"

definition is_name_char :: "char \<Rightarrow> bool" where
  "is_name_char c \<longleftrightarrow> is_dotted c \<or> c = CHR ''_''"

text \<open>The template with its four groups, at the even positions, and the separators between them.\<close>

definition regexTemplate :: "atom list list" where
  "regexTemplate =
     [[Many is_dotted, Maybe is_alnum],
      [One (\<lambda>c. c = separator)],
      [One is_alnum, Many is_name_char, Maybe is_alnum],
      [One (\<lambda>c. c = separator)],
      [Many is_dotted, Maybe is_alnum],
      [One (\<lambda>c. c = separator)],
      [Many is_alnum]]"

text \<open>The text of each group, from the text of each atom.\<close>

fun regroup :: "nat list \<Rightarrow> string list \<Rightarrow> string list" where
  "regroup [] ts = []"
| "regroup (n # ns) ts = concat (take n ts) # regroup ns (drop n ts)"

definition restoreColons :: "string \<Rightarrow> string" where
  "restoreColons s = strings_ReplaceAll CHR ''_'' ''_'' '':'' s"

definition ObjectMetadataFromString :: "string \<Rightarrow> bool \<times> ObjectMetadata" where
  "ObjectMetadataFromString str =
     (case re_match (concat regexTemplate) str of
        None \<Rightarrow> (False, emptyMetadata)
      | Some ts \<Rightarrow>
          (let submatches = regroup (map length regexTemplate) ts in
           (True, ObjectMetadata (restoreColons (submatches ! 2)) (submatches ! 0)
                    (submatches ! 4) (submatches ! 6))))"

text \<open>The keys the expression accepts, without the search.\<close>

definition key_parts :: "string \<Rightarrow> string \<Rightarrow> string \<Rightarrow> string \<Rightarrow> bool" where
  "key_parts ns nm g k \<longleftrightarrow>
     list_all is_dotted ns \<and>
     nm \<noteq> [] \<and> is_alnum (hd nm) \<and> list_all is_name_char nm \<and>
     list_all is_dotted g \<and> list_all is_alnum k"

definition key_string :: "string \<Rightarrow> string \<Rightarrow> string \<Rightarrow> string \<Rightarrow> string" where
  "key_string ns nm g k = ns @ separator # nm @ separator # g @ separator # k"

lemma is_alnum_chars [simp]:
  "\<not> is_alnum CHR ''_''" "\<not> is_alnum CHR '':''" "\<not> is_alnum CHR ''-''" "\<not> is_alnum CHR ''.''"
  by (simp_all add: is_alnum_def)

lemma is_dotted_separator [simp]: "\<not> is_dotted CHR ''_''" "\<not> is_dotted CHR '':''"
  by (simp_all add: is_dotted_def)

lemma is_name_char_colon [simp]: "\<not> is_name_char CHR '':''"
  by (simp add: is_name_char_def)

lemma is_alnum_dotted [simp]: "is_alnum c \<Longrightarrow> is_dotted c"
  by (simp add: is_dotted_def)

lemma is_dotted_name_char [simp]: "is_dotted c \<Longrightarrow> is_name_char c"
  by (simp add: is_name_char_def)

text \<open>A key has only one reading.\<close>

lemma key_string_unique:
  assumes "key_parts ns nm g k" and "key_parts ns' nm' g' k'"
    and "key_string ns nm g k = key_string ns' nm' g' k'"
  shows "ns = ns' \<and> nm = nm' \<and> g = g' \<and> k = k'"
proof -
  have no: "separator \<notin> set ns" "separator \<notin> set ns'" "separator \<notin> set g"
    "separator \<notin> set g'" "separator \<notin> set k" "separator \<notin> set k'"
    using assms(1,2) by (auto simp: key_parts_def separator_def list_all_iff)
  from assms(3) no have "ns = ns'"
    and *: "(nm @ separator # g) @ separator # k = (nm' @ separator # g') @ separator # k'"
    using append_Cons_eq_first [of separator ns ns' "nm @ separator # g @ separator # k"
        "nm' @ separator # g' @ separator # k'"]
    by (simp_all add: key_string_def)
  from append_Cons_eq_last [OF no(5,6) *] have "k = k'"
    and "nm @ separator # g = nm' @ separator # g'" by simp_all
  with append_Cons_eq_last [OF no(3,4)] \<open>ns = ns'\<close> show ?thesis by blast
qed

lemma atom_accepts_Maybe: "atom_accepts (Maybe P) t \<longleftrightarrow> t = [] \<or> (\<exists>c. t = [c] \<and> P c)"
  by (auto split: list.splits)

lemma atom_accepts_One: "atom_accepts (One P) t \<longleftrightarrow> (\<exists>c. t = [c] \<and> P c)"
  by (auto split: list.splits)

text \<open>What the search returns on a key is its reading.\<close>

lemma re_match_key:
  assumes "re_match (concat regexTemplate) s = Some ts"
  shows "\<exists>ns nm g k. key_parts ns nm g k \<and> s = key_string ns nm g k \<and>
    regroup (map length regexTemplate) ts = [ns, [separator], nm, [separator], g, [separator], k]"
proof -
  have s: "concat ts = s" and "list_all2 atom_accepts (concat regexTemplate) ts"
    using re_match_sound [OF assms] by simp_all
  then obtain n1 n2 a1 a2 a3 g1 g2 k where ts:
      "ts = [n1, n2, [separator], [a1], a2, a3, [separator], g1, g2, [separator], k]"
    and n: "list_all is_dotted n1" "n2 = [] \<or> (\<exists>c. n2 = [c] \<and> is_alnum c)"
    and a: "is_alnum a1" "list_all is_name_char a2" "a3 = [] \<or> (\<exists>c. a3 = [c] \<and> is_alnum c)"
    and g: "list_all is_dotted g1" "g2 = [] \<or> (\<exists>c. g2 = [c] \<and> is_alnum c)"
    and k: "list_all is_alnum k"
    unfolding regexTemplate_def
    by (auto simp: list_all2_Cons1 atom_accepts_Maybe atom_accepts_One
        simp del: atom_accepts.simps(1,2))
  have "key_parts (n1 @ n2) (a1 # a2 @ a3) (g1 @ g2) k"
    using n a g k by (auto simp: key_parts_def)
  moreover have "s = key_string (n1 @ n2) (a1 # a2 @ a3) (g1 @ g2) k"
    unfolding s [symmetric] ts by (simp add: key_string_def)
  ultimately show ?thesis
    by (intro exI conjI) (auto simp: ts regexTemplate_def)
qed

lemma re_match_key_exists:
  assumes "key_parts ns nm g k"
  shows "\<exists>ts. re_match (concat regexTemplate) (key_string ns nm g k) = Some ts"
proof -
  let ?ts = "[ns, [], [separator], [hd nm], tl nm, [], [separator], g, [], [separator], k]"
  have "nm = hd nm # tl nm" "list_all is_name_char (tl nm)"
    using assms by (auto simp: key_parts_def list_all_iff dest: list.set_sel(2))
  then have "concat ?ts = key_string ns nm g k"
    and "list_all2 atom_accepts (concat regexTemplate) ?ts"
    using assms by (simp_all add: key_string_def regexTemplate_def key_parts_def)
  then show ?thesis using re_match_complete by metis
qed

lemma ObjectMetadataFromString_key:
  assumes "key_parts ns nm g k"
  shows "ObjectMetadataFromString (key_string ns nm g k) =
    (True, ObjectMetadata (restoreColons nm) ns g k)"
proof -
  obtain ts where ts: "re_match (concat regexTemplate) (key_string ns nm g k) = Some ts"
    using re_match_key_exists [OF assms] ..
  obtain ns' nm' g' k' where "key_parts ns' nm' g' k'"
    and "key_string ns nm g k = key_string ns' nm' g' k'"
    and rg: "regroup (map length regexTemplate) ts =
      [ns', [separator], nm', [separator], g', [separator], k']"
    using re_match_key [OF ts] by blast
  with key_string_unique [OF assms] have "ns' = ns" "nm' = nm" "g' = g" "k' = k" by blast+
  with rg ts show ?thesis
    by (simp add: ObjectMetadataFromString_def Let_def numeral_eq_Suc)
qed

lemma ObjectMetadataFromString_cases:
  "ObjectMetadataFromString s = (False, emptyMetadata) \<and>
     \<not> (\<exists>ns nm g k. key_parts ns nm g k \<and> s = key_string ns nm g k) \<or>
   (\<exists>ns nm g k. key_parts ns nm g k \<and> s = key_string ns nm g k \<and>
     ObjectMetadataFromString s = (True, ObjectMetadata (restoreColons nm) ns g k))"
proof (cases "re_match (concat regexTemplate) s")
  case None
  then have "\<not> (\<exists>ns nm g k. key_parts ns nm g k \<and> s = key_string ns nm g k)"
    using re_match_key_exists by fastforce
  with None show ?thesis by (simp add: ObjectMetadataFromString_def)
next
  case (Some ts)
  then show ?thesis using re_match_key ObjectMetadataFromString_key by blast
qed

subsection \<open>Colons and their replacement\<close>

definition hideColons :: "string \<Rightarrow> string" where
  "hideColons s = strings_ReplaceAll CHR '':'' [] colonReplacement s"

lemma hideColons_simps [simp]:
  "hideColons [] = []"
  "hideColons (x # xs) = (if x = CHR '':'' then colonReplacement @ hideColons xs else x # hideColons xs)"
  by (simp_all add: hideColons_def)

lemma ToString_key_string:
  "ToString m = key_string (Namespace m) (hideColons (Name m)) (Group m) (Kind m)"
  by (simp add: ToString_def key_string_def hideColons_def)

lemma restore_hideColons: "CHR ''_'' \<notin> set s \<Longrightarrow> restoreColons (hideColons s) = s"
  by (induction s) (auto simp: restoreColons_def colonReplacement_def)

lemma hide_restoreColons: "CHR '':'' \<notin> set s \<Longrightarrow> hideColons (restoreColons s) = s"
proof (induction s rule: length_induct)
  case (1 s)
  show ?case
  proof (cases s)
    case Nil
    then show ?thesis by (simp add: restoreColons_def)
  next
    case (Cons x xs)
    show ?thesis
    proof (cases "x = CHR ''_'' \<and> prefix ''_'' xs")
      case True
      then obtain ys where "xs = CHR ''_'' # ys" by (auto simp: prefix_def)
      with "1" Cons True show ?thesis by (simp add: restoreColons_def colonReplacement_def)
    next
      case False
      with Cons have "restoreColons s = x # restoreColons xs"
        by (auto simp: restoreColons_def)
      with "1" Cons show ?thesis by auto
    qed
  qed
qed

lemma hideColons_name_chars:
  "list_all (\<lambda>c. is_dotted c \<or> c = CHR '':'') s \<Longrightarrow> list_all is_name_char (hideColons s)"
  by (induction s) (auto simp: colonReplacement_def is_name_char_def)

text \<open>
  The metadata the string form can carry: a namespace and a group of letters, digits,
  dashes and dots, an alphanumeric kind, and a name that starts with a letter or a digit
  and goes on with those characters or colons.
\<close>

definition storable :: "ObjectMetadata \<Rightarrow> bool" where
  "storable m \<longleftrightarrow>
     list_all is_dotted (Namespace m) \<and>
     Name m \<noteq> [] \<and> is_alnum (hd (Name m)) \<and>
     list_all (\<lambda>c. is_dotted c \<or> c = CHR '':'') (Name m) \<and>
     list_all is_dotted (Group m) \<and> list_all is_alnum (Kind m)"

lemma storable_key_parts:
  "storable m \<Longrightarrow> key_parts (Namespace m) (hideColons (Name m)) (Group m) (Kind m)"
  by (cases "Name m") (auto simp: storable_def key_parts_def dest: hideColons_name_chars)

lemma storable_roundtrip:
  assumes "storable m"
  shows "ObjectMetadataFromString (ToString m) = (True, m)"
proof -
  have "CHR ''_'' \<notin> set (Name m)"
    using assms by (auto simp: storable_def list_all_iff)
  then show ?thesis
    using ObjectMetadataFromString_key [OF storable_key_parts [OF assms]]
    by (simp add: ToString_key_string restore_hideColons)
qed



text \<open>
  a string accepted as an inventory key is the string form of the metadata it is read
  as, so no two keys of an inventory stand for the same resource.
\<close>

theorem metadata_key_canonical:
  assumes "ObjectMetadataFromString s = (True, m)"
  shows "ToString m = s"
proof -
  from assms obtain ns nm g k where kp: "key_parts ns nm g k" and s: "s = key_string ns nm g k"
    and m: "m = ObjectMetadata (restoreColons nm) ns g k"
    using ObjectMetadataFromString_cases [of s] by auto
  have "CHR '':'' \<notin> set nm"
    using kp by (auto simp: key_parts_def list_all_iff)
  then show ?thesis by (simp add: s m ToString_key_string hide_restoreColons)
qed

theorem metadata_key_canonical_witness:
  "ToString (ObjectMetadata ''system:aws'' ''ns'' [] ''Role'') = ''ns_system__aws__Role''"
proof (rule metadata_key_canonical)
  have "key_parts ''ns'' ''system__aws'' [] ''Role''"
    by (simp add: key_parts_def is_name_char_def is_dotted_def is_alnum_def)
  from ObjectMetadataFromString_key [OF this]
  show "ObjectMetadataFromString ''ns_system__aws__Role'' =
    (True, ObjectMetadata ''system:aws'' ''ns'' [] ''Role'')"
    by (simp add: key_string_def separator_def restoreColons_def)
qed

text \<open>
  The string form does not tell apart a colon and the two underscores that replace it:
  two different resources can have the same key.
\<close>

lemma metadata_key_collision:
  "ToString (ObjectMetadata ''a:b'' ns g k) = ToString (ObjectMetadata ''a__b'' ns g k) \<and>
   ObjectMetadata ''a:b'' ns g k \<noteq> ObjectMetadata ''a__b'' ns g k"
  by (simp add: ToString_def colonReplacement_def)

lemma ToString_inj_on_storable: "inj_on ToString {m. storable m}"
  by (rule inj_onI) (metis storable_roundtrip mem_Collect_eq prod.inject)

end
