(* ===== verification/Resource_Errors.thy ===== *)
theory Resource_Errors
  imports Resource_Metadata
begin

text \<open>
  \<open>pkg/resource/errors.go\<close> and \<open>pkg/resourcereader/errors.go\<close>: the errors of the program
  as values of one type. \<open>LibraryError\<close> is an error made by a library, with the reason its
  predicates (\<open>apierrors.IsNotFound\<close>, \<open>meta.IsNoMatchError\<close>, \<open>errors.Is\<close>) look for and its
  text; \<open>Errorf\<close> is \<open>fmt.Errorf\<close> with a final \<open>%w\<close>, which those predicates see through.
\<close>

datatype Dependency = Dependency (dep_from: ObjectMetadata) (dep_to: ObjectMetadata)

datatype Reason =
    NoMatch | NotFound | Conflict | UnsupportedMediaType | Forbidden | ResourceExpired | Gone
  | ContextCanceled | ContextDeadlineExceeded | IO_EOF | IO_UnexpectedEOF | OtherReason

datatype go_error =
    ErrorNew string
  | LibraryError Reason string
  | Errorf string go_error
  | UnknownResourceTypeError GroupVersionKind
  | ExternalDependencyError Dependency
  | CyclicDependencyError "Dependency list"
  | EnforcedNamespaceError string string GroupVersionKind
  | Aggregate "go_error list"

fun has_reason :: "Reason \<Rightarrow> go_error \<Rightarrow> bool" where
  "has_reason r (LibraryError r' _) \<longleftrightarrow> r = r'"
| "has_reason r (Errorf _ e) \<longleftrightarrow> has_reason r e"
| "has_reason r _ \<longleftrightarrow> False"

lemma has_reason_unique: "has_reason r e \<Longrightarrow> has_reason r' e \<Longrightarrow> r = r'"
  by (induction r e rule: has_reason.induct) auto

subsection \<open>Texts\<close>

definition formatObjectMetadata :: "ObjectMetadata \<Rightarrow> string" where
  "formatObjectMetadata metadata =
     (let gk = (if Group metadata = [] then Kind metadata
                else Group metadata @ ''/'' @ Kind metadata);
          nameRef = (if Namespace metadata = [] then Name metadata
                     else Namespace metadata @ ''/'' @ Name metadata)
      in gk @ '' '' @ nameRef)"

definition cyclicText :: "Dependency list \<Rightarrow> string" where
  "cyclicText ds = ''cyclical dependencies:'' @
     concat (map (\<lambda>d. [char_of (10::nat)] @ ''- from '' @ formatObjectMetadata (dep_from d) @
       '' to '' @ formatObjectMetadata (dep_to d)) ds)"

definition enforcedNamespaceText :: "(GroupVersionKind \<Rightarrow> string) \<Rightarrow> string \<Rightarrow> string \<Rightarrow> GroupVersionKind \<Rightarrow> string" where
  "enforcedNamespaceText gvkString ns found gvk =
     ''found resource '' @ fmt_q (gvkString gvk) @ '' in namespace '' @ fmt_q found @
     '', but all resources must be in namespace '' @ fmt_q ns"

text \<open>
  The method \<open>Error\<close>. The text of a \<open>GroupVersionKind\<close> and of an aggregate are the
  library's: \<open>gvkString\<close> and \<open>aggregateText\<close>.
\<close>

fun Error :: "(GroupVersionKind \<Rightarrow> string) \<Rightarrow> (string list \<Rightarrow> string) \<Rightarrow> go_error \<Rightarrow> string" where
  "Error gvkString aggregateText (ErrorNew s) = s"
| "Error gvkString aggregateText (LibraryError _ s) = s"
| "Error gvkString aggregateText (Errorf s e) = s @ Error gvkString aggregateText e"
| "Error gvkString aggregateText (UnknownResourceTypeError gvk) =
     ''unknown resource type: '' @ fmt_q (gvkString gvk)"
| "Error gvkString aggregateText (ExternalDependencyError d) =
     ''external dependency from '' @ formatObjectMetadata (dep_from d) @
     '' to '' @ formatObjectMetadata (dep_to d)"
| "Error gvkString aggregateText (CyclicDependencyError ds) = cyclicText ds"
| "Error gvkString aggregateText (EnforcedNamespaceError ns found gvk) =
     enforcedNamespaceText gvkString ns found gvk"
| "Error gvkString aggregateText (Aggregate es) =
     aggregateText (map (Error gvkString aggregateText) es)"

end
