(* ===== verification/Resource_Dependency.thy ===== *)
theory Resource_Dependency
  imports Resource_Errors
begin

text \<open>
  \<open>pkg/resource/dependency.go\<close>: the annotation that names the explicit dependencies of an
  object, its parser and its printer.
\<close>

definition DependsOnAnnotation :: string where
  "DependsOnAnnotation = ''config.kubernetes.io/depends-on''"

definition annotationSeparator :: char where "annotationSeparator = CHR '',''"

definition fieldSeparator :: char where "fieldSeparator = CHR ''/''"

definition namespacesField :: string where "namespacesField = ''namespaces''"

subsection \<open>One reference\<close>

definition parseDependencyObjectMetadata :: "string \<Rightarrow> go_error + ObjectMetadata" where
  "parseDependencyObjectMetadata s =
     (let metadataString = strings_TrimSpace s in
      case strings_Split metadataString fieldSeparator of
        [grp, kind, name] \<Rightarrow> Inr (ObjectMetadata name [] grp kind)
      | [grp, field, namespace, kind, name] \<Rightarrow>
          (if field \<noteq> namespacesField
           then Inl (ErrorNew (''unexpected string as namespaced resource: '' @ metadataString))
           else Inr (ObjectMetadata name namespace grp kind))
      | _ \<Rightarrow> Inl (ErrorNew (''unexpected field composition: '' @ metadataString)))"

definition formatDependencyObjectMetadata :: "ObjectMetadata \<Rightarrow> go_error + string" where
  "formatDependencyObjectMetadata m =
     (if Kind m = [] then Inl (ErrorNew ''invalid object metadata: missing resource kind'')
      else if Name m = [] then Inl (ErrorNew ''invalid object metadata: missing resource name'')
      else if Namespace m = []
        then Inr (Group m @ [fieldSeparator] @ Kind m @ [fieldSeparator] @ Name m)
      else Inr (Group m @ [fieldSeparator] @ namespacesField @ [fieldSeparator] @ Namespace m @
             [fieldSeparator] @ Kind m @ [fieldSeparator] @ Name m))"

subsection \<open>The annotation\<close>

text \<open>The parser returns what it has parsed so far beside the error.\<close>

fun unmarshal_loop ::
  "ObjectMetadata list \<Rightarrow> string list \<Rightarrow> ObjectMetadata list \<times> go_error option" where
  "unmarshal_loop acc [] = (acc, None)"
| "unmarshal_loop acc (s # ss) =
     (case parseDependencyObjectMetadata s of
        Inl err \<Rightarrow> (acc, Some (Errorf ''failed to parse object reference: '' err))
      | Inr obj \<Rightarrow> unmarshal_loop (acc @ [obj]) ss)"

definition unmarshalDepedenciesString :: "string \<Rightarrow> ObjectMetadata list \<times> go_error option" where
  "unmarshalDepedenciesString depString =
     unmarshal_loop [] (strings_Split depString annotationSeparator)"

definition marshal_step :: "string list \<Rightarrow> ObjectMetadata \<Rightarrow> go_error + string list" where
  "marshal_step depStrings m =
     (case formatDependencyObjectMetadata m of
        Inl err \<Rightarrow> Inl (Errorf ''failed to format object reference: '' err)
      | Inr objString \<Rightarrow> Inr (depStrings @ [objString]))"

definition marshalDepedenciesString :: "ObjectMetadata list \<Rightarrow> go_error + string" where
  "marshalDepedenciesString dependencies =
     (case fold_result marshal_step [] dependencies of
        Inl err \<Rightarrow> Inl err
      | Inr depStrings \<Rightarrow> Inr (strings_Join depStrings [annotationSeparator]))"

definition hasDepedencyAnnotation :: "'c unstructured \<Rightarrow> bool" where
  "hasDepedencyAnnotation obj = has_key (gomap_of (objAnnotations obj)) DependsOnAnnotation"

definition ObjectExplicitDependencies ::
  "'c unstructured \<Rightarrow> ObjectMetadata list \<times> go_error option" where
  "ObjectExplicitDependencies obj =
     (if \<not> hasDepedencyAnnotation obj then ([], None)
      else unmarshalDepedenciesString
             (lookup_zero [] (gomap_of (objAnnotations obj)) DependsOnAnnotation))"

definition SetObjectExplicitDependencies ::
  "'c unstructured \<Rightarrow> ObjectMetadata list \<Rightarrow> go_error + 'c unstructured" where
  "SetObjectExplicitDependencies obj dependencies =
     (let annotations = gomap_of (objAnnotations obj) in
      if dependencies = [] then Inr obj
      else case marshalDepedenciesString dependencies of
        Inl err \<Rightarrow> Inl err
      | Inr s \<Rightarrow>
          Inr (obj\<lparr>objAnnotations := Some (AList.update DependsOnAnnotation s annotations)\<rparr>))"

subsection \<open>Printing and parsing\<close>

text \<open>
  The references that can be written: a kind and a name are given, no part holds one of the
  two separators, and no white space stands at the ends of the text.
\<close>

definition dep_wf :: "ObjectMetadata \<Rightarrow> bool" where
  "dep_wf m \<longleftrightarrow>
     Kind m \<noteq> [] \<and> Name m \<noteq> [] \<and>
     (\<forall>part \<in> {Group m, Namespace m, Kind m, Name m}.
        fieldSeparator \<notin> set part \<and> annotationSeparator \<notin> set part) \<and>
     (\<forall>r \<in> set space_runes. \<not> prefix r (Group m) \<and> \<not> suffix r (Name m))"

lemma space_runes_separator: "r \<in> set space_runes \<Longrightarrow> fieldSeparator \<notin> set r"
proof -
  have "list_all (\<lambda>r. fieldSeparator \<notin> set r) space_runes" by code_simp
  then show "r \<in> set space_runes \<Longrightarrow> fieldSeparator \<notin> set r" by (auto simp: list_all_iff)
qed

lemma prefix_before_sep: "c \<notin> set r \<Longrightarrow> prefix r (g @ c # t) \<longleftrightarrow> prefix r g"
  by (auto simp: prefix_append prefix_Cons)

lemma suffix_after_sep:
  assumes "c \<notin> set r"
  shows "suffix r (t @ c # g) \<longleftrightarrow> suffix r g"
  using prefix_before_sep [of c "rev r" "rev g" "rev t"] assms
  by (simp add: suffix_to_prefix)

lemma format_trimmed:
  assumes "dep_wf m" and "formatDependencyObjectMetadata m = Inr s"
  shows "strings_TrimSpace s = s"
proof -
  obtain t u where "s = Group m @ fieldSeparator # t" and "s = u @ fieldSeparator # Name m"
    using assms(2)
    by (auto simp: formatDependencyObjectMetadata_def split: if_splits)
       (metis append.assoc append_Cons)+
  then have "trimmed s"
    using assms(1) space_runes_separator prefix_before_sep suffix_after_sep
    unfolding trimmed_def dep_wf_def by metis
  then show ?thesis by (rule strings_TrimSpace_id)
qed

lemma parse_format:
  assumes wf: "dep_wf m" and fmt: "formatDependencyObjectMetadata m = Inr s"
  shows "parseDependencyObjectMetadata s = Inr m"
proof -
  have no: "fieldSeparator \<notin> set (Group m)" "fieldSeparator \<notin> set (Namespace m)"
    "fieldSeparator \<notin> set (Kind m)" "fieldSeparator \<notin> set (Name m)"
    "fieldSeparator \<notin> set namespacesField"
    using wf by (auto simp: dep_wf_def fieldSeparator_def namespacesField_def)
  have "strings_Split s fieldSeparator =
     (if Namespace m = [] then [Group m, Kind m, Name m]
      else [Group m, namespacesField, Namespace m, Kind m, Name m])"
    using fmt no
    by (auto simp: formatDependencyObjectMetadata_def string_simps split: if_splits)
  then show ?thesis
    using format_trimmed [OF wf fmt]
    by (cases m) (auto simp: parseDependencyObjectMetadata_def Let_def split: if_splits)
qed

lemma format_no_comma:
  assumes "dep_wf m" and "formatDependencyObjectMetadata m = Inr s"
  shows "annotationSeparator \<notin> set s"
  using assms
  by (auto simp: formatDependencyObjectMetadata_def dep_wf_def annotationSeparator_def
      fieldSeparator_def namespacesField_def split: if_splits)

lemma format_wf: "dep_wf m \<Longrightarrow> \<exists>s. formatDependencyObjectMetadata m = Inr s"
  by (auto simp: formatDependencyObjectMetadata_def dep_wf_def)

definition formats :: "ObjectMetadata \<Rightarrow> string \<Rightarrow> bool" where
  "formats m s \<longleftrightarrow> dep_wf m \<and> formatDependencyObjectMetadata m = Inr s"

lemma formats_no_comma:
  "list_all2 formats ms ss \<Longrightarrow> s \<in> set ss \<Longrightarrow> annotationSeparator \<notin> set s"
  by (induction ms ss rule: list_all2_induct) (auto simp: formats_def dest: format_no_comma)

lemma unmarshal_loop_formats:
  assumes "list_all2 formats ms ss"
  shows "unmarshal_loop acc ss = (acc @ ms, None)"
  using assms
  by (induction ms ss arbitrary: acc rule: list_all2_induct) (auto simp: parse_format formats_def)

lemma marshal_formats:
  assumes "list_all dep_wf ms"
  shows "\<exists>ss. fold_result marshal_step acc ms = Inr (acc @ ss) \<and>
    list_all2 formats ms ss"
  using assms
proof (induction ms arbitrary: acc)
  case (Cons m ms)
  then obtain s where s: "formatDependencyObjectMetadata m = Inr s" using format_wf by auto
  from Cons.IH [of "acc @ [s]"] Cons.prems
  obtain ss where "fold_result marshal_step (acc @ [s]) ms = Inr ((acc @ [s]) @ ss)"
    and "list_all2 formats ms ss"
    by auto
  moreover have "marshal_step acc m = Inr (acc @ [s])" and "formats m s"
    using s Cons.prems by (simp_all add: marshal_step_def formats_def)
  ultimately show ?case by (intro exI [of _ "s # ss"]) auto
qed simp

lemma marshal_unmarshal:
  assumes "list_all dep_wf ms" and "ms \<noteq> []"
  shows "\<exists>s. marshalDepedenciesString ms = Inr s \<and> unmarshalDepedenciesString s = (ms, None)"
proof -
  obtain ss where ss: "fold_result marshal_step [] ms = Inr ss"
    and all: "list_all2 formats ms ss"
    using marshal_formats [OF assms(1), of "[]"] by auto
  from all have "\<And>s. s \<in> set ss \<Longrightarrow> annotationSeparator \<notin> set s"
    by (rule formats_no_comma)
  moreover have "ss \<noteq> []" using all assms(2) by auto
  ultimately have "strings_Split (strings_Join ss [annotationSeparator]) annotationSeparator = ss"
    by (intro strings_Split_Join)
  with ss unmarshal_loop_formats [OF all, of "[]"] show ?thesis
    by (simp add: marshalDepedenciesString_def unmarshalDepedenciesString_def)
qed

lemma map_of_update_same: "map_of (AList.update k v m) k = Some v"
  by (simp add: update_conv)



text \<open>
  What the parser accepts: three fields, or five with the second one \<open>namespaces\<close>. Printing
  what it returns gives the trimmed text back, when the fields that must be given are.
\<close>

lemma parse_cases:
  assumes "parseDependencyObjectMetadata s = Inr m"
  shows "strings_Split (strings_TrimSpace s) fieldSeparator = [Group m, Kind m, Name m] \<and>
      Namespace m = [] \<or>
    strings_Split (strings_TrimSpace s) fieldSeparator =
      [Group m, namespacesField, Namespace m, Kind m, Name m]"
  using assms
  by (auto simp: parseDependencyObjectMetadata_def Let_def split: list.splits if_splits)

text \<open>
  a reference the parser accepts, with a kind, a name and (in the five-field form) a
  namespace, is printed as its own trimmed text.
\<close>

theorem parse_then_format:
  assumes "parseDependencyObjectMetadata s = Inr m"
    and "Kind m \<noteq> []" and "Name m \<noteq> []"
    and "length (strings_Split (strings_TrimSpace s) fieldSeparator) = 5 \<longrightarrow> Namespace m \<noteq> []"
  shows "formatDependencyObjectMetadata m = Inr (strings_TrimSpace s)"
proof -
  let ?parts = "strings_Split (strings_TrimSpace s) fieldSeparator"
  have "strings_TrimSpace s = strings_Join ?parts [fieldSeparator]"
    by (rule strings_Join_Split [symmetric])
  with parse_cases [OF assms(1)] assms(2-4) show ?thesis
    by (auto simp: formatDependencyObjectMetadata_def)
qed

lemma parse_example:
  "parseDependencyObjectMetadata '' apps/namespaces/ns/Deployment/web '' =
     Inr (ObjectMetadata ''web'' ''ns'' ''apps'' ''Deployment'')"
  by code_simp

theorem parse_then_format_witness:
  "formatDependencyObjectMetadata (ObjectMetadata ''web'' ''ns'' ''apps'' ''Deployment'') =
     Inr (strings_TrimSpace '' apps/namespaces/ns/Deployment/web '')"
  by (rule parse_then_format [OF parse_example]) simp_all

end
