(* ===== verification/Resource_Kinds.thy ===== *)
theory Resource_Kinds
  imports Resource_Dependency
begin

text \<open>
  \<open>pkg/resource/unstructured.go\<close> and \<open>pkg/resource/scope.go\<close>: the kinds the program treats
  on their own, the services a webhook configuration refers to, and the scope of a
  resource. What comes from the libraries is a parameter: the conversion of an object to a
  typed definition, the nested accessors and the REST mapper.
\<close>

subsection \<open>Values and panics\<close>

text \<open>A value of Go's \<open>interface{}\<close> as decoded from a manifest.\<close>

datatype json =
    JNull | JBool bool | JInt int | JFloat int int | JString string
  | JArray "json list" | JObject "(string, json) gomap"

text \<open>The type assertion \<open>v.(map[string]interface{})\<close>; without a second result it panics.\<close>

fun asMap :: "json \<Rightarrow> (string, json) gomap option" where
  "asMap (JObject m) = Some m"
| "asMap _ = None"

text \<open>A computation that returns or panics.\<close>

datatype 'a exec = Panic | Done 'a

fun bind_exec :: "'a exec \<Rightarrow> ('a \<Rightarrow> 'b exec) \<Rightarrow> 'b exec" where
  "bind_exec Panic f = Panic"
| "bind_exec (Done x) f = f x"

lemma bind_exec_Done: "bind_exec m f = Done y \<longleftrightarrow> (\<exists>x. m = Done x \<and> f x = Done y)"
  by (cases m) auto

subsection \<open>Kinds\<close>

definition crdGK :: GroupKind where
  "crdGK = GroupKind ''apiextensions.k8s.io'' ''CustomResourceDefinition''"

definition namespaceGK :: GroupKind where
  "namespaceGK = GroupKind '''' ''Namespace''"

definition validatingGK :: GroupKind where
  "validatingGK = GroupKind ''admissionregistration.k8s.io'' ''ValidatingWebhookConfiguration''"

definition mutatingGK :: GroupKind where
  "mutatingGK = GroupKind ''admissionregistration.k8s.io'' ''MutatingWebhookConfiguration''"

definition serviceGK :: GroupKind where
  "serviceGK = GroupKind '''' ''Service''"

definition IsCRD :: "'c unstructured \<Rightarrow> bool" where
  "IsCRD obj \<longleftrightarrow> objGK obj = crdGK"

definition MetadataIsCRD :: "ObjectMetadata \<Rightarrow> bool" where
  "MetadataIsCRD m \<longleftrightarrow> GroupKind (Group m) (Kind m) = crdGK"

definition IsNamespace :: "'c unstructured \<Rightarrow> bool" where
  "IsNamespace obj \<longleftrightarrow> objGK obj = namespaceGK"

definition IsRegistrationWebhook :: "'c unstructured \<Rightarrow> bool" where
  "IsRegistrationWebhook obj \<longleftrightarrow> objGK obj = validatingGK \<or> objGK obj = mutatingGK"

definition FindCRDs :: "'c unstructured heap \<Rightarrow> ref list \<Rightarrow> ref list" where
  "FindCRDs h objs = foldl (\<lambda>crds r. if IsCRD (h r) then crds @ [r] else crds) [] objs"

lemma FindCRDs_filter: "FindCRDs h objs = filter (\<lambda>r. IsCRD (h r)) objs"
proof -
  have "foldl (\<lambda>crds r. if IsCRD (h r) then crds @ [r] else crds) acc objs =
      acc @ filter (\<lambda>r. IsCRD (h r)) objs" for acc
    by (induction objs arbitrary: acc) auto
  then show ?thesis by (simp add: FindCRDs_def)
qed

lemma MetadataIsCRD_iff [simp]: "MetadataIsCRD (ObjectMetadataFromUnstructured obj) = IsCRD obj"
  by (cases "objGK obj") (simp add: MetadataIsCRD_def IsCRD_def)

subsection \<open>Typed definitions\<close>

text \<open>The fields the program reads of \<open>apiextv1.CustomResourceDefinition\<close>.\<close>

record CRD =
  crdGroup :: string
  crdKind :: string
  crdScope :: string
  crdVersions :: "string list"

text \<open>\<open>clientConfig.Service\<close>: a nil pointer, or the name and the namespace.\<close>

type_synonym ServiceReference = "(string \<times> string) option"

text \<open>
  What the resource package calls of the libraries: the strict conversions of
  \<open>runtime.DefaultUnstructuredConverter\<close> and the nested accessors of \<open>unstructured\<close>, whose
  result is an error, not found, or found.
\<close>

record 'c converter =
  toCRD :: "'c unstructured \<Rightarrow> go_error + CRD"
  nestedSlice :: "'c unstructured \<Rightarrow> string list \<Rightarrow> go_error + json list option"
  nestedMap :: "(string, json) gomap \<Rightarrow> string list \<Rightarrow> go_error + (string, json) gomap option"
  toWebhookClientConfig :: "(string, json) gomap \<Rightarrow> go_error + ServiceReference"

fun servicesFromEntries :: "'c converter \<Rightarrow> ObjectMetadata list \<Rightarrow> json list \<Rightarrow> ObjectMetadata list exec" where
  "servicesFromEntries lib services [] = Done services"
| "servicesFromEntries lib services (webhook # webhooks) =
     (case asMap webhook of
        None \<Rightarrow> Panic
      | Some entry \<Rightarrow>
          (case nestedMap lib entry [''clientConfig''] of
             Inr (Some serviceRef) \<Rightarrow>
               (case toWebhookClientConfig lib serviceRef of
                  Inr (Some (name, namespace)) \<Rightarrow>
                    servicesFromEntries lib
                      (services @ [ObjectMetadata name namespace (gk_group serviceGK) (gk_kind serviceGK)])
                      webhooks
                | _ \<Rightarrow> servicesFromEntries lib services webhooks)
           | _ \<Rightarrow> servicesFromEntries lib services webhooks))"

definition servicesMetadataFromWebhook :: "'c converter \<Rightarrow> 'c unstructured \<Rightarrow> ObjectMetadata list exec" where
  "servicesMetadataFromWebhook lib webhook =
     (case nestedSlice lib webhook [''webhooks''] of
        Inr (Some webhooks) \<Rightarrow> servicesFromEntries lib [] webhooks
      | _ \<Rightarrow> Done [])"

subsection \<open>Scope\<close>

datatype RESTScope = RESTScopeNamespace | RESTScopeRoot

datatype GroupVersionResource = GroupVersionResource string string string

record RESTMapping =
  mapResource :: GroupVersionResource
  mapGVK :: GroupVersionKind
  mapScope :: RESTScope

text \<open>\<open>meta.RESTMapper.RESTMapping(gk, versions...)\<close>.\<close>

type_synonym RESTMapper = "GroupKind \<Rightarrow> string list \<Rightarrow> go_error + RESTMapping"

text \<open>The scope a version list gives, if the wanted version is in it and the scope is a known one.\<close>

fun scopeFromVersions :: "GroupVersionKind \<Rightarrow> CRD \<Rightarrow> string list \<Rightarrow> RESTScope option" where
  "scopeFromVersions gvk crd [] = None"
| "scopeFromVersions gvk crd (version # versions) =
     (if gvk = WithVersion (GroupKind (crdGroup crd) (crdKind crd)) version
      then (if crdScope crd = ''Cluster'' then Some RESTScopeRoot
            else if crdScope crd = ''Namespaced'' then Some RESTScopeNamespace
            else scopeFromVersions gvk crd versions)
      else scopeFromVersions gvk crd versions)"

fun scopeFromCRDs ::
  "'c converter \<Rightarrow> 'c unstructured heap \<Rightarrow> GroupVersionKind \<Rightarrow> ref list \<Rightarrow> go_error + RESTScope" where
  "scopeFromCRDs lib h gvk [] = Inl (UnknownResourceTypeError gvk)"
| "scopeFromCRDs lib h gvk (r # crds) =
     (case toCRD lib (h r) of
        Inl err \<Rightarrow> scopeFromCRDs lib h gvk crds
      | Inr crd \<Rightarrow>
          (case scopeFromVersions gvk crd (crdVersions crd) of
             Some scope \<Rightarrow> Inr scope
           | None \<Rightarrow> scopeFromCRDs lib h gvk crds))"

definition Scope ::
  "'c converter \<Rightarrow> 'c unstructured heap \<Rightarrow> 'c unstructured \<Rightarrow> RESTMapper \<Rightarrow> ref list \<Rightarrow> go_error + RESTScope" where
  "Scope lib h obj mapper additionalCRDs =
     (let gvk = objGVK obj in
      case mapper (groupKind gvk) [gvk_version gvk] of
        Inr mapping \<Rightarrow> Inr (mapScope mapping)
      | Inl err \<Rightarrow>
          (if \<not> has_reason NoMatch err then Inl err
           else scopeFromCRDs lib h gvk additionalCRDs))"

text \<open>A definition declares a kind in a version, with a scope.\<close>

definition declares :: "CRD \<Rightarrow> GroupVersionKind \<Rightarrow> RESTScope \<Rightarrow> bool" where
  "declares crd gvk scope \<longleftrightarrow>
     crdGroup crd = gvk_group gvk \<and> crdKind crd = gvk_kind gvk \<and>
     gvk_version gvk \<in> set (crdVersions crd) \<and>
     crdScope crd = (case scope of RESTScopeRoot \<Rightarrow> ''Cluster'' | RESTScopeNamespace \<Rightarrow> ''Namespaced'')"

lemma scopeFromVersions_Some:
  "scopeFromVersions gvk crd vs = Some scope \<longleftrightarrow>
     crdGroup crd = gvk_group gvk \<and> crdKind crd = gvk_kind gvk \<and> gvk_version gvk \<in> set vs \<and>
     crdScope crd = (case scope of RESTScopeRoot \<Rightarrow> ''Cluster'' | RESTScopeNamespace \<Rightarrow> ''Namespaced'')"
  by (induction vs; cases gvk; cases scope) (auto simp: WithVersion_def)

lemma scopeFromVersions_declares:
  "scopeFromVersions gvk crd (crdVersions crd) = Some scope \<longleftrightarrow> declares crd gvk scope"
  by (simp add: scopeFromVersions_Some declares_def)

lemma scopeFromCRDs_Inr:
  assumes "scopeFromCRDs lib h gvk crds = Inr scope"
  shows "\<exists>r crd. r \<in> set crds \<and> toCRD lib (h r) = Inr crd \<and> declares crd gvk scope"
  using assms
proof (induction crds)
  case (Cons r crds)
  then show ?case
    by (auto simp: scopeFromVersions_declares split: sum.splits option.splits)
qed simp

lemma scopeFromCRDs_Inl:
  assumes "scopeFromCRDs lib h gvk crds = Inl err"
  shows "err = UnknownResourceTypeError gvk \<and>
    (\<forall>r \<in> set crds. \<forall>crd. toCRD lib (h r) = Inr crd \<longrightarrow> (\<forall>scope. \<not> declares crd gvk scope))"
  using assms
proof (induction crds)
  case (Cons r crds)
  show ?case
  proof (cases "toCRD lib (h r)")
    case (Inl e)
    with Cons show ?thesis by auto
  next
    case (Inr crd)
    with Cons.prems have none: "scopeFromVersions gvk crd (crdVersions crd) = None"
      and rest: "scopeFromCRDs lib h gvk crds = Inl err"
      by (auto split: option.splits)
    from none have "\<forall>scope. \<not> declares crd gvk scope"
      by (metis option.distinct(1) scopeFromVersions_declares)
    with Inr Cons.IH [OF rest] show ?thesis by auto
  qed
qed simp

text \<open>
  The scope of a resource is what the cluster says; only for a kind the cluster does not
  know is it taken from the definitions among the manifests, and the resource is rejected
  as unknown exactly when none of those that can be read declares its kind and version.
\<close>

lemma Scope_spec:
  "(\<forall>mapping. mapper (objGK obj) [gvk_version (objGVK obj)] = Inr mapping \<longrightarrow>
      Scope lib h obj mapper crds = Inr (mapScope mapping)) \<and>
   (\<forall>err. mapper (objGK obj) [gvk_version (objGVK obj)] = Inl err \<longrightarrow>
      (\<not> has_reason NoMatch err \<longrightarrow> Scope lib h obj mapper crds = Inl err) \<and>
      (has_reason NoMatch err \<longrightarrow>
         (\<forall>scope. Scope lib h obj mapper crds = Inr scope \<longrightarrow>
            (\<exists>r crd. r \<in> set crds \<and> toCRD lib (h r) = Inr crd \<and> declares crd (objGVK obj) scope)) \<and>
         (\<forall>err'. Scope lib h obj mapper crds = Inl err' \<longrightarrow>
            err' = UnknownResourceTypeError (objGVK obj) \<and>
            (\<forall>r \<in> set crds. \<forall>crd. toCRD lib (h r) = Inr crd \<longrightarrow>
               (\<forall>scope. \<not> declares crd (objGVK obj) scope)))))"
  using scopeFromCRDs_Inr [of lib h "objGVK obj" crds] scopeFromCRDs_Inl [of lib h "objGVK obj" crds]
  by (simp add: Scope_def objGK_def Let_def)

text \<open>
  A webhook entry that is no object makes the reading of the webhook configuration panic;
  entries that are objects never do.
\<close>

lemma servicesFromEntries_Panic:
  "servicesFromEntries lib services ws = Panic \<longleftrightarrow> (\<exists>w \<in> set ws. asMap w = None)"
  by (induction lib services ws rule: servicesFromEntries.induct)
     (auto split: option.splits sum.splits)

definition no_conversion :: "unit converter" where
  "no_conversion = \<lparr>toCRD = (\<lambda>obj. Inr \<lparr>crdGroup = ''example.com'', crdKind = ''Widget'',
       crdScope = ''Cluster'', crdVersions = [''v1'']\<rparr>),
     nestedSlice = (\<lambda>obj path. Inr None), nestedMap = (\<lambda>m path. Inr None),
     toWebhookClientConfig = (\<lambda>m. Inr None)\<rparr>"

definition example_object :: "GroupVersionKind \<Rightarrow> string \<Rightarrow> string \<Rightarrow> unit unstructured" where
  "example_object gvk name namespace =
     \<lparr>objGVK = gvk, objName = name, objNamespace = namespace, objLabels = None,
      objAnnotations = None, objGeneration = 1, objDeletionTimestamp = None, objContent = ()\<rparr>"

lemma Scope_spec_witness:
  "\<exists>crd. toCRD no_conversion (example_object (GroupVersionKind ''x'' ''v1'' ''y'') [] []) = Inr crd \<and>
     declares crd (GroupVersionKind ''example.com'' ''v1'' ''Widget'') RESTScopeRoot"
proof -
  let ?gvk = "GroupVersionKind ''example.com'' ''v1'' ''Widget''"
  let ?obj = "example_object ?gvk ''w'' []"
  let ?h = "\<lambda>r. example_object (GroupVersionKind ''x'' ''v1'' ''y'') [] []"
  let ?mapper = "\<lambda>gk vs. Inl (LibraryError NoMatch ''no match'')"
  have "Scope no_conversion ?h ?obj ?mapper [0] = Inr RESTScopeRoot"
    by (simp add: Scope_def no_conversion_def example_object_def WithVersion_def Let_def)
  moreover have "objGVK ?obj = ?gvk" by (simp add: example_object_def)
  ultimately show ?thesis
    using Scope_spec [of ?mapper ?obj no_conversion ?h "[0]"] by auto
qed

end
