(* ===== verification/Status_Types.thy ===== *)
theory Status_Types
  imports Resource_Kinds "HOL-Library.Word"
begin

text \<open>
  \<open>pkg/poller/status.go\<close> and the typed views of the objects that
  \<open>pkg/poller/statuschecker.go\<close> reads. The views hold the fields the checks use; the
  conversions that fill them belong to the library and are the fields of \<open>status_lib\<close>.
  Replica counts are Go's \<open>int32\<close>, kept as 32-bit words and compared as signed numbers.
\<close>

subsection \<open>Results\<close>

datatype Status = StatusInProgress | StatusFailed | StatusTerminating | StatusCurrent

datatype Result = Result (Status: Status) (Message: string)

definition currentResult :: "string \<Rightarrow> Result" where
  "currentResult message = Result StatusCurrent message"

definition inProgressResult :: "string \<Rightarrow> Result" where
  "inProgressResult message = Result StatusInProgress message"

definition terminatingResult :: "string \<Rightarrow> Result" where
  "terminatingResult message = Result StatusTerminating message"

definition failedResult :: "string \<Rightarrow> Result" where
  "failedResult message = Result StatusFailed message"

lemma Status_results [simp, status_simps]:
  "Status (currentResult m) = StatusCurrent" "Status (inProgressResult m) = StatusInProgress"
  "Status (terminatingResult m) = StatusTerminating" "Status (failedResult m) = StatusFailed"
  by (simp_all add: currentResult_def inProgressResult_def terminatingResult_def failedResult_def)

lemma Message_results [simp, status_simps]:
  "Message (currentResult m) = m" "Message (inProgressResult m) = m"
  "Message (terminatingResult m) = m" "Message (failedResult m) = m"
  by (simp_all add: currentResult_def inProgressResult_def terminatingResult_def failedResult_def)

text \<open>The pair \<open>(*Result, error)\<close>, where both can be nil.\<close>

type_synonym check = "Result option \<times> go_error option"

definition returns :: "Result \<Rightarrow> check" where "returns r = (Some r, None)"

definition nothing :: check where "nothing = (None, None)"

definition fails :: "go_error \<Rightarrow> check" where "fails e = (None, Some e)"

lemma check_simps [simp, status_simps]:
  "returns r \<noteq> nothing" "fails e \<noteq> nothing" "returns r = (a, b) \<longleftrightarrow> a = Some r \<and> b = None"
  "returns r = returns r' \<longleftrightarrow> r = r'" "returns r \<noteq> fails e" "fails e \<noteq> returns r"
  "nothing \<noteq> returns r" "nothing \<noteq> fails e"
  by (auto simp: returns_def nothing_def fails_def)

subsection \<open>Typed views\<close>

type_synonym int32 = "32 word"

definition gt32 :: "int32 \<Rightarrow> int32 \<Rightarrow> bool" where
  "gt32 a b \<longleftrightarrow> sint a > sint b"

text \<open>The verb \<open>%d\<close> on an \<open>int32\<close>.\<close>

definition fmt_d32 :: "int32 \<Rightarrow> string" where
  "fmt_d32 i = fmt_d (sint i)"

definition max32 :: "int32 \<Rightarrow> int32 \<Rightarrow> int32" where
  "max32 a b = (if gt32 b a then b else a)"

record Condition =
  cType :: string
  cStatus :: string
  cReason :: string
  cMessage :: string

record Service =
  svcType :: string
  svcIngress :: "json list"

record Job =
  jobParallelism :: "int32 option"
  jobCompletions :: "int32 option"
  jobSucceeded :: int32
  jobActive :: int32
  jobFailed :: int32
  jobStartTime :: "Time option"
  jobConditions :: "Condition list"

text \<open>A container status: its name and the reason of its \<open>Waiting\<close> state, if it is waiting.\<close>

record ContainerStatus =
  csName :: string
  csWaiting :: "string option"

record Pod =
  podPhase :: string
  podConditions :: "Condition list"
  podCreation :: Time
  podContainers :: "ContainerStatus list"
  podInitContainers :: "ContainerStatus list"

record Deployment =
  dProgressDeadline :: "int32 option"
  dSpecReplicas :: "int32 option"
  dConditions :: "Condition list"
  dReplicas :: int32
  dUpdated :: int32
  dAvailable :: int32
  dReady :: int32

record DaemonSet =
  dsDesired :: int32
  dsCurrent :: int32
  dsUpdated :: int32
  dsAvailable :: int32
  dsReady :: int32

text \<open>\<open>stsRollingUpdate\<close> is the pointer \<open>RollingUpdate\<close>, and inside it the pointer \<open>Partition\<close>.\<close>

record StatefulSet =
  stsStrategy :: string
  stsRollingUpdate :: "int32 option option"
  stsSpecReplicas :: "int32 option"
  stsReady :: int32
  stsCurrent :: int32
  stsReplicas :: int32
  stsUpdated :: int32
  stsCurrentRevision :: string
  stsUpdateRevision :: string

text \<open>What the checks call of the libraries, and the clock.\<close>

record 'c status_lib =
  nestedInt64 :: "'c unstructured \<Rightarrow> string list \<Rightarrow> go_error + int option"
  nestedConditions :: "'c unstructured \<Rightarrow> string list \<Rightarrow> go_error + json list option"
  toCondition :: "(string, json) gomap \<Rightarrow> go_error + Condition"
  toCRDConditions :: "'c unstructured \<Rightarrow> go_error + Condition list"
  toService :: "'c unstructured \<Rightarrow> go_error + Service"
  toPVCPhase :: "'c unstructured \<Rightarrow> go_error + string"
  toJob :: "'c unstructured \<Rightarrow> go_error + Job"
  toPod :: "'c unstructured \<Rightarrow> go_error + Pod"
  toDeployment :: "'c unstructured \<Rightarrow> go_error + Deployment"
  toDaemonSet :: "'c unstructured \<Rightarrow> go_error + DaemonSet"
  toStatefulSet :: "'c unstructured \<Rightarrow> go_error + StatefulSet"
  time_Now :: int

text \<open>\<open>Time.IsZero\<close> on a pointer, and \<open>Time.After\<close>: the zero time is before every other time.\<close>

fun IsZero :: "Time option \<Rightarrow> bool" where
  "IsZero (Some (At t)) \<longleftrightarrow> False"
| "IsZero _ \<longleftrightarrow> True"

fun After :: "Time \<Rightarrow> int \<Rightarrow> bool" where
  "After ZeroTime d \<longleftrightarrow> False"
| "After (At t) d \<longleftrightarrow> t > d"

end
