(* ===== verification/Status_Check.thy ===== *)
theory Status_Check
  imports Status_Types
begin

text \<open>
  \<open>pkg/poller/statuschecker.go\<close>: how the status of a resource is read off its fields, one
  definition per function, in the order of the source.
\<close>

definition has_condition :: "string \<Rightarrow> string \<Rightarrow> Condition \<Rightarrow> bool" where
  "has_condition t s c \<longleftrightarrow> cType c = t \<and> cStatus c = s"

subsection \<open>Messages\<close>

text \<open>
  The texts of the results. A format is a function of the values that \<open>Sprintf\<close> is given.
\<close>

definition generationMessageFormat :: "string \<Rightarrow> int \<Rightarrow> int \<Rightarrow> string" where
  "generationMessageFormat a b c = fmt_q a @ '' current generation is '' @ fmt_d b @ '', observed generation is '' @ fmt_d c"

definition deletionMessage :: string where
  "deletionMessage = ''Resource is scheduled for deletion''"

definition currentMessage :: string where
  "currentMessage = ''Resource is current''"

definition crdCurrentMessage :: string where
  "crdCurrentMessage = ''CRD is established''"

definition serviceInProgressMessage :: string where
  "serviceInProgressMessage = ''Load Balancer assignment in progress''"

definition pvcCurrentMessage :: string where
  "pvcCurrentMessage = ''PVC is Bound''"

definition pvcInProgressMessageFormat :: "string \<Rightarrow> string" where
  "pvcInProgressMessageFormat a = ''PVC current phase: '' @ fmt_q a"

definition jobCurrentMessageFormat :: "int32 \<Rightarrow> int32 \<Rightarrow> string" where
  "jobCurrentMessageFormat a b = ''Job Completed. succeeded: '' @ fmt_d32 a @ ''/'' @ fmt_d32 b"

definition jobSuspendedMessage :: string where
  "jobSuspendedMessage = ''Job is suspended''"

definition jobInProgressMessage :: string where
  "jobInProgressMessage = ''Job is not started yet''"

definition jobRunningMessage :: "int32 \<Rightarrow> int32 \<Rightarrow> int32 \<Rightarrow> string" where
  "jobRunningMessage a b c = ''Job in progress. success:'' @ fmt_d32 a @ '', active: '' @ fmt_d32 b @ '', failed: '' @ fmt_d32 c"

definition podSuccededMessage :: string where
  "podSuccededMessage = ''Pod has been successfully completed''"

definition podFailedMessage :: string where
  "podFailedMessage = ''Pod has failed to complete with success''"

definition podUnscheduledMessage :: string where
  "podUnscheduledMessage = ''Pod is waiting to be scheduled''"

definition podPendingMessage :: string where
  "podPendingMessage = ''Pod is pending''"

definition podInProgressMessage :: string where
  "podInProgressMessage = ''Pod is in progress''"

definition crashloopingContainersMessageFormat :: "string \<Rightarrow> string" where
  "crashloopingContainersMessageFormat a = ''Containers in CrashLoopBackOff: '' @ fmt_q a"

definition podReadyMessage :: string where
  "podReadyMessage = ''Pod is Ready''"

definition podRunningMessage :: string where
  "podRunningMessage = ''Pod is running but is not ready yet''"

definition deploymentDeadlineMessage :: string where
  "deploymentDeadlineMessage = ''Deployment failed because the deadline has exceeed''"

definition deploymentNotProgressingMessage :: string where
  "deploymentNotProgressingMessage = ''Deployment is not progressing because ReplicaSet is not available''"

definition deploymentNotAvailableMessage :: string where
  "deploymentNotAvailableMessage = ''Deployment is not available''"

definition deploymentCurrentMessageFormat :: "int32 \<Rightarrow> string" where
  "deploymentCurrentMessageFormat a = ''Deployment is available with '' @ fmt_d32 a @ '' replicas''"

definition deploymentFewReplicasMessageFormat :: "int32 \<Rightarrow> int32 \<Rightarrow> string" where
  "deploymentFewReplicasMessageFormat a b = ''Deployment creating replicas: '' @ fmt_d32 a @ ''/'' @ fmt_d32 b"

definition deploymentUpdatingReplicasMessageFormat :: "int32 \<Rightarrow> int32 \<Rightarrow> string" where
  "deploymentUpdatingReplicasMessageFormat a b = ''Deployment updating replicas: '' @ fmt_d32 a @ ''/'' @ fmt_d32 b"

definition deploymentDeletingReplicasMessageFormat :: "int32 \<Rightarrow> string" where
  "deploymentDeletingReplicasMessageFormat a = ''Deployment terminating replicas: '' @ fmt_d32 a"

definition deploymentWaitingReplicasMessageFormat :: "int32 \<Rightarrow> int32 \<Rightarrow> string" where
  "deploymentWaitingReplicasMessageFormat a b = ''Deployment waiting replicas: '' @ fmt_d32 a @ ''/'' @ fmt_d32 b"

definition daemonsetInProgressMessage :: string where
  "daemonsetInProgressMessage = ''DaemonSet is in progress''"

definition daemonsetCurrentMessageFormat :: "int32 \<Rightarrow> string" where
  "daemonsetCurrentMessageFormat a = ''DaemonSet is available with '' @ fmt_d32 a @ '' replicas''"

definition daemonsetFewReplicasMessageFormat :: "int32 \<Rightarrow> int32 \<Rightarrow> string" where
  "daemonsetFewReplicasMessageFormat a b = ''DaemonSet creating replicas: '' @ fmt_d32 a @ ''/'' @ fmt_d32 b"

definition daemonsetUpdatingReplicasMessageFormat :: "int32 \<Rightarrow> int32 \<Rightarrow> string" where
  "daemonsetUpdatingReplicasMessageFormat a b = ''DaemonSet updating replicas: '' @ fmt_d32 a @ ''/'' @ fmt_d32 b"

definition daemonsetWaitingReplicasMessageFormat :: "int32 \<Rightarrow> int32 \<Rightarrow> string" where
  "daemonsetWaitingReplicasMessageFormat a b = ''DaemonSet waiting replicas: '' @ fmt_d32 a @ ''/'' @ fmt_d32 b"

definition statefulSetOnDeleteStrategyMessage :: string where
  "statefulSetOnDeleteStrategyMessage = ''StatefulSet is set to use OnDelete strategy''"

definition statefulSetFewReplicasMessageFormat :: "int32 \<Rightarrow> int32 \<Rightarrow> string" where
  "statefulSetFewReplicasMessageFormat a b = ''StatefulSet creating replicas: '' @ fmt_d32 a @ ''/'' @ fmt_d32 b"

definition statefulSetWaitingReplicasMessageFormat :: "int32 \<Rightarrow> int32 \<Rightarrow> string" where
  "statefulSetWaitingReplicasMessageFormat a b = ''StatefulSet waiting replicas: '' @ fmt_d32 a @ ''/'' @ fmt_d32 b"

definition statefulSetUpdatingReplicasMessageFormat :: "int32 \<Rightarrow> int32 \<Rightarrow> string" where
  "statefulSetUpdatingReplicasMessageFormat a b = ''StatefulSet updating replicas: '' @ fmt_d32 a @ ''/'' @ fmt_d32 b"

definition statefulSetDeletingReplicasMessageFormat :: "int32 \<Rightarrow> string" where
  "statefulSetDeletingReplicasMessageFormat a = ''StatefulSet terminating replicas: '' @ fmt_d32 a"

definition statefulSetPartitionRolloutMessageFormat :: "int32 \<Rightarrow> int32 \<Rightarrow> string" where
  "statefulSetPartitionRolloutMessageFormat a b = ''StatefulSet partition rolling out: '' @ fmt_d32 a @ ''/'' @ fmt_d32 b"

definition statefulSetPartitionCompleteMessageFormat :: "int32 \<Rightarrow> string" where
  "statefulSetPartitionCompleteMessageFormat a = ''StatefulSet partition completed with '' @ fmt_d32 a @ '' replicas''"

definition statefulSetRevisionMismatchMessage :: string where
  "statefulSetRevisionMismatchMessage = ''StatefulSet revision mismatch''"

lemmas messages = generationMessageFormat_def deletionMessage_def currentMessage_def crdCurrentMessage_def
  serviceInProgressMessage_def pvcCurrentMessage_def pvcInProgressMessageFormat_def jobCurrentMessageFormat_def
  jobSuspendedMessage_def jobInProgressMessage_def jobRunningMessage_def podSuccededMessage_def
  podFailedMessage_def podUnscheduledMessage_def podPendingMessage_def podInProgressMessage_def
  crashloopingContainersMessageFormat_def podReadyMessage_def podRunningMessage_def deploymentDeadlineMessage_def
  deploymentNotProgressingMessage_def deploymentNotAvailableMessage_def deploymentCurrentMessageFormat_def deploymentFewReplicasMessageFormat_def
  deploymentUpdatingReplicasMessageFormat_def deploymentDeletingReplicasMessageFormat_def deploymentWaitingReplicasMessageFormat_def daemonsetInProgressMessage_def
  daemonsetCurrentMessageFormat_def daemonsetFewReplicasMessageFormat_def daemonsetUpdatingReplicasMessageFormat_def daemonsetWaitingReplicasMessageFormat_def
  statefulSetOnDeleteStrategyMessage_def statefulSetFewReplicasMessageFormat_def statefulSetWaitingReplicasMessageFormat_def statefulSetUpdatingReplicasMessageFormat_def
  statefulSetDeletingReplicasMessageFormat_def statefulSetPartitionRolloutMessageFormat_def statefulSetPartitionCompleteMessageFormat_def statefulSetRevisionMismatchMessage_def

declare messages [simp]

subsection \<open>Generations and conditions\<close>

definition checkGenerations :: "'c status_lib \<Rightarrow> 'c unstructured \<Rightarrow> check" where
  "checkGenerations lib object =
     (case nestedInt64 lib object [''status'', ''observedGeneration''] of
        Inl err \<Rightarrow> fails err
      | Inr None \<Rightarrow> nothing
      | Inr (Some observedGeneration) \<Rightarrow>
          (let currentGeneration = objGeneration object in
           if observedGeneration \<noteq> currentGeneration
           then returns (inProgressResult
             (generationMessageFormat (gvk_kind (objGVK object)) currentGeneration observedGeneration))
           else nothing))"

definition conditionResult :: "Condition \<Rightarrow> check" where
  "conditionResult condition =
     (if cType condition = ''Ready'' then
        (if cStatus condition = ''True'' then returns (currentResult currentMessage)
         else if cStatus condition = ''False'' then returns (inProgressResult (cMessage condition))
         else if cStatus condition = ''Unknown'' then returns (inProgressResult (cMessage condition))
         else nothing)
      else if cType condition = ''Reconciling'' then
        (if cStatus condition = ''True'' then returns (inProgressResult (cMessage condition)) else nothing)
      else if cType condition = ''Stalled'' then
        (if cStatus condition = ''True'' then returns (failedResult (cMessage condition)) else nothing)
      else nothing)"

fun conditionsLoop :: "'c status_lib \<Rightarrow> json list \<Rightarrow> check exec" where
  "conditionsLoop lib [] = Done nothing"
| "conditionsLoop lib (conditionData # rest) =
     (case asMap conditionData of
        None \<Rightarrow> Panic
      | Some entry \<Rightarrow>
          (case toCondition lib entry of
             Inl err \<Rightarrow> conditionsLoop lib rest
           | Inr condition \<Rightarrow>
               (if conditionResult condition \<noteq> nothing then Done (conditionResult condition)
                else conditionsLoop lib rest)))"

definition checkStatusConditions :: "'c status_lib \<Rightarrow> 'c unstructured \<Rightarrow> check exec" where
  "checkStatusConditions lib object =
     (case nestedConditions lib object [''status'', ''conditions''] of
        Inl err \<Rightarrow> Done (fails err)
      | Inr None \<Rightarrow> Done nothing
      | Inr (Some conditionsData) \<Rightarrow> conditionsLoop lib conditionsData)"

subsection \<open>Custom resource definitions, services, volume claims\<close>

fun crdConditions :: "Condition list \<Rightarrow> check" where
  "crdConditions [] = returns (inProgressResult ''CRD installation in progress'')"
| "crdConditions (c # cs) =
     (if has_condition ''NamesAccepted'' ''False'' c then returns (failedResult (cMessage c))
      else if has_condition ''Established'' ''True'' c then returns (currentResult crdCurrentMessage)
      else if has_condition ''NamesAccepted'' ''False'' c \<and> cReason c \<noteq> ''Installing''
        then returns (failedResult (cMessage c))
      else crdConditions cs)"

definition crdStatusCheck :: "'c status_lib \<Rightarrow> 'c unstructured \<Rightarrow> check" where
  "crdStatusCheck lib object =
     (case toCRDConditions lib object of Inl err \<Rightarrow> fails err | Inr cs \<Rightarrow> crdConditions cs)"

definition serviceStatusCheck :: "'c status_lib \<Rightarrow> 'c unstructured \<Rightarrow> check" where
  "serviceStatusCheck lib object =
     (case toService lib object of
        Inl err \<Rightarrow> fails err
      | Inr service \<Rightarrow>
          (if svcType service = ''LoadBalancer'' \<and> svcIngress service = []
           then returns (inProgressResult serviceInProgressMessage)
           else returns (currentResult currentMessage)))"

definition pvcStatusCheck :: "'c status_lib \<Rightarrow> 'c unstructured \<Rightarrow> check" where
  "pvcStatusCheck lib object =
     (case toPVCPhase lib object of
        Inl err \<Rightarrow> fails err
      | Inr p \<Rightarrow>
          (let phase = (if p = [] then ''unknown'' else p) in
           if phase = ''Bound'' then returns (currentResult pvcCurrentMessage)
           else returns (inProgressResult (pvcInProgressMessageFormat phase))))"

subsection \<open>Jobs\<close>

definition deref32 :: "int32 option \<Rightarrow> int32" where
  "deref32 p = (case p of None \<Rightarrow> 0 | Some v \<Rightarrow> v)"

text \<open>The loop over the conditions: the result it returns from the function, if it does.\<close>

fun jobConditionsLoop :: "int32 \<Rightarrow> int32 \<Rightarrow> Condition list \<Rightarrow> Result option" where
  "jobConditionsLoop succeeded completions [] = None"
| "jobConditionsLoop succeeded completions (c # cs) =
     (if has_condition ''Failed'' ''True'' c then Some (failedResult (cMessage c))
      else if has_condition ''Complete'' ''True'' c
        then Some (currentResult (jobCurrentMessageFormat succeeded completions))
      else if has_condition ''Suspended'' ''True'' c then Some (currentResult jobSuspendedMessage)
      else jobConditionsLoop succeeded completions cs)"

definition jobResult :: "Job \<Rightarrow> Result" where
  "jobResult job =
     (let parallelism = max32 (deref32 (jobParallelism job)) 1;
          completions = max32 (deref32 (jobCompletions job)) parallelism
      in case jobConditionsLoop (jobSucceeded job) completions (jobConditions job) of
           Some r \<Rightarrow> r
         | None \<Rightarrow>
             (if IsZero (jobStartTime job) then inProgressResult jobInProgressMessage
              else inProgressResult (jobRunningMessage (jobSucceeded job) (jobActive job) (jobFailed job))))"

definition jobStatusCheck :: "'c status_lib \<Rightarrow> 'c unstructured \<Rightarrow> check" where
  "jobStatusCheck lib object =
     (case toJob lib object of Inl err \<Rightarrow> fails err | Inr job \<Rightarrow> returns (jobResult job))"

subsection \<open>Pods\<close>

definition unscheduledWindow :: int where "unscheduledWindow = - 30 * 1000000000"

definition crashLooping :: "ContainerStatus \<Rightarrow> bool" where
  "crashLooping cs \<longleftrightarrow> csWaiting cs = Some ''CrashLoopBackOff''"

definition crashingContainers :: "Pod \<Rightarrow> string list" where
  "crashingContainers pod =
     map csName (filter crashLooping (podContainers pod)) @
     map csName (filter crashLooping (podInitContainers pod))"

definition podPendingResult :: "int \<Rightarrow> Pod \<Rightarrow> Result" where
  "podPendingResult now pod =
     (case find (has_condition ''PodScheduled'' ''False'') (podConditions pod) of
        Some c \<Rightarrow>
          (if cReason c = ''Unschedulable'' \<and> After (podCreation pod) (now + unscheduledWindow)
           then inProgressResult podUnscheduledMessage
           else failedResult (cMessage c))
      | None \<Rightarrow> inProgressResult podPendingMessage)"

definition podRunningResult :: "Pod \<Rightarrow> Result" where
  "podRunningResult pod =
     (case find (has_condition ''Ready'' ''True'') (podConditions pod) of
        Some c \<Rightarrow> currentResult podReadyMessage
      | None \<Rightarrow>
          (let containers = crashingContainers pod in
           if containers \<noteq> []
           then failedResult (crashloopingContainersMessageFormat (strings_Join containers '', ''))
           else inProgressResult podRunningMessage))"

definition podResult :: "int \<Rightarrow> Pod \<Rightarrow> Result" where
  "podResult now pod =
     (if podPhase pod = ''Succeeded'' then currentResult podSuccededMessage
      else if podPhase pod = ''Failed'' then failedResult podFailedMessage
      else if podPhase pod = ''Pending'' then podPendingResult now pod
      else if podPhase pod = ''Running'' then podRunningResult pod
      else inProgressResult podInProgressMessage)"

definition podStatusCheck :: "'c status_lib \<Rightarrow> 'c unstructured \<Rightarrow> check" where
  "podStatusCheck lib object =
     (case toPod lib object of Inl err \<Rightarrow> fails err | Inr pod \<Rightarrow> returns (podResult (time_Now lib) pod))"

subsection \<open>Deployments\<close>

definition replicasStatusResult :: "Deployment \<Rightarrow> Result option" where
  "replicasStatusResult deploy =
     (let replicas = (case dSpecReplicas deploy of Some r \<Rightarrow> r | None \<Rightarrow> 1);
          statusReplicas = dReplicas deploy;
          updatedReplicas = dUpdated deploy;
          availableReplicas = dAvailable deploy;
          readyReplicas = dReady deploy
      in if gt32 replicas statusReplicas
           then Some (inProgressResult (deploymentFewReplicasMessageFormat statusReplicas replicas))
         else if gt32 replicas updatedReplicas
           then Some (inProgressResult (deploymentUpdatingReplicasMessageFormat updatedReplicas replicas))
         else if gt32 statusReplicas replicas
           then Some (inProgressResult (deploymentDeletingReplicasMessageFormat (statusReplicas - replicas)))
         else if gt32 updatedReplicas availableReplicas
           then Some (inProgressResult (deploymentWaitingReplicasMessageFormat availableReplicas updatedReplicas))
         else if gt32 replicas readyReplicas
           then Some (inProgressResult (deploymentWaitingReplicasMessageFormat readyReplicas replicas))
         else None)"

text \<open>
  The loop over the conditions: \<open>None\<close> when it returns the deadline failure, else the two
  flags.
\<close>

fun deployConditionsLoop :: "bool \<Rightarrow> bool \<Rightarrow> Condition list \<Rightarrow> (bool \<times> bool) option" where
  "deployConditionsLoop progressing available [] = Some (progressing, available)"
| "deployConditionsLoop progressing available (c # cs) =
     (if cType c = ''Progressing'' \<and> cReason c = ''ProgressDeadlineExceeded'' then None
      else if cType c = ''Progressing'' \<and> cReason c = ''NewReplicaSetAvailable'' \<and> cStatus c = ''True''
        then deployConditionsLoop True available cs
      else if has_condition ''Available'' ''True'' c then deployConditionsLoop progressing True cs
      else deployConditionsLoop progressing available cs)"

definition deployResult :: "Deployment \<Rightarrow> Result" where
  "deployResult deploy =
     (case deployConditionsLoop (dProgressDeadline deploy = None) False (dConditions deploy) of
        None \<Rightarrow> failedResult deploymentDeadlineMessage
      | Some (deployIsProgressing, deployIsAvailable) \<Rightarrow>
          (case replicasStatusResult deploy of
             Some result \<Rightarrow> result
           | None \<Rightarrow>
               (if \<not> deployIsProgressing
                  then inProgressResult deploymentNotProgressingMessage
                else if \<not> deployIsAvailable then inProgressResult deploymentNotAvailableMessage
                else currentResult (deploymentCurrentMessageFormat (dReplicas deploy)))))"

definition deployStatusCheck :: "'c status_lib \<Rightarrow> 'c unstructured \<Rightarrow> check" where
  "deployStatusCheck lib object =
     (case toDeployment lib object of
        Inl err \<Rightarrow> fails err | Inr deploy \<Rightarrow> returns (deployResult deploy))"

subsection \<open>Daemon sets\<close>

definition daemonSetResult :: "DaemonSet \<Rightarrow> Result" where
  "daemonSetResult ds =
     (let desiredScheduled = dsDesired ds;
          currentScheduled = dsCurrent ds;
          updatedScheduled = dsUpdated ds;
          available = dsAvailable ds;
          ready = dsReady ds
      in if gt32 desiredScheduled currentScheduled
           then inProgressResult (daemonsetFewReplicasMessageFormat currentScheduled desiredScheduled)
         else if gt32 desiredScheduled updatedScheduled
           then inProgressResult (daemonsetUpdatingReplicasMessageFormat updatedScheduled desiredScheduled)
         else if gt32 desiredScheduled available
           then inProgressResult (daemonsetWaitingReplicasMessageFormat available desiredScheduled)
         else if gt32 desiredScheduled ready
           then inProgressResult (daemonsetWaitingReplicasMessageFormat ready desiredScheduled)
         else currentResult (daemonsetCurrentMessageFormat desiredScheduled))"

definition daemonSetStatusCheck :: "'c status_lib \<Rightarrow> 'c unstructured \<Rightarrow> check" where
  "daemonSetStatusCheck lib object =
     (case nestedInt64 lib object [''status'', ''observedGeneration''] of
        Inl err \<Rightarrow> fails err
      | Inr None \<Rightarrow> returns (inProgressResult daemonsetInProgressMessage)
      | Inr (Some _) \<Rightarrow>
          (case toDaemonSet lib object of
             Inl err \<Rightarrow> fails err | Inr ds \<Rightarrow> returns (daemonSetResult ds)))"

subsection \<open>Stateful sets\<close>

definition statefulSetResult :: "StatefulSet \<Rightarrow> Result" where
  "statefulSetResult sts =
     (if stsStrategy sts = ''OnDelete'' then currentResult statefulSetOnDeleteStrategyMessage
      else
        let replicas = (case stsSpecReplicas sts of Some r \<Rightarrow> r | None \<Rightarrow> 1);
            readyReplicas = stsReady sts;
            currentReplicas = stsCurrent sts;
            statusReplicas = stsReplicas sts
        in if gt32 replicas statusReplicas
             then inProgressResult (statefulSetFewReplicasMessageFormat statusReplicas replicas)
           else if gt32 replicas readyReplicas
             then inProgressResult (statefulSetWaitingReplicasMessageFormat readyReplicas replicas)
           else if gt32 statusReplicas replicas
             then inProgressResult (statefulSetDeletingReplicasMessageFormat (statusReplicas - replicas))
           else if gt32 replicas currentReplicas
             then inProgressResult (statefulSetUpdatingReplicasMessageFormat currentReplicas replicas)
           else case stsRollingUpdate sts of
             Some (Some part) \<Rightarrow>
               (if gt32 (replicas - part) (stsUpdated sts)
                then inProgressResult (statefulSetPartitionRolloutMessageFormat (stsUpdated sts) (replicas - part))
                else currentResult (statefulSetPartitionCompleteMessageFormat (stsUpdated sts)))
           | _ \<Rightarrow>
               (if stsCurrentRevision sts \<noteq> stsUpdateRevision sts
                then inProgressResult statefulSetRevisionMismatchMessage
                else currentResult (''StatefulSet is available with '' @ fmt_d32 statusReplicas @ '' replicas'')))"

definition statefulSetStatusCheck :: "'c status_lib \<Rightarrow> 'c unstructured \<Rightarrow> check" where
  "statefulSetStatusCheck lib object =
     (case toStatefulSet lib object of
        Inl err \<Rightarrow> fails err | Inr sts \<Rightarrow> returns (statefulSetResult sts))"

subsection \<open>The whole check\<close>

definition svcGK :: GroupKind where "svcGK = GroupKind '''' ''Service''"
definition pvcGK :: GroupKind where "pvcGK = GroupKind '''' ''PersistentVolumeClaim''"
definition podGK :: GroupKind where "podGK = GroupKind '''' ''Pod''"
definition jobGK :: GroupKind where "jobGK = GroupKind ''batch'' ''Job''"
definition deployGK :: GroupKind where "deployGK = GroupKind ''apps'' ''Deployment''"
definition dsGK :: GroupKind where "dsGK = GroupKind ''apps'' ''DaemonSet''"
definition stsGK :: GroupKind where "stsGK = GroupKind ''apps'' ''StatefulSet''"

definition checkCoreResources :: "'c status_lib \<Rightarrow> 'c unstructured \<Rightarrow> check" where
  "checkCoreResources lib object =
     (let gk = objGK object in
      if gk = crdGK then crdStatusCheck lib object
      else if gk = svcGK then serviceStatusCheck lib object
      else if gk = pvcGK then pvcStatusCheck lib object
      else if gk = jobGK then jobStatusCheck lib object
      else if gk = podGK then podStatusCheck lib object
      else if gk = deployGK then deployStatusCheck lib object
      else if gk = dsGK then daemonSetStatusCheck lib object
      else if gk = stsGK then statefulSetStatusCheck lib object
      else nothing)"

type_synonym 'c CustomStatusCheckers = "(GroupKind, 'c unstructured \<Rightarrow> check) gomap"

definition statusCheck ::
  "'c status_lib \<Rightarrow> 'c CustomStatusCheckers \<Rightarrow> 'c unstructured \<Rightarrow> check exec" where
  "statusCheck lib customCheckers object =
     (if \<not> IsZero (objDeletionTimestamp object)
        then Done (returns (terminatingResult deletionMessage))
      else if checkGenerations lib object \<noteq> nothing then Done (checkGenerations lib object)
      else if checkCoreResources lib object \<noteq> nothing then Done (checkCoreResources lib object)
      else case map_of customCheckers (objGK object) of
        Some fn \<Rightarrow> Done (fn object)
      | None \<Rightarrow>
          bind_exec (checkStatusConditions lib object)
            (\<lambda>r. if r \<noteq> nothing then Done r
                 else Done (returns (currentResult currentMessage))))"

subsection \<open>What a check returns\<close>

text \<open>Exactly one of the result and the error is set.\<close>

definition decided :: "check \<Rightarrow> bool" where
  "decided c \<longleftrightarrow> (\<exists>r. c = returns r) \<or> (\<exists>err. c = fails err)"

lemma decided_simps [simp, status_simps]:
  "decided (returns r)" "decided (fails err)" "\<not> decided nothing"
  by (auto simp: decided_def)

lemma decided_not_nothing: "decided c \<Longrightarrow> c \<noteq> nothing"
  by auto

lemma checkGenerations_decided: "checkGenerations lib obj = nothing \<or> decided (checkGenerations lib obj)"
  by (simp add: checkGenerations_def Let_def split: sum.split option.split)

lemma conditionResult_decided: "conditionResult c = nothing \<or> decided (conditionResult c)"
  by (simp add: conditionResult_def)

lemma conditionsLoop_decided:
  "conditionsLoop lib cs = Done r \<Longrightarrow> r = nothing \<or> decided r"
proof (induction cs)
  case (Cons c cs)
  then show ?case
    using conditionResult_decided
    by (fastforce split: option.splits sum.splits if_splits)
qed simp

lemma checkStatusConditions_decided:
  "checkStatusConditions lib obj = Done r \<Longrightarrow> r = nothing \<or> decided r"
  by (auto simp: checkStatusConditions_def dest: conditionsLoop_decided split: sum.splits option.splits
      simp del: split_paired_All split_paired_Ex)

lemma crdConditions_decided [simp]: "decided (crdConditions cs)"
  by (induction cs) simp_all

lemma core_checks_decided [simp]:
  "decided (crdStatusCheck lib obj)" "decided (serviceStatusCheck lib obj)"
  "decided (pvcStatusCheck lib obj)" "decided (jobStatusCheck lib obj)"
  "decided (podStatusCheck lib obj)" "decided (deployStatusCheck lib obj)"
  "decided (daemonSetStatusCheck lib obj)" "decided (statefulSetStatusCheck lib obj)"
  by (simp_all add: crdStatusCheck_def serviceStatusCheck_def pvcStatusCheck_def jobStatusCheck_def
      podStatusCheck_def deployStatusCheck_def daemonSetStatusCheck_def statefulSetStatusCheck_def
      Let_def split: sum.split option.split)

definition coreKinds :: "GroupKind list" where
  "coreKinds = [crdGK, svcGK, pvcGK, jobGK, podGK, deployGK, dsGK, stsGK]"

lemma checkCoreResources_decided:
  "decided (checkCoreResources lib obj) \<longleftrightarrow> objGK obj \<in> set coreKinds"
  "checkCoreResources lib obj = nothing \<longleftrightarrow> objGK obj \<notin> set coreKinds"
  by (simp_all add: checkCoreResources_def coreKinds_def Let_def decided_not_nothing)

text \<open>
  For the kinds of Kubernetes itself the check always decides: it ends without a panic
  with exactly one of a result and an error, and neither the checkers of the user nor the
  conditions of the status are consulted, so every set of custom checkers gives the same answer.
\<close>

lemma core_kinds_decided:
  assumes "objGK obj \<in> set coreKinds"
  shows "statusCheck lib checkers obj = statusCheck lib [] obj \<and>
    (\<exists>c. statusCheck lib checkers obj = Done c \<and> decided c)"
proof -
  have core: "decided (checkCoreResources lib obj)"
    using assms by (simp add: checkCoreResources_decided(1))
  moreover have "checkGenerations lib obj = nothing \<or> decided (checkGenerations lib obj)"
    by (rule checkGenerations_decided)
  ultimately show ?thesis
    by (cases "IsZero (objDeletionTimestamp obj)"; cases "checkGenerations lib obj = nothing")
       (simp_all add: statusCheck_def decided_not_nothing)
qed

definition example_lib :: "unit status_lib" where
  "example_lib = \<lparr> nestedInt64 = (\<lambda>obj path. Inr None), nestedConditions = (\<lambda>obj path. Inr None),
     toCondition = (\<lambda>m. Inl (ErrorNew ''not a condition'')),
     toCRDConditions = (\<lambda>obj. Inr []),
     toService = (\<lambda>obj. Inr \<lparr> svcType = ''ClusterIP'', svcIngress = [] \<rparr>),
     toPVCPhase = (\<lambda>obj. Inr ''Bound''),
     toJob = (\<lambda>obj. Inl (ErrorNew ''not a job'')),
     toPod = (\<lambda>obj. Inl (ErrorNew ''not a pod'')),
     toDeployment = (\<lambda>obj. Inl (ErrorNew ''not a deployment'')),
     toDaemonSet = (\<lambda>obj. Inl (ErrorNew ''not a daemon set'')),
     toStatefulSet = (\<lambda>obj. Inl (ErrorNew ''not a stateful set'')),
     time_Now = 0 \<rparr>"

definition example_service :: "unit unstructured" where
  "example_service = example_object (GroupVersionKind '''' ''v1'' ''Service'') ''web'' ''prod''"

definition example_widget :: "unit unstructured" where
  "example_widget = example_object (GroupVersionKind ''example.com'' ''v1'' ''Widget'') ''w'' ''prod''"

text \<open>A condition the loop passes over: it converts to none of the conditions it knows.\<close>

definition indecisive :: "'c status_lib \<Rightarrow> json \<Rightarrow> bool" where
  "indecisive lib d \<longleftrightarrow>
     (case asMap d of
        None \<Rightarrow> False
      | Some entry \<Rightarrow>
          (case toCondition lib entry of Inl err \<Rightarrow> True | Inr c \<Rightarrow> conditionResult c = nothing))"

lemma conditionsLoop_pass:
  "(\<forall>d \<in> set pre. indecisive lib d) \<Longrightarrow> conditionsLoop lib (pre @ ds) = conditionsLoop lib ds"
  by (induction pre) (auto simp: indecisive_def split: option.splits sum.splits)

lemma conditionsLoop_stop:
  "(\<exists>d \<in> set ds. \<not> indecisive lib d) \<Longrightarrow>
   \<exists>pre d post. ds = pre @ d # post \<and> \<not> indecisive lib d \<and> (\<forall>x \<in> set pre. indecisive lib x)"
  using split_list_first_prop [of ds "\<lambda>d. \<not> indecisive lib d"] by auto

lemma conditionsLoop_Panic:
  "conditionsLoop lib ds = Panic \<longleftrightarrow>
     (\<exists>pre d post. ds = pre @ d # post \<and> asMap d = None \<and> (\<forall>x \<in> set pre. indecisive lib x))"
  (is "?lhs \<longleftrightarrow> ?rhs")
proof
  assume ?lhs
  show ?rhs
  proof (cases "\<exists>d \<in> set ds. \<not> indecisive lib d")
    case True
    then obtain pre d post where split: "ds = pre @ d # post" "\<not> indecisive lib d"
      "\<forall>x \<in> set pre. indecisive lib x"
      using conditionsLoop_stop by blast
    then have "conditionsLoop lib (d # post) = Panic"
      using \<open>?lhs\<close> conditionsLoop_pass [of pre lib "d # post"] by simp
    then have "asMap d = None"
      using split(2) by (auto simp: indecisive_def split: option.splits sum.splits if_splits)
    with split show ?thesis by blast
  next
    case False
    then have "conditionsLoop lib (ds @ []) = conditionsLoop lib []"
      by (intro conditionsLoop_pass) auto
    then show ?thesis using \<open>?lhs\<close> by simp
  qed
next
  assume ?rhs
  then obtain pre d post where "ds = pre @ d # post" "asMap d = None" "\<forall>x \<in> set pre. indecisive lib x"
    by blast
  then show ?lhs by (simp add: conditionsLoop_pass)
qed

text \<open>The object reaches the conditions of its status.\<close>

definition reads_conditions :: "'c status_lib \<Rightarrow> 'c CustomStatusCheckers \<Rightarrow> 'c unstructured \<Rightarrow> bool" where
  "reads_conditions lib checkers obj \<longleftrightarrow>
     IsZero (objDeletionTimestamp obj) \<and> checkGenerations lib obj = nothing \<and>
     objGK obj \<notin> set coreKinds \<and> map_of checkers (objGK obj) = None"

lemma statusCheck_reads_conditions:
  assumes "reads_conditions lib checkers obj"
  shows "statusCheck lib checkers obj =
    bind_exec (checkStatusConditions lib obj)
      (\<lambda>r. if r \<noteq> nothing then Done r else Done (returns (currentResult currentMessage)))"
  using assms unfolding reads_conditions_def checkCoreResources_decided(2) [of lib obj, symmetric]
  by (simp add: statusCheck_def)

lemma statusCheck_not_conditions:
  assumes "\<not> reads_conditions lib checkers obj"
    and custom: "\<forall>fn \<in> snd ` set checkers. decided (fn obj)"
  shows "\<exists>c. statusCheck lib checkers obj = Done c \<and> decided c"
proof -
  have gen: "checkGenerations lib obj = nothing \<or> decided (checkGenerations lib obj)"
    by (rule checkGenerations_decided)
  consider "\<not> IsZero (objDeletionTimestamp obj)" | "checkGenerations lib obj \<noteq> nothing" |
      "objGK obj \<in> set coreKinds" |
      fn where "objGK obj \<notin> set coreKinds" "map_of checkers (objGK obj) = Some fn"
    using assms(1) unfolding reads_conditions_def by fastforce
  then show ?thesis
  proof cases
    case 3
    then show ?thesis
      using gen unfolding checkCoreResources_decided(1) [of lib obj, symmetric]
      by (cases "IsZero (objDeletionTimestamp obj)"; cases "checkGenerations lib obj = nothing")
         (simp_all add: statusCheck_def decided_not_nothing)
  next
    case 4
    then have "decided (fn obj)" using custom map_of_SomeD by (metis imageI snd_conv)
    with 4 gen show ?thesis
      unfolding checkCoreResources_decided(2) [of lib obj, symmetric]
      by (cases "IsZero (objDeletionTimestamp obj)"; cases "checkGenerations lib obj = nothing")
         (simp_all add: statusCheck_def)
  qed (use gen in \<open>simp_all add: statusCheck_def del: split_paired_Ex\<close>)
qed

text \<open>
  C30: As long as the custom checkers decide, every check that ends decides, with exactly one of
  a result and an error; and the one way not to end is the unchecked type assertion in the loop
  over the conditions: it panics exactly for an object that is not being deleted, has no stale
  generation, no checker of its own and no kind of Kubernetes, whose list of conditions
  has an entry that is not a map behind entries none of which decides.
\<close>

theorem statusCheck_decides_or_panics:
  assumes "\<forall>fn \<in> snd ` set checkers. decided (fn obj)"
  shows "(\<forall>c. statusCheck lib checkers obj = Done c \<longrightarrow> decided c) \<and>
    (statusCheck lib checkers obj = Panic \<longleftrightarrow> reads_conditions lib checkers obj \<and>
      (\<exists>pre d post. nestedConditions lib obj [''status'', ''conditions''] = Inr (Some (pre @ d # post)) \<and>
        asMap d = None \<and> (\<forall>x \<in> set pre. indecisive lib x)))"
proof (cases "reads_conditions lib checkers obj")
  case False
  then obtain c where "statusCheck lib checkers obj = Done c \<and> decided c"
    using statusCheck_not_conditions [OF False assms] by blast
  with False show ?thesis by simp
next
  case True
  have "checkStatusConditions lib obj = Panic \<longleftrightarrow>
    (\<exists>ds. nestedConditions lib obj [''status'', ''conditions''] = Inr (Some ds) \<and> conditionsLoop lib ds = Panic)"
    by (auto simp: checkStatusConditions_def split: sum.split option.split)
  moreover have "statusCheck lib checkers obj = Panic \<longleftrightarrow> checkStatusConditions lib obj = Panic"
    by (cases "checkStatusConditions lib obj") (simp_all add: statusCheck_reads_conditions [OF True])
  moreover have "decided c" if "statusCheck lib checkers obj = Done c" for c
    using that checkStatusConditions_decided [of lib obj]
    by (cases "checkStatusConditions lib obj")
       (auto simp: statusCheck_reads_conditions [OF True] split: if_splits)
  ultimately show ?thesis using True by (simp add: conditionsLoop_Panic) blast
qed

definition broken_lib :: "unit status_lib" where
  "broken_lib = example_lib \<lparr> nestedConditions := (\<lambda>obj path. Inr (Some [JString ''Ready''])) \<rparr>"

theorem statusCheck_decides_or_panics_witness:
  "statusCheck broken_lib [] example_widget = Panic"
proof -
  have "reads_conditions broken_lib [] example_widget"
    by (simp add: reads_conditions_def broken_lib_def example_lib_def example_widget_def example_object_def
        checkGenerations_def coreKinds_def objGK_def groupKind_def crdGK_def svcGK_def pvcGK_def jobGK_def
        podGK_def deployGK_def dsGK_def stsGK_def)
  moreover have "nestedConditions broken_lib example_widget [''status'', ''conditions''] =
      Inr (Some ([] @ JString ''Ready'' # []))"
    by (simp add: broken_lib_def)
  moreover have "asMap (JString ''Ready'') = None" by simp
  ultimately show ?thesis
    using statusCheck_decides_or_panics [of "[]" example_widget broken_lib]
    by (metis empty_iff empty_set image_empty)
qed

subsection \<open>When a resource is reported as current\<close>

lemma gt32_iff [status_simps]: "gt32 a b \<longleftrightarrow> sint b < sint a"
  by (simp add: gt32_def)

lemma sint_minus_no_wrap:
  fixes a b :: int32
  assumes "0 \<le> sint a" "0 \<le> sint b"
  shows "sint (a - b) = sint a - sint b"
proof -
  have "sint a < 2 ^ 31" "sint b < 2 ^ 31"
    using sint_lt [of a] sint_lt [of b] by simp_all
  with assms show ?thesis
    unfolding sint_word_ariths by (simp add: signed_take_bit_int_eq_self)
qed

lemma deployConditionsLoop_eq:
  "deployConditionsLoop p a cs =
    (if \<exists>c \<in> set cs. cType c = ''Progressing'' \<and> cReason c = ''ProgressDeadlineExceeded'' then None
     else Some (p \<or> (\<exists>c \<in> set cs. cType c = ''Progressing'' \<and> cReason c = ''NewReplicaSetAvailable'' \<and>
                       cStatus c = ''True''),
                a \<or> (\<exists>c \<in> set cs. has_condition ''Available'' ''True'' c)))"
  by (induction cs arbitrary: p a) (auto simp: has_condition_def)

text \<open>The counts of a deployment in its \<open>int32\<close> values, read as integers.\<close>

definition deploy_settled :: "Deployment \<Rightarrow> bool" where
  "deploy_settled d \<longleftrightarrow>
     (let n = sint (case dSpecReplicas d of Some r \<Rightarrow> r | None \<Rightarrow> 1) in
      sint (dReplicas d) = n \<and> n \<le> sint (dUpdated d) \<and> sint (dUpdated d) \<le> sint (dAvailable d) \<and>
      n \<le> sint (dReady d))"

lemma replicasStatusResult_None: "replicasStatusResult d = None \<longleftrightarrow> deploy_settled d"
  by (auto simp: replicasStatusResult_def deploy_settled_def Let_def gt32_iff)

lemma replicasStatusResult_InProgress:
  "replicasStatusResult d = Some r \<Longrightarrow> Status r = StatusInProgress"
  by (auto simp: replicasStatusResult_def Let_def split: if_splits)

text \<open>
  C31: A deployment is failed exactly when some condition reports that its deadline passed,
  and current exactly when none does, the counts of replicas agree with the wanted number
  (no missing, outdated, surplus, unavailable or unready replica, in signed arithmetic), a
  condition says that the new replica set is available (or no deadline is configured, so that no
  such condition is ever set) and a condition says that the deployment is available; in every
  other case it is in progress.
\<close>

theorem deployment_status:
  "Status (deployResult d) =
    (if \<exists>c \<in> set (dConditions d). cType c = ''Progressing'' \<and> cReason c = ''ProgressDeadlineExceeded''
     then StatusFailed
     else if deploy_settled d \<and>
       (dProgressDeadline d = None \<or> (\<exists>c \<in> set (dConditions d). cType c = ''Progressing'' \<and>
          cReason c = ''NewReplicaSetAvailable'' \<and> cStatus c = ''True'')) \<and>
       (\<exists>c \<in> set (dConditions d). has_condition ''Available'' ''True'' c)
     then StatusCurrent else StatusInProgress)"
proof (cases "replicasStatusResult d")
  case None
  then have "deploy_settled d" by (simp add: replicasStatusResult_None)
  with None show ?thesis by (simp add: deployResult_def deployConditionsLoop_eq)
next
  case (Some r)
  then have "\<not> deploy_settled d" by (simp flip: replicasStatusResult_None)
  with Some replicasStatusResult_InProgress [OF Some] show ?thesis
    by (simp add: deployResult_def deployConditionsLoop_eq)
qed

text \<open>
  A stateful set that does not wait for its pods to be deleted is current exactly when all
  the wanted replicas exist, are ready and run at the current revision, and either as many
  replicas are updated as the partition asks for, counted from the last ordinal, or, with no
  partition, the current and the update revision agree. The subtraction of the partition does
  not wrap around: both numbers are positive.
\<close>

lemma statefulset_current:
  assumes "stsStrategy s \<noteq> ''OnDelete''"
    and "n = sint (case stsSpecReplicas s of Some r \<Rightarrow> r | None \<Rightarrow> 1)" and "0 \<le> n"
    and "\<forall>p. stsRollingUpdate s = Some (Some p) \<longrightarrow> 0 \<le> sint p"
  shows "Status (statefulSetResult s) = StatusCurrent \<longleftrightarrow>
    sint (stsReplicas s) = n \<and> n \<le> sint (stsReady s) \<and> n \<le> sint (stsCurrent s) \<and>
    (case stsRollingUpdate s of
       Some (Some p) \<Rightarrow> n - sint p \<le> sint (stsUpdated s)
     | _ \<Rightarrow> stsCurrentRevision s = stsUpdateRevision s)"
proof -
  let ?r = "case stsSpecReplicas s of Some r \<Rightarrow> r | None \<Rightarrow> 1"
  have no_wrap: "sint (?r - p) = sint ?r - sint p" if "stsRollingUpdate s = Some (Some p)" for p
  proof (rule sint_minus_no_wrap)
    show "0 \<le> sint ?r" using assms(2,3) by simp
    show "0 \<le> sint p" using assms(4) that by simp
  qed
  show ?thesis
    using assms(1,2) no_wrap
    by (cases "stsRollingUpdate s"; cases "the (stsRollingUpdate s)")
       (auto simp: statefulSetResult_def Let_def gt32_iff)
qed

definition example_sts :: StatefulSet where
  "example_sts = \<lparr> stsStrategy = ''RollingUpdate'', stsRollingUpdate = Some (Some 2),
     stsSpecReplicas = Some 3, stsReady = 3, stsCurrent = 3, stsReplicas = 3, stsUpdated = 1,
     stsCurrentRevision = ''a'', stsUpdateRevision = ''b'' \<rparr>"

lemma statefulset_current_witness:
  "Status (statefulSetResult example_sts) = StatusCurrent"
proof -
  have "stsStrategy example_sts \<noteq> ''OnDelete''"
    "(3::int) = sint (case stsSpecReplicas example_sts of Some r \<Rightarrow> r | None \<Rightarrow> 1)"
    "\<forall>p. stsRollingUpdate example_sts = Some (Some p) \<longrightarrow> 0 \<le> sint p"
    by (simp_all add: example_sts_def)
  then show ?thesis
    using statefulset_current [of example_sts 3] by (simp add: example_sts_def)
qed

text \<open>The decisive conditions of a definition of a custom resource, and of a job.\<close>

definition crd_decisive :: "Condition \<Rightarrow> bool" where
  "crd_decisive c \<longleftrightarrow> has_condition ''NamesAccepted'' ''False'' c \<or> has_condition ''Established'' ''True'' c"

lemma has_condition_type:
  "has_condition t s c \<Longrightarrow> has_condition t' s' c \<Longrightarrow> t = t' \<and> s = s'"
  by (auto simp: has_condition_def)

text \<open>
  C33: The status of a custom resource definition is that of its first decisive condition:
  rejected names make it failed whatever the reason, so the exception that the third case of the
  switch makes for names still being installed never applies, an established one makes it
  current, and with neither it is in progress.
\<close>

theorem crd_first_decisive:
  "crdConditions cs =
    (case find crd_decisive cs of
       None \<Rightarrow> returns (inProgressResult ''CRD installation in progress'')
     | Some c \<Rightarrow> returns (if cStatus c = ''False'' then failedResult (cMessage c)
                         else currentResult ''CRD is established''))"
proof (induction cs)
  case (Cons c cs)
  then show ?case
    by (cases "has_condition ''NamesAccepted'' ''False'' c"; cases "has_condition ''Established'' ''True'' c")
       (auto simp: crd_decisive_def has_condition_def)
qed simp

lemma jobConditionsLoop_eq:
  "jobConditionsLoop s n cs =
    map_option (\<lambda>c. if cType c = ''Failed'' then failedResult (cMessage c)
       else if cType c = ''Complete''
         then currentResult (''Job Completed. succeeded: '' @ fmt_d32 s @ ''/'' @ fmt_d32 n)
       else currentResult ''Job is suspended'')
     (find (\<lambda>c. cType c \<in> {''Failed'', ''Complete'', ''Suspended''} \<and> cStatus c = ''True'') cs)"
  by (induction cs) (auto simp: has_condition_def)

text \<open>
  The status of a job is that of its first condition that holds and is one of failed,
  complete and suspended; without one the job is in progress, and the completions its message
  counts are at least one even where the manifest leaves them out.
\<close>

theorem job_first_decisive:
  "Status (jobResult j) =
    (case find (\<lambda>c. cType c \<in> {''Failed'', ''Complete'', ''Suspended''} \<and> cStatus c = ''True'') (jobConditions j) of
       None \<Rightarrow> StatusInProgress
     | Some c \<Rightarrow> if cType c = ''Failed'' then StatusFailed else StatusCurrent) \<and>
   1 \<le> sint (max32 (deref32 (jobCompletions j)) (max32 (deref32 (jobParallelism j)) 1))"
  by (auto simp: jobResult_def Let_def jobConditionsLoop_eq max32_def gt32_iff split: option.split)

text \<open>
  C32: A pod is current exactly when it succeeded, or runs and is ready; it is failed exactly
  when it failed, or is pending and was refused by the scheduler (except for at most thirty
  seconds after its creation where no node fits it), or runs, is not ready and has a container
  or an init container in a crash loop.
\<close>

theorem pod_status:
  "(Status (podResult now p) = StatusCurrent \<longleftrightarrow>
      podPhase p = ''Succeeded'' \<or>
      (podPhase p = ''Running'' \<and> (\<exists>c \<in> set (podConditions p). has_condition ''Ready'' ''True'' c))) \<and>
   (Status (podResult now p) = StatusFailed \<longleftrightarrow>
      podPhase p = ''Failed'' \<or>
      (podPhase p = ''Pending'' \<and> (\<exists>c. find (has_condition ''PodScheduled'' ''False'') (podConditions p) = Some c \<and>
         (cReason c = ''Unschedulable'' \<longrightarrow>
            (case podCreation p of ZeroTime \<Rightarrow> True | At t \<Rightarrow> t \<le> now - 30000000000)))) \<or>
      (podPhase p = ''Running'' \<and> (\<forall>c \<in> set (podConditions p). \<not> has_condition ''Ready'' ''True'' c) \<and>
         (\<exists>cs \<in> set (podContainers p) \<union> set (podInitContainers p). csWaiting cs = Some ''CrashLoopBackOff'')))"
proof -
  have running: "find P xs = None \<longleftrightarrow> (\<forall>c \<in> set xs. \<not> P c)" for P and xs :: "Condition list"
    by (auto simp: find_None_iff)
  have crash: "crashingContainers p \<noteq> [] \<longleftrightarrow>
    (\<exists>cs \<in> set (podContainers p) \<union> set (podInitContainers p). csWaiting cs = Some ''CrashLoopBackOff'')"
    by (auto simp: crashingContainers_def crashLooping_def filter_empty_conv)
  consider "podPhase p = ''Succeeded''" | "podPhase p = ''Failed''" | "podPhase p = ''Pending''"
    | "podPhase p = ''Running''" | "podPhase p \<notin> {''Succeeded'', ''Failed'', ''Pending'', ''Running''}"
    by blast
  then show ?thesis
  proof cases
    case 3
    then show ?thesis
      by (auto simp: podResult_def podPendingResult_def unscheduledWindow_def
          split: option.split Time.split)
  next
    case 4
    have find: "find (has_condition ''Ready'' ''True'') (podConditions p) = None \<longleftrightarrow>
      (\<forall>c \<in> set (podConditions p). \<not> has_condition ''Ready'' ''True'' c)"
      by (rule running)
    show ?thesis
    proof (cases "find (has_condition ''Ready'' ''True'') (podConditions p)")
      case None
      with 4 find crash show ?thesis
        by (simp add: podResult_def podRunningResult_def Let_def del: Un_iff)
    next
      case (Some c)
      with find have "\<exists>c \<in> set (podConditions p). has_condition ''Ready'' ''True'' c" by simp
      with Some 4 show ?thesis by (simp add: podResult_def podRunningResult_def)
    qed
  qed (simp_all add: podResult_def)
qed

theorem pod_status_witness: "Status (podResult 0 \<lparr> podPhase = ''Pending'',
    podConditions = [\<lparr> cType = ''PodScheduled'', cStatus = ''False'', cReason = ''Unschedulable'', cMessage = [] \<rparr>],
    podCreation = At 5, podContainers = [], podInitContainers = [] \<rparr>) \<noteq> StatusFailed"
  by (subst conjunct2 [OF pod_status]) (simp add: has_condition_def)

end
