(* ===== verification/Events.thy ===== *)
theory Events
  imports Resource_Kinds
begin

text \<open>
  \<open>pkg/event\<close>: the events that tasks, pollers and the applier send, and their texts. The
  integers \<open>Type\<close> and \<open>Status\<close> are datatypes with one constructor per named constant and one for
  every other integer; a pointer to an object is an address or nil. The printing of kinds and
  aggregated errors belongs to the library and is the record \<open>printers\<close>. A call on a nil
  pointer or a nil error panics.
\<close>

subsection \<open>Types and statuses\<close>

datatype Type =
    TypeError | TypeQueue | TypeApply | TypePrune | TypeInventory | TypeStatusUpdate | TypeOther int

datatype EventStatus =
    EventPending | EventSuccessful | EventFailed | EventSkipped | EventOther int

fun int_of_Type :: "Type \<Rightarrow> int" where
  "int_of_Type TypeError = 0"
| "int_of_Type TypeQueue = 1"
| "int_of_Type TypeApply = 2"
| "int_of_Type TypePrune = 3"
| "int_of_Type TypeInventory = 4"
| "int_of_Type TypeStatusUpdate = 5"
| "int_of_Type (TypeOther i) = i"

fun int_of_EventStatus :: "EventStatus \<Rightarrow> int" where
  "int_of_EventStatus EventPending = 0"
| "int_of_EventStatus EventSuccessful = 1"
| "int_of_EventStatus EventFailed = 2"
| "int_of_EventStatus EventSkipped = 3"
| "int_of_EventStatus (EventOther i) = i"

text \<open>The slice \<open>name[index[i]:index[i+1]]\<close> of the generated code, and the text out of range.\<close>

definition stringer :: "string \<Rightarrow> string \<Rightarrow> nat list \<Rightarrow> int \<Rightarrow> string" where
  "stringer typeName name index i =
     (if i < 0 \<or> i \<ge> int (length index) - 1 then typeName @ ''('' @ fmt_d i @ '')''
      else take (index ! (nat i + 1) - index ! nat i) (drop (index ! nat i) name))"

definition Type_String :: "Type \<Rightarrow> string" where
  "Type_String t = stringer ''Type'' ''ErrorQueueApplyPruneInventoryStatusUpdate''
     [0, 5, 10, 15, 20, 29, 41] (int_of_Type t)"

definition EventStatus_String :: "EventStatus \<Rightarrow> string" where
  "EventStatus_String s = stringer ''Status'' ''PendingSuccessfulFailedSkipped'' [0, 7, 17, 23, 30]
     (int_of_EventStatus s)"

subsection \<open>Events\<close>

record ErrorInfo = errError :: "go_error option"

record QueueInfo = qObjects :: "ref option list"

record ApplyInfo =
  aObject :: "ref option"
  aStatus :: EventStatus
  aError :: "go_error option"

record PruneInfo =
  pObject :: "ref option"
  pStatus :: EventStatus
  pError :: "go_error option"

record InventoryInfo =
  iStatus :: EventStatus
  iError :: "go_error option"

record StatusUpdateInfo =
  uStatus :: EventStatus
  uMessage :: string
  uMetadata :: ObjectMetadata

record Event =
  evType :: Type
  evError :: ErrorInfo
  evQueue :: QueueInfo
  evApply :: ApplyInfo
  evPrune :: PruneInfo
  evInventory :: InventoryInfo
  evStatusUpdate :: StatusUpdateInfo

text \<open>The zero value, which a composite literal starts from.\<close>

definition zeroEvent :: Event where
  "zeroEvent = \<lparr> evType = TypeError, evError = \<lparr> errError = None \<rparr>,
     evQueue = \<lparr> qObjects = [] \<rparr>,
     evApply = \<lparr> aObject = None, aStatus = EventPending, aError = None \<rparr>,
     evPrune = \<lparr> pObject = None, pStatus = EventPending, pError = None \<rparr>,
     evInventory = \<lparr> iStatus = EventPending, iError = None \<rparr>,
     evStatusUpdate = \<lparr> uStatus = EventPending, uMessage = [], uMetadata = emptyMetadata \<rparr> \<rparr>"

definition IsErrorEvent :: "Event \<Rightarrow> bool" where
  "IsErrorEvent e =
     (case evType e of
        TypeError \<Rightarrow> True
      | TypeApply \<Rightarrow> aError (evApply e) \<noteq> None
      | TypePrune \<Rightarrow> pError (evPrune e) \<noteq> None
      | TypeInventory \<Rightarrow> iError (evInventory e) \<noteq> None
      | TypeStatusUpdate \<Rightarrow> uStatus (evStatusUpdate e) = EventFailed
      | _ \<Rightarrow> False)"

subsection \<open>Texts\<close>

record printers =
  gkString :: "GroupKind \<Rightarrow> string"
  gvkString :: "GroupVersionKind \<Rightarrow> string"
  aggregateText :: "string list \<Rightarrow> string"

definition errorString :: "printers \<Rightarrow> go_error option \<Rightarrow> string exec" where
  "errorString pr e =
     (case e of None \<Rightarrow> Panic | Some err \<Rightarrow> Done (Error (gvkString pr) (aggregateText pr) err))"

definition identifierFromObject :: "printers \<Rightarrow> 'c unstructured heap \<Rightarrow> ref option \<Rightarrow> string exec" where
  "identifierFromObject pr h obj =
     (case obj of None \<Rightarrow> Panic
      | Some r \<Rightarrow> Done (gkString pr (objGK (h r)) @ '' '' @ objName (h r)))"

fun identifiers :: "printers \<Rightarrow> 'c unstructured heap \<Rightarrow> ref option list \<Rightarrow> string list exec" where
  "identifiers pr h [] = Done []"
| "identifiers pr h (obj # objs) =
     bind_exec (identifierFromObject pr h obj) (\<lambda>s.
       bind_exec (identifiers pr h objs) (\<lambda>ss. Done (s # ss)))"

definition ErrorInfo_String :: "printers \<Rightarrow> ErrorInfo \<Rightarrow> string exec" where
  "ErrorInfo_String pr i = errorString pr (errError i)"

definition QueueInfo_String :: "printers \<Rightarrow> 'c unstructured heap \<Rightarrow> QueueInfo \<Rightarrow> string exec" where
  "QueueInfo_String pr h i =
     bind_exec (identifiers pr h (qObjects i)) (\<lambda>ids.
       Done (''queue started for: ['' @ strings_Join ids '' '' @ '']''))"

definition ApplyInfo_String :: "printers \<Rightarrow> 'c unstructured heap \<Rightarrow> ApplyInfo \<Rightarrow> string exec" where
  "ApplyInfo_String pr h i =
     bind_exec (identifierFromObject pr h (aObject i)) (\<lambda>objID.
       case aStatus i of
         EventPending \<Rightarrow> Done (objID @ '': apply started...'')
       | EventSuccessful \<Rightarrow> Done (objID @ '': applied successfully'')
       | EventSkipped \<Rightarrow> Done (objID @ '': apply skipped'')
       | EventFailed \<Rightarrow>
           bind_exec (errorString pr (aError i)) (\<lambda>t. Done (objID @ '': failed to apply: '' @ t))
       | _ \<Rightarrow> Done (objID @ '': apply status unknown''))"

definition PruneInfo_String :: "printers \<Rightarrow> 'c unstructured heap \<Rightarrow> PruneInfo \<Rightarrow> string exec" where
  "PruneInfo_String pr h i =
     bind_exec (identifierFromObject pr h (pObject i)) (\<lambda>objID.
       case pStatus i of
         EventPending \<Rightarrow> Done (objID @ '': prune started...'')
       | EventSuccessful \<Rightarrow> Done (objID @ '': pruned successfully'')
       | EventFailed \<Rightarrow>
           bind_exec (errorString pr (pError i)) (\<lambda>t. Done (objID @ '': failed to prune: '' @ t))
       | _ \<Rightarrow> Done (objID @ '': prune status unknown''))"

definition InventoryInfo_String :: "printers \<Rightarrow> InventoryInfo \<Rightarrow> string exec" where
  "InventoryInfo_String pr i =
     (case iStatus i of
        EventPending \<Rightarrow> Done ''inventory: apply started...''
      | EventSuccessful \<Rightarrow> Done ''inventory: applied successfully''
      | EventFailed \<Rightarrow>
          Done (''inventory: failed to apply: '' @
            (case iError i of None \<Rightarrow> ''%!s(<nil>)''
             | Some err \<Rightarrow> Error (gvkString pr) (aggregateText pr) err))
      | _ \<Rightarrow> Done ''inventory: apply status unknown'')"

definition StatusUpdateInfo_String :: "printers \<Rightarrow> StatusUpdateInfo \<Rightarrow> string" where
  "StatusUpdateInfo_String pr i =
     gkString pr (GroupKind (Group (uMetadata i)) (Kind (uMetadata i))) @ '' '' @
     Name (uMetadata i) @ '': '' @ uMessage i"

definition Event_String :: "printers \<Rightarrow> 'c unstructured heap \<Rightarrow> Event \<Rightarrow> string exec" where
  "Event_String pr h e =
     (case evType e of
        TypeQueue \<Rightarrow> QueueInfo_String pr h (evQueue e)
      | TypeError \<Rightarrow> ErrorInfo_String pr (evError e)
      | TypeApply \<Rightarrow> ApplyInfo_String pr h (evApply e)
      | TypePrune \<Rightarrow> PruneInfo_String pr h (evPrune e)
      | TypeInventory \<Rightarrow> InventoryInfo_String pr (evInventory e)
      | TypeStatusUpdate \<Rightarrow> Done (StatusUpdateInfo_String pr (evStatusUpdate e))
      | _ \<Rightarrow> Done ''event type unknown'')"

text \<open>
  A well-formed event: the part its type selects names an object, and an error where, and only
  where, it reports a failure.
\<close>

definition event_wf :: "Event \<Rightarrow> bool" where
  "event_wf e =
     (case evType e of
        TypeError \<Rightarrow> errError (evError e) \<noteq> None
      | TypeQueue \<Rightarrow> None \<notin> set (qObjects (evQueue e))
      | TypeApply \<Rightarrow> aObject (evApply e) \<noteq> None \<and> (aError (evApply e) \<noteq> None \<longleftrightarrow> aStatus (evApply e) = EventFailed)
      | TypePrune \<Rightarrow> pObject (evPrune e) \<noteq> None \<and> (pError (evPrune e) \<noteq> None \<longleftrightarrow> pStatus (evPrune e) = EventFailed)
      | TypeInventory \<Rightarrow> iError (evInventory e) \<noteq> None \<longleftrightarrow> iStatus (evInventory e) = EventFailed
      | TypeStatusUpdate \<Rightarrow> True
      | TypeOther i \<Rightarrow> False)"

text \<open>The status that the part an event's type selects reports; an error event counts as failed.\<close>

definition event_status :: "Event \<Rightarrow> EventStatus" where
  "event_status e =
     (case evType e of
        TypeError \<Rightarrow> EventFailed
      | TypeApply \<Rightarrow> aStatus (evApply e)
      | TypePrune \<Rightarrow> pStatus (evPrune e)
      | TypeInventory \<Rightarrow> iStatus (evInventory e)
      | TypeStatusUpdate \<Rightarrow> uStatus (evStatusUpdate e)
      | _ \<Rightarrow> EventPending)"

lemma IsErrorEvent_wf: "event_wf e \<Longrightarrow> IsErrorEvent e \<longleftrightarrow> event_status e = EventFailed"
  by (cases "evType e") (auto simp: event_wf_def IsErrorEvent_def event_status_def)

lemma identifiers_Done: "None \<notin> set objs \<Longrightarrow> \<exists>ss. identifiers pr h objs = Done ss"
proof (induction objs)
  case (Cons obj objs)
  then show ?case by (cases obj) (auto simp: identifierFromObject_def)
qed simp

lemma Event_String_wf: "event_wf e \<Longrightarrow> \<exists>s. Event_String pr h e = Done s"
  by (cases "evType e")
     (auto simp: event_wf_def Event_String_def ErrorInfo_String_def QueueInfo_String_def
       ApplyInfo_String_def PruneInfo_String_def InventoryInfo_String_def errorString_def
       identifierFromObject_def dest!: identifiers_Done [of _ pr h] split: EventStatus.split option.split)

lemma stringer_names [simp]:
  "map Type_String [TypeError, TypeQueue, TypeApply, TypePrune, TypeInventory, TypeStatusUpdate] =
    [''Error'', ''Queue'', ''Apply'', ''Prune'', ''Inventory'', ''StatusUpdate'']"
  "map EventStatus_String [EventPending, EventSuccessful, EventFailed, EventSkipped] =
    [''Pending'', ''Successful'', ''Failed'', ''Skipped'']"
  by (simp_all add: Type_String_def EventStatus_String_def stringer_def)

end
