(* ===== verification/Inventory_Store.thy ===== *)
theory Inventory_Store
  imports Events
begin

text \<open>
  \<open>pkg/inventory/types.go\<close>, \<open>configmap.go\<close> and \<open>fake/fake.go\<close>: the interface \<open>Store\<close> as a
  record of operations with the contract its clients rely on as a locale, the store kept in a
  config map, and the store of the tests. A set of Go is a list in the order in which an
  iteration meets it; the remote side is a state \<open>'w\<close> that every call may change.
\<close>

subsection \<open>The interface\<close>

record ('c, 's, 'w) store_ops =
  store_Load :: "'s \<Rightarrow> 'w \<Rightarrow> (go_error + ObjectMetadata list) \<times> 'w"
  store_Save :: "'c unstructured heap \<Rightarrow> bool \<Rightarrow> 's \<Rightarrow> 'w \<Rightarrow> go_error option \<times> 'w"
  store_Delete :: "bool \<Rightarrow> 's \<Rightarrow> 'w \<Rightarrow> go_error option \<times> 'w"
  store_SetObjects :: "ref list \<Rightarrow> 's \<Rightarrow> 's"

definition metadata_of :: "'c unstructured heap \<Rightarrow> ref \<Rightarrow> ObjectMetadata" where
  "metadata_of h r = ObjectMetadataFromUnstructured (h r)"

text \<open>
  The contract: \<open>tracked\<close> is what the remote storage holds, \<open>saved\<close> what is set to be saved. A
  dry run leaves the storage as it is.
\<close>

locale Store =
  fixes ops :: "('c, 's, 'w) store_ops"
    and saved :: "'s \<Rightarrow> ref list"
    and tracked :: "'s \<Rightarrow> 'w \<Rightarrow> ObjectMetadata set"
  assumes saved_SetObjects: "set (saved (store_SetObjects ops objs s)) = set objs"
    and tracked_SetObjects: "tracked (store_SetObjects ops objs s) w = tracked s w"
    and Save_tracked: "store_Save ops h False s w = (None, w') \<Longrightarrow>
      (\<And>r. r \<in> set (saved s) \<Longrightarrow> storable (metadata_of h r)) \<Longrightarrow>
      tracked s w' = metadata_of h ` set (saved s)"
    and Save_dry: "store_Save ops h True s w = (e, w') \<Longrightarrow> tracked s w' = tracked s w"
    and Load_tracked: "store_Load ops s w = (Inr ms, w') \<Longrightarrow> set ms = tracked s w \<and> tracked s w' = tracked s w"
    and Delete_tracked: "store_Delete ops False s w = (None, w') \<Longrightarrow> tracked s w' = {}"
    and Delete_dry: "store_Delete ops True s w = (e, w') \<Longrightarrow> tracked s w' = tracked s w"
begin

lemma SetObjects_Save_tracked:
  assumes "store_Save ops h False (store_SetObjects ops objs s) w = (None, w')"
    and "\<And>r. r \<in> set objs \<Longrightarrow> storable (metadata_of h r)"
  shows "tracked s w' = metadata_of h ` set objs"
  using Save_tracked [OF assms(1)] assms(2) by (simp add: saved_SetObjects tracked_SetObjects)

end

subsection \<open>The store kept in a config map\<close>

text \<open>
  The requests on config maps: the namespace, the name, the data with the field manager and the
  flags \<open>Force\<close> and \<open>DryRun\<close>.
\<close>

record 'w configmap_client =
  cm_Apply :: "string \<Rightarrow> string \<Rightarrow> (string, string) gomap \<Rightarrow> string \<Rightarrow> bool \<Rightarrow> bool \<Rightarrow> 'w \<Rightarrow> go_error option \<times> 'w"
  cm_Get :: "string \<Rightarrow> string \<Rightarrow> 'w \<Rightarrow> (go_error + (string, string) gomap) \<times> 'w"
  cm_Delete :: "string \<Rightarrow> string \<Rightarrow> bool \<Rightarrow> 'w \<Rightarrow> go_error option \<times> 'w"

record configMapStore =
  cmName :: string
  cmNamespace :: string
  cmFieldManager :: string
  savedObjects :: "ref list"

definition NewConfigMapStore ::
  "(go_error + 'w configmap_client) \<Rightarrow> string \<Rightarrow> string \<Rightarrow> string \<Rightarrow>
     go_error + ('w configmap_client \<times> configMapStore)" where
  "NewConfigMapStore clientSet name namespace fieldManager =
     (case clientSet of
        Inl err \<Rightarrow> Inl err
      | Inr clientset \<Rightarrow>
          Inr (clientset, \<lparr> cmName = name, cmNamespace = namespace, cmFieldManager = fieldManager,
            savedObjects = [] \<rparr>))"

definition dataForStore :: "'c unstructured heap \<Rightarrow> configMapStore \<Rightarrow> (string, string) gomap" where
  "dataForStore h store =
     fold (\<lambda>obj data. AList.update (ToString (ObjectMetadataFromUnstructured (h obj))) [] data)
       (savedObjects store) []"

definition configMap_Save ::
  "'w configmap_client \<Rightarrow> 'c unstructured heap \<Rightarrow> bool \<Rightarrow> configMapStore \<Rightarrow> 'w \<Rightarrow> go_error option \<times> 'w" where
  "configMap_Save clientset h dryRun s w =
     (case cm_Apply clientset (cmNamespace s) (cmName s) (dataForStore h s) (cmFieldManager s) True dryRun w of
        (Some err, w') \<Rightarrow> (Some (Errorf ''failed to save inventory: '' err), w')
      | (None, w') \<Rightarrow> (None, w'))"

definition configMap_Delete ::
  "'w configmap_client \<Rightarrow> bool \<Rightarrow> configMapStore \<Rightarrow> 'w \<Rightarrow> go_error option \<times> 'w" where
  "configMap_Delete clientset dryRun s w =
     (case cm_Delete clientset (cmNamespace s) (cmName s) dryRun w of
        (Some err, w') \<Rightarrow>
          (if \<not> has_reason NotFound err then (Some (Errorf ''failed to delete inventory: '' err), w')
           else (None, w'))
      | (None, w') \<Rightarrow> (None, w'))"

definition configMap_SetObjects :: "ref list \<Rightarrow> configMapStore \<Rightarrow> configMapStore" where
  "configMap_SetObjects objs s = s \<lparr> savedObjects := objs \<rparr>"

fun metadataFromKeys :: "ObjectMetadata list \<Rightarrow> (string, string) gomap \<Rightarrow> ObjectMetadata list" where
  "metadataFromKeys metadataSet [] = metadataSet"
| "metadataFromKeys metadataSet ((dataKey, v) # rest) =
     (if fst (ObjectMetadataFromString dataKey)
      then metadataFromKeys (List.insert (snd (ObjectMetadataFromString dataKey)) metadataSet) rest
      else metadataFromKeys metadataSet rest)"

definition configMap_Load ::
  "'w configmap_client \<Rightarrow> configMapStore \<Rightarrow> 'w \<Rightarrow> (go_error + ObjectMetadata list) \<times> 'w" where
  "configMap_Load clientset s w =
     (case cm_Get clientset (cmNamespace s) (cmName s) w of
        (Inl err, w') \<Rightarrow>
          (if has_reason NotFound err then (Inr [], w')
           else (Inl (Errorf ''failed to find inventory: '' err), w'))
      | (Inr cm, w') \<Rightarrow> (Inr (metadataFromKeys [] cm), w'))"

definition configMap_ops :: "'w configmap_client \<Rightarrow> ('c, configMapStore, 'w) store_ops" where
  "configMap_ops clientset = \<lparr> store_Load = configMap_Load clientset, store_Save = configMap_Save clientset,
     store_Delete = configMap_Delete clientset, store_SetObjects = configMap_SetObjects \<rparr>"

subsection \<open>What the server promises\<close>

text \<open>
  \<open>contents\<close> gives the data of the config map at a namespace and name, if there is one. For a
  config map with no other owner, a forced apply that succeeds leaves exactly the applied keys;
  a dry run changes nothing; a read returns what is there, and an error with the reason
  \<open>NotFound\<close> only where nothing is.
\<close>

definition server_ok ::
  "'w configmap_client \<Rightarrow> ('w \<Rightarrow> string \<Rightarrow> string \<Rightarrow> (string, string) gomap option) \<Rightarrow> bool" where
  "server_ok cl contents \<longleftrightarrow>
     (\<forall>ns n d fm w w'. cm_Apply cl ns n d fm True False w = (None, w') \<longrightarrow>
        (\<exists>d'. contents w' ns n = Some d' \<and> fst ` set d' = fst ` set d)) \<and>
     (\<forall>ns n d fm w w' e. cm_Apply cl ns n d fm True True w = (e, w') \<longrightarrow> contents w' = contents w) \<and>
     (\<forall>ns n w w' d. cm_Get cl ns n w = (Inr d, w') \<longrightarrow> contents w ns n = Some d \<and> contents w' = contents w) \<and>
     (\<forall>ns n w w' e. cm_Get cl ns n w = (Inl e, w') \<longrightarrow> has_reason NotFound e \<longrightarrow>
        contents w ns n = None \<and> contents w' = contents w) \<and>
     (\<forall>ns n w w' e. cm_Delete cl ns n False w = (e, w') \<longrightarrow>
        (case e of None \<Rightarrow> True | Some err \<Rightarrow> has_reason NotFound err) \<longrightarrow> contents w' ns n = None) \<and>
     (\<forall>ns n w w' e. cm_Delete cl ns n True w = (e, w') \<longrightarrow> contents w' = contents w)"

lemma server_ok_Apply:
  "server_ok cl contents \<Longrightarrow> cm_Apply cl ns n d fm True False w = (None, w') \<Longrightarrow>
    \<exists>d'. contents w' ns n = Some d' \<and> fst ` set d' = fst ` set d"
  by (simp only: server_ok_def)

lemma server_ok_Apply_dry:
  "server_ok cl contents \<Longrightarrow> cm_Apply cl ns n d fm True True w = (e, w') \<Longrightarrow> contents w' = contents w"
  by (simp only: server_ok_def)

lemma server_ok_Get:
  "server_ok cl contents \<Longrightarrow> cm_Get cl ns n w = (Inr d, w') \<Longrightarrow>
    contents w ns n = Some d \<and> contents w' = contents w"
  by (simp only: server_ok_def)

lemma server_ok_Get_NotFound:
  "server_ok cl contents \<Longrightarrow> cm_Get cl ns n w = (Inl e, w') \<Longrightarrow> has_reason NotFound e \<Longrightarrow>
    contents w ns n = None \<and> contents w' = contents w"
  by (simp only: server_ok_def)

lemma server_ok_Delete:
  "server_ok cl contents \<Longrightarrow> cm_Delete cl ns n False w = (e, w') \<Longrightarrow>
    (case e of None \<Rightarrow> True | Some err \<Rightarrow> has_reason NotFound err) \<Longrightarrow> contents w' ns n = None"
  by (simp only: server_ok_def)

lemma server_ok_Delete_dry:
  "server_ok cl contents \<Longrightarrow> cm_Delete cl ns n True w = (e, w') \<Longrightarrow> contents w' = contents w"
  by (simp only: server_ok_def)

definition configMap_tracked ::
  "('w \<Rightarrow> string \<Rightarrow> string \<Rightarrow> (string, string) gomap option) \<Rightarrow> configMapStore \<Rightarrow> 'w \<Rightarrow> ObjectMetadata set" where
  "configMap_tracked contents s w =
     (case contents w (cmNamespace s) (cmName s) of
        None \<Rightarrow> {}
      | Some d \<Rightarrow> {m. \<exists>k \<in> fst ` set d. ObjectMetadataFromString k = (True, m)})"

lemma dataForStore_keys:
  "fst ` set (dataForStore h s) = (\<lambda>r. ToString (metadata_of h r)) ` set (savedObjects s)"
proof -
  have "fst ` set (fold (\<lambda>obj data. AList.update (ToString (metadata_of h obj)) ([] :: string) data) objs d) =
    fst ` set d \<union> (\<lambda>r. ToString (metadata_of h r)) ` set objs" for objs d
    by (induction objs arbitrary: d) auto
  then show ?thesis by (simp add: dataForStore_def metadata_of_def)
qed

lemma metadataFromKeys_set:
  "set (metadataFromKeys acc d) = set acc \<union> {m. \<exists>k \<in> fst ` set d. ObjectMetadataFromString k = (True, m)}"
proof (induction acc d rule: metadataFromKeys.induct)
  case (2 acc k v rest)
  then show ?case by (cases "ObjectMetadataFromString k") auto
qed simp

lemma metadataFromKeys_storable:
  assumes "\<And>r. r \<in> set (savedObjects s) \<Longrightarrow> storable (metadata_of h r)"
    and keys: "fst ` set d = fst ` set (dataForStore h s)"
  shows "{m. \<exists>k \<in> fst ` set d. ObjectMetadataFromString k = (True, m)} = metadata_of h ` set (savedObjects s)"
  unfolding keys dataForStore_keys using storable_roundtrip [OF assms(1)] by (auto simp: image_iff)

lemma configMap_Store:
  assumes "server_ok cl contents"
  shows "Store (configMap_ops cl) savedObjects (configMap_tracked contents)"
proof
  fix objs s
  show "set (savedObjects (store_SetObjects (configMap_ops cl) objs s)) = set objs"
    by (simp add: configMap_ops_def configMap_SetObjects_def)
next
  fix objs s w
  show "configMap_tracked contents (store_SetObjects (configMap_ops cl) objs s) w = configMap_tracked contents s w"
    by (simp add: configMap_ops_def configMap_SetObjects_def configMap_tracked_def)
next
  fix h s w w'
  assume "store_Save (configMap_ops cl) h False s w = (None, w')"
    and names: "\<And>r. r \<in> set (savedObjects s) \<Longrightarrow> storable (metadata_of h r)"
  then have "cm_Apply cl (cmNamespace s) (cmName s) (dataForStore h s) (cmFieldManager s) True False w = (None, w')"
    by (auto simp: configMap_ops_def configMap_Save_def split: prod.splits option.splits)
  from server_ok_Apply [OF assms this]
  obtain d where "contents w' (cmNamespace s) (cmName s) = Some d" "fst ` set d = fst ` set (dataForStore h s)"
    by blast
  then show "configMap_tracked contents s w' = metadata_of h ` set (savedObjects s)"
    by (simp only: configMap_tracked_def option.case metadataFromKeys_storable [OF names])
next
  fix h s w e w'
  assume "store_Save (configMap_ops cl) h True s w = (e, w')"
  then have "contents w' = contents w"
    by (auto simp: configMap_ops_def configMap_Save_def dest: server_ok_Apply_dry [OF assms]
        split: prod.splits option.splits)
  then show "configMap_tracked contents s w' = configMap_tracked contents s w"
    by (simp add: configMap_tracked_def)
next
  fix s w ms w'
  assume load: "store_Load (configMap_ops cl) s w = (Inr ms, w')"
  show "set ms = configMap_tracked contents s w \<and> configMap_tracked contents s w' = configMap_tracked contents s w"
  proof (cases "cm_Get cl (cmNamespace s) (cmName s) w")
    case (Pair r v)
    show ?thesis
    proof (cases r)
      case (Inl e)
      then have "contents w (cmNamespace s) (cmName s) = None \<and> contents v = contents w"
        using load Pair
        by (auto simp: configMap_ops_def configMap_Load_def dest: server_ok_Get_NotFound [OF assms] split: if_splits)
      with Inl Pair load show ?thesis
        by (auto simp: configMap_tracked_def configMap_ops_def configMap_Load_def split: if_splits)
    next
      case (Inr d)
      then have "contents w (cmNamespace s) (cmName s) = Some d \<and> contents v = contents w"
        using Pair by (simp add: server_ok_Get [OF assms])
      with Inr Pair load show ?thesis
        using metadataFromKeys_set [of "[]" d]
        by (auto simp: configMap_tracked_def configMap_ops_def configMap_Load_def
            simp del: bex_simps image_iff)
    qed
  qed
next
  fix s w w'
  assume "store_Delete (configMap_ops cl) False s w = (None, w')"
  then have "contents w' (cmNamespace s) (cmName s) = None"
    by (auto simp: configMap_ops_def configMap_Delete_def intro!: server_ok_Delete [OF assms]
        split: prod.splits option.splits if_splits)
  then show "configMap_tracked contents s w' = {}" by (simp add: configMap_tracked_def)
next
  fix s w e w'
  assume "store_Delete (configMap_ops cl) True s w = (e, w')"
  then have "contents w' = contents w"
    by (auto simp: configMap_ops_def configMap_Delete_def dest: server_ok_Delete_dry [OF assms]
        split: prod.splits option.splits if_splits)
  then show "configMap_tracked contents s w' = configMap_tracked contents s w"
    by (simp add: configMap_tracked_def)
qed

subsection \<open>A server\<close>

text \<open>
  A server that holds one data map per namespace and name, and answers its requests with the
  failures it is given: it meets the contract. \<open>serverFailures\<close> lists the outcomes of the
  requests to come, a request beyond the list succeeds.
\<close>

record server =
  serverMaps :: "(string \<times> string, (string, string) gomap) gomap"
  serverFailures :: "go_error option list"

definition next_failure :: "server \<Rightarrow> go_error option \<times> server" where
  "next_failure w =
     (case serverFailures w of
        [] \<Rightarrow> (None, w)
      | e # es \<Rightarrow> (e, w \<lparr> serverFailures := es \<rparr>))"

definition server_Apply where
  "server_Apply ns n d fm force dryRun w =
     (case next_failure w of
        (Some err, w') \<Rightarrow> (Some err, w')
      | (None, w') \<Rightarrow>
          (None, if dryRun then w' else w' \<lparr> serverMaps := AList.update (ns, n) d (serverMaps w') \<rparr>))"

text \<open>A read or a delete of what is not there, and nothing else, is answered with \<open>NotFound\<close>.\<close>

definition missing :: go_error where "missing = LibraryError NotFound ''configmaps not found''"

definition server_Get :: "string \<Rightarrow> string \<Rightarrow> server \<Rightarrow> (go_error + (string, string) gomap) \<times> server" where
  "server_Get ns n w =
     (case map_of (serverMaps w) (ns, n) of
        None \<Rightarrow> (Inl missing, w)
      | Some d \<Rightarrow>
          (case next_failure w of
             (Some err, w') \<Rightarrow> (if has_reason NotFound err then (Inr d, w') else (Inl err, w'))
           | (None, w') \<Rightarrow> (Inr d, w')))"

definition server_Delete :: "string \<Rightarrow> string \<Rightarrow> bool \<Rightarrow> server \<Rightarrow> go_error option \<times> server" where
  "server_Delete ns n dryRun w =
     (case map_of (serverMaps w) (ns, n) of
        None \<Rightarrow> (Some missing, w)
      | Some d \<Rightarrow>
          (case next_failure w of
             (Some err, w') \<Rightarrow> (Some (if has_reason NotFound err then ErrorNew ''refused'' else err), w')
           | (None, w') \<Rightarrow>
               (None, if dryRun then w' else w' \<lparr> serverMaps := AList.delete (ns, n) (serverMaps w') \<rparr>)))"

definition server_client :: "server configmap_client" where
  "server_client = \<lparr> cm_Apply = server_Apply, cm_Get = server_Get, cm_Delete = server_Delete \<rparr>"

definition server_contents :: "server \<Rightarrow> string \<Rightarrow> string \<Rightarrow> (string, string) gomap option" where
  "server_contents w ns n = map_of (serverMaps w) (ns, n)"

lemma next_failure_maps: "next_failure w = (e, w') \<Longrightarrow> serverMaps w' = serverMaps w"
  by (auto simp: next_failure_def split: list.splits)

lemma server_contents_eqI: "serverMaps w' = serverMaps w \<Longrightarrow> server_contents w' = server_contents w"
  by (intro ext) (simp add: server_contents_def)

lemma server_client_ok: "server_ok server_client server_contents"
  unfolding server_ok_def
proof (intro conjI allI impI)
  fix ns n d fm w w'
  assume "cm_Apply server_client ns n d fm True False w = (None, w')"
  then show "\<exists>d'. server_contents w' ns n = Some d' \<and> fst ` set d' = fst ` set d"
    by (auto simp: server_client_def server_Apply_def server_contents_def update_conv
        split: prod.splits option.splits)
next
  fix ns n d fm w w' e
  assume "cm_Apply server_client ns n d fm True True w = (e, w')"
  then show "server_contents w' = server_contents w"
    by (auto simp: server_client_def server_Apply_def intro!: server_contents_eqI dest: next_failure_maps
        split: prod.splits option.splits)
next
  fix ns n w w' d
  assume get: "cm_Get server_client ns n w = (Inr d, w')"
  then show "server_contents w ns n = Some d"
    by (auto simp: server_client_def server_Get_def server_contents_def
        split: prod.splits option.splits if_splits)
  from get show "server_contents w' = server_contents w"
    by (auto simp: server_client_def server_Get_def intro!: server_contents_eqI dest: next_failure_maps
        split: prod.splits option.splits if_splits)
next
  fix ns n w w' e
  assume get: "cm_Get server_client ns n w = (Inl e, w')" and nf: "has_reason NotFound e"
  then show "server_contents w ns n = None"
    by (auto simp: server_client_def server_Get_def server_contents_def
        split: prod.splits option.splits if_splits)
  from get nf show "server_contents w' = server_contents w"
    by (auto simp: server_client_def server_Get_def split: prod.splits option.splits if_splits)
next
  fix ns n w w' e
  assume "cm_Delete server_client ns n False w = (e, w')"
    and "case e of None \<Rightarrow> True | Some err \<Rightarrow> has_reason NotFound err"
  then show "server_contents w' ns n = None"
    by (auto simp: server_client_def server_Delete_def server_contents_def delete_conv
        split: prod.splits option.splits if_splits)
next
  fix ns n w w' e
  assume "cm_Delete server_client ns n True w = (e, w')"
  then show "server_contents w' = server_contents w"
    by (auto simp: server_client_def server_Delete_def intro!: server_contents_eqI dest: next_failure_maps
        split: prod.splits option.splits if_splits)
qed

interpretation config_map:
  Store "configMap_ops server_client :: ('c, configMapStore, server) store_ops" savedObjects
    "configMap_tracked server_contents"
  by (rule configMap_Store [OF server_client_ok])

subsection \<open>The store of the tests\<close>

text \<open>It keeps nothing: it returns the errors and the objects it is built with.\<close>

record 'w fakeInventory =
  InventoryObjects :: "ref list"
  SaveFunc :: "(bool \<Rightarrow> 'w \<Rightarrow> go_error option \<times> 'w) option"
  LoadErr :: "go_error option"
  SaveErr :: "go_error option"
  DeleteErr :: "go_error option"

definition fake_Load ::
  "'c unstructured heap \<Rightarrow> 'w fakeInventory \<Rightarrow> 'w \<Rightarrow> (go_error + ObjectMetadata list) \<times> 'w" where
  "fake_Load h i w =
     (case LoadErr i of
        Some err \<Rightarrow> (Inl err, w)
      | None \<Rightarrow> (Inr (remdups (map (metadata_of h) (InventoryObjects i))), w))"

definition fake_Save :: "bool \<Rightarrow> 'w fakeInventory \<Rightarrow> 'w \<Rightarrow> go_error option \<times> 'w" where
  "fake_Save dryRun i w =
     (case SaveErr i of
        Some err \<Rightarrow> (Some err, w)
      | None \<Rightarrow> (case SaveFunc i of Some f \<Rightarrow> f dryRun w | None \<Rightarrow> (None, w)))"

definition fake_Delete :: "bool \<Rightarrow> 'w fakeInventory \<Rightarrow> 'w \<Rightarrow> go_error option \<times> 'w" where
  "fake_Delete dryRun i w = (DeleteErr i, w)"

definition fake_SetObjects :: "ref list \<Rightarrow> 'w fakeInventory \<Rightarrow> 'w fakeInventory" where
  "fake_SetObjects objs i = i"

definition fake_Diff ::
  "'c unstructured heap \<Rightarrow> ref list \<Rightarrow> 'w fakeInventory \<Rightarrow> 'w \<Rightarrow>
     (ObjectMetadata list \<times> go_error option) \<times> 'w" where
  "fake_Diff h objects i w =
     (case fake_Load h i w of
        (Inl err, w') \<Rightarrow> (([], Some err), w')
      | (Inr remoteObjects, w') \<Rightarrow>
          ((fold (\<lambda>obj. removeAll (metadata_of h obj)) objects remoteObjects, None), w'))"

definition fake_ops :: "'c unstructured heap \<Rightarrow> ('c, 'w fakeInventory, 'w) store_ops" where
  "fake_ops h = \<lparr> store_Load = fake_Load h, store_Save = (\<lambda>h. fake_Save), store_Delete = fake_Delete,
     store_SetObjects = fake_SetObjects \<rparr>"

end
