(* ===== verification/Inventory_Manager.thy ===== *)
theory Inventory_Manager
  imports Inventory_Store
begin

text \<open>
  \<open>pkg/inventory/manager.go\<close>: the manager records the outcome of every object of a run, by the
  address of the object, and computes from it the inventory to save. What it promises is proved
  in the context of the locale \<open>Store\<close>, for every store.
\<close>

subsection \<open>The manager\<close>

datatype objectStatus =
    ApplySuccessfull | ApplyFailed | DeleteSuccessfull | DeleteFailed | Skipped

record 's Manager =
  Inventory :: 's
  startingObjects :: "ref list"
  objectStatuses :: "(ref, objectStatus) gomap"

definition NewManager :: "'s \<Rightarrow> ref list \<Rightarrow> 's Manager" where
  "NewManager inventory objs = \<lparr> Inventory = inventory, startingObjects = objs, objectStatuses = [] \<rparr>"

definition setStatus :: "ref \<Rightarrow> objectStatus \<Rightarrow> 's Manager \<Rightarrow> 's Manager" where
  "setStatus obj status m = m \<lparr> objectStatuses := AList.update obj status (objectStatuses m) \<rparr>"

definition objectsForStatus :: "objectStatus \<Rightarrow> 's Manager \<Rightarrow> ref list" where
  "objectsForStatus status m = map fst (filter (\<lambda>(obj, s). s = status) (objectStatuses m))"

definition SetSuccessfullApply :: "ref \<Rightarrow> 's Manager \<Rightarrow> 's Manager" where
  "SetSuccessfullApply obj m = setStatus obj ApplySuccessfull m"

definition SetFailedApply :: "ref \<Rightarrow> 's Manager \<Rightarrow> 's Manager" where
  "SetFailedApply obj m = setStatus obj ApplyFailed m"

definition IsFailedApply :: "'s Manager \<Rightarrow> ref \<Rightarrow> bool" where
  "IsFailedApply m obj =
     (case map_of (objectStatuses m) obj of None \<Rightarrow> False | Some status \<Rightarrow> status = ApplyFailed)"

definition SetSuccessfullDelete :: "ref \<Rightarrow> 's Manager \<Rightarrow> 's Manager" where
  "SetSuccessfullDelete obj m = setStatus obj DeleteSuccessfull m"

definition SetFailedDelete :: "ref \<Rightarrow> 's Manager \<Rightarrow> 's Manager" where
  "SetFailedDelete obj m = setStatus obj DeleteFailed m"

definition SetSkipped :: "ref \<Rightarrow> 's Manager \<Rightarrow> 's Manager" where
  "SetSkipped obj m = setStatus obj Skipped m"

definition IsSkipped :: "'s Manager \<Rightarrow> ref \<Rightarrow> bool" where
  "IsSkipped m obj =
     (case map_of (objectStatuses m) obj of None \<Rightarrow> False | Some status \<Rightarrow> status = Skipped)"

definition intersectedObjects :: "'c unstructured heap \<Rightarrow> ref list \<Rightarrow> ref list \<Rightarrow> ref list" where
  "intersectedObjects h first second =
     (let intersectionSet = map (metadata_of h) second in
      filter (\<lambda>obj. metadata_of h obj \<in> set intersectionSet) first)"

definition newInventory :: "'c unstructured heap \<Rightarrow> 's Manager \<Rightarrow> ref list" where
  "newInventory h m =
     List.union
       (List.union
         (List.union (objectsForStatus ApplySuccessfull m) (objectsForStatus DeleteFailed m))
         (intersectedObjects h (objectsForStatus ApplyFailed m) (startingObjects m)))
       (intersectedObjects h (objectsForStatus Skipped m) (startingObjects m))"

definition SaveCurrentInventoryState ::
  "('c, 's, 'w) store_ops \<Rightarrow> 'c unstructured heap \<Rightarrow> bool \<Rightarrow> 's Manager \<Rightarrow> 'w \<Rightarrow>
     go_error option \<times> 's Manager \<times> 'w" where
  "SaveCurrentInventoryState ops h dryRun m w =
     (let inventory = store_SetObjects ops (newInventory h m) (Inventory m);
          (err, w') = store_Save ops h dryRun inventory w
      in (err, m \<lparr> Inventory := inventory \<rparr>, w'))"

definition DeleteRemoteInventoryIfPossible ::
  "('c, 's, 'w) store_ops \<Rightarrow> bool \<Rightarrow> 's Manager \<Rightarrow> 'w \<Rightarrow> go_error option \<times> 'w" where
  "DeleteRemoteInventoryIfPossible ops dryRun m w =
     (if length (objectsForStatus DeleteFailed m) \<noteq> 0 then (None, w)
      else store_Delete ops dryRun (Inventory m) w)"

subsection \<open>The table of outcomes\<close>

definition outcome :: "'s Manager \<Rightarrow> ref \<Rightarrow> objectStatus option" where
  "outcome m obj = map_of (objectStatuses m) obj"

definition manager_wf :: "'s Manager \<Rightarrow> bool" where
  "manager_wf m \<longleftrightarrow> distinct (map fst (objectStatuses m))"

lemma NewManager_wf [simp, intro]: "manager_wf (NewManager inventory objs)"
  by (simp add: manager_wf_def NewManager_def)

lemma setStatus_wf [simp, intro]: "manager_wf m \<Longrightarrow> manager_wf (setStatus obj s m)"
  by (simp add: manager_wf_def setStatus_def distinct_update)

lemma outcome_setStatus [simp, task_simps]:
  "outcome (setStatus obj s m) o' = (if o' = obj then Some s else outcome m o')"
  by (simp add: outcome_def setStatus_def update_conv)

lemma startingObjects_setStatus [simp]: "startingObjects (setStatus obj s m) = startingObjects m"
  by (simp add: setStatus_def)

lemma outcome_queries [task_simps]:
  "IsFailedApply m obj \<longleftrightarrow> outcome m obj = Some ApplyFailed"
  "IsSkipped m obj \<longleftrightarrow> outcome m obj = Some Skipped"
  by (auto simp: IsFailedApply_def IsSkipped_def outcome_def split: option.split)

lemma objectsForStatus_iff:
  "manager_wf m \<Longrightarrow> obj \<in> set (objectsForStatus s m) \<longleftrightarrow> outcome m obj = Some s"
  by (auto simp: manager_wf_def objectsForStatus_def outcome_def map_of_eq_Some_iff image_iff split: prod.splits)

text \<open>The objects an inventory must keep, by their outcome.\<close>

definition kept :: "'c unstructured heap \<Rightarrow> 's Manager \<Rightarrow> ref \<Rightarrow> bool" where
  "kept h m obj \<longleftrightarrow>
     (case outcome m obj of
        Some ApplySuccessfull \<Rightarrow> True
      | Some DeleteFailed \<Rightarrow> True
      | Some ApplyFailed \<Rightarrow> metadata_of h obj \<in> metadata_of h ` set (startingObjects m)
      | Some Skipped \<Rightarrow> metadata_of h obj \<in> metadata_of h ` set (startingObjects m)
      | _ \<Rightarrow> False)"

text \<open>The same by the outcome alone, and whether the object was tracked before.\<close>

definition kept_outcome :: "bool \<Rightarrow> objectStatus option \<Rightarrow> bool" where
  "kept_outcome was_tracked s \<longleftrightarrow>
     s \<in> {Some ApplySuccessfull, Some DeleteFailed} \<or> was_tracked \<and> s \<in> {Some ApplyFailed, Some Skipped}"

lemma kept_iff:
  "kept h m obj \<longleftrightarrow> kept_outcome (metadata_of h obj \<in> metadata_of h ` set (startingObjects m)) (outcome m obj)"
  by (auto simp: kept_def kept_outcome_def split: option.split objectStatus.split)

lemma newInventory_kept:
  assumes "manager_wf m"
  shows "set (newInventory h m) = {obj. kept h m obj}"
proof -
  have "obj \<in> set (newInventory h m) \<longleftrightarrow> kept h m obj" for obj
    by (auto simp: newInventory_def intersectedObjects_def Let_def objectsForStatus_iff [OF assms] kept_def
        split: option.splits objectStatus.splits)
  then show ?thesis by blast
qed

context Store
begin

lemma SaveCurrentInventoryState_tracked:
  assumes "SaveCurrentInventoryState ops h False m w = (None, m', w')"
    and "manager_wf m" and "\<And>obj. kept h m obj \<Longrightarrow> storable (metadata_of h obj)"
  shows "tracked (Inventory m') w' = metadata_of h ` {obj. kept h m obj}"
  using assms(1) SetObjects_Save_tracked [of h "newInventory h m" "Inventory m" w w'] assms(2,3)
  by (auto simp: SaveCurrentInventoryState_def Let_def newInventory_kept tracked_SetObjects split: prod.splits)

lemma Save_then_Load:
  assumes "SaveCurrentInventoryState ops h False m w = (None, m', w')"
    and "manager_wf m" and "\<And>obj. kept h m obj \<Longrightarrow> storable (metadata_of h obj)"
    and "store_Load ops (Inventory m') w' = (Inr ms, w'')"
  shows "set ms = metadata_of h ` {obj. kept h m obj}"
  using SaveCurrentInventoryState_tracked [OF assms(1-3)] Load_tracked [OF assms(4)] by simp

lemma SaveCurrentInventoryState_dry:
  assumes "SaveCurrentInventoryState ops h True m w = (e, m', w')"
  shows "tracked (Inventory m') w' = tracked (Inventory m) w"
  using assms by (auto simp: SaveCurrentInventoryState_def Let_def tracked_SetObjects dest: Save_dry split: prod.splits)

lemma DeleteRemoteInventory_tracked:
  assumes "DeleteRemoteInventoryIfPossible ops False m w = (None, w')" and "manager_wf m"
  shows "if \<exists>obj. outcome m obj = Some DeleteFailed then w' = w else tracked (Inventory m) w' = {}"
proof (cases "objectsForStatus DeleteFailed m")
  case Nil
  then have "\<not> (\<exists>obj. outcome m obj = Some DeleteFailed)"
    using objectsForStatus_iff [OF assms(2)] by (metis empty_iff empty_set)
  with Nil assms(1) show ?thesis by (auto simp: DeleteRemoteInventoryIfPossible_def dest: Delete_tracked)
next
  case (Cons obj objs)
  then have "outcome m obj = Some DeleteFailed"
    using objectsForStatus_iff [OF assms(2)] by (metis list.set_intros(1))
  with Cons assms(1) show ?thesis by (auto simp: DeleteRemoteInventoryIfPossible_def)
qed

end

subsection \<open>Inventories in a config map\<close>


definition example_store :: configMapStore where
  "example_store = \<lparr> cmName = ''inventory'', cmNamespace = ''prod'', cmFieldManager = ''jpl'', savedObjects = [] \<rparr>"

definition example_heap3 :: "unit unstructured heap" where
  "example_heap3 r = example_object (GroupVersionKind '''' ''v1'' ''Secret'')
     (if r = 0 then ''a'' else if r = 1 then ''b'' else ''c'') ''prod''"

definition example_manager :: "configMapStore Manager" where
  "example_manager = SetSkipped 2 (SetFailedApply 1 (SetSuccessfullApply 0 (NewManager example_store [2])))"

lemma example_manager_kept: "kept example_heap3 example_manager obj \<longleftrightarrow> obj = 0 \<or> obj = 2"
  by (simp add: kept_def example_manager_def SetSkipped_def SetFailedApply_def SetSuccessfullApply_def
      NewManager_def outcome_def setStatus_def metadata_of_def example_heap3_def example_object_def
      ObjectMetadataFromUnstructured_def update_conv)




end
