(* ===== verification/Client_Cache.thy ===== *)
theory Client_Cache
  imports Inventory_Manager
begin

text \<open>
  \<open>pkg/client/cache\<close>: the getter of remote resources, which asks the server once per resource
  of a run. The world of a run is the heap of objects with its next free address, the table of
  the cache and the state \<open>'w\<close> of the remote side.
\<close>

subsection \<open>The world of a run\<close>

record ('c, 'w) world =
  objHeap :: "'c unstructured heap"
  nextRef :: ref
  remote :: 'w
  cache :: "(ObjectMetadata, ref option \<times> go_error option) gomap"

definition alloc :: "'c unstructured \<Rightarrow> ('c, 'w) world \<Rightarrow> ref \<times> ('c, 'w) world" where
  "alloc obj w = (nextRef w, w \<lparr> objHeap := (objHeap w)(nextRef w := obj), nextRef := Suc (nextRef w) \<rparr>)"

record DeleteOptions =
  propagationPolicy :: string
  deleteDryRun :: bool

text \<open>The dynamic client: the resource, the namespace and the name of the object.\<close>

record ('c, 'w) dynamic_client =
  dyn_Get :: "GroupVersionResource \<Rightarrow> string \<Rightarrow> string \<Rightarrow> 'w \<Rightarrow> (go_error + 'c unstructured) \<times> 'w"
  dyn_Delete :: "GroupVersionResource \<Rightarrow> string \<Rightarrow> string \<Rightarrow> DeleteOptions \<Rightarrow> 'w \<Rightarrow> go_error option \<times> 'w"

text \<open>The REST mapper looks kinds up in what it knows of the remote side, and can be reset.\<close>

record 'w rest_mapper =
  map_kind :: "'w \<Rightarrow> RESTMapper"
  reset_mapper :: "'w \<Rightarrow> 'w"

subsection \<open>The getter\<close>

definition store_status ::
  "ObjectMetadata \<Rightarrow> ref option \<times> go_error option \<Rightarrow> ('c, 'w) world \<Rightarrow> ('c, 'w) world" where
  "store_status ident status w = w \<lparr> cache := AList.update ident status (cache w) \<rparr>"

definition getObject ::
  "'w rest_mapper \<Rightarrow> ('c, 'w) dynamic_client \<Rightarrow> ObjectMetadata \<Rightarrow> ('c, 'w) world \<Rightarrow>
     (ref option \<times> go_error option) \<times> ('c, 'w) world" where
  "getObject mapper client ident w =
     (case map_kind mapper (remote w) (GroupKind (Group ident) (Kind ident)) [] of
        Inl err \<Rightarrow> ((None, Some err), w)
      | Inr mapping \<Rightarrow>
          (case dyn_Get client (mapResource mapping) (Namespace ident) (Name ident) (remote w) of
             (Inl err, remote') \<Rightarrow>
               (let w' = w \<lparr> remote := remote' \<rparr> in
                if has_reason NoMatch err \<or> has_reason NotFound err
                then ((None, None), store_status ident (None, None) w')
                else ((None, Some err), store_status ident (None, Some err) w'))
           | (Inr obj, remote') \<Rightarrow>
               (let (r, w') = alloc obj (w \<lparr> remote := remote' \<rparr>)
                in ((Some r, None), store_status ident (Some r, None) w'))))"

definition Get ::
  "'w rest_mapper \<Rightarrow> ('c, 'w) dynamic_client \<Rightarrow> ObjectMetadata \<Rightarrow> ('c, 'w) world \<Rightarrow>
     (ref option \<times> go_error option) \<times> ('c, 'w) world" where
  "Get mapper client ident w =
     (case map_of (cache w) ident of
        Some status \<Rightarrow> (status, w)
      | None \<Rightarrow> getObject mapper client ident w)"

text \<open>A new getter starts with an empty table; mapper and client are arguments of \<open>Get\<close>.\<close>

definition NewCachedResourceGetter :: "('c, 'w) world \<Rightarrow> ('c, 'w) world" where
  "NewCachedResourceGetter w = w \<lparr> cache := [] \<rparr>"

declare NewCachedResourceGetter_def [simp]

text \<open>A sequence of calls of a getter, their results dropped.\<close>

definition gets ::
  "(ObjectMetadata \<Rightarrow> ('c, 'w) world \<Rightarrow> (ref option \<times> go_error option) \<times> ('c, 'w) world) \<Rightarrow>
     ObjectMetadata list \<Rightarrow> ('c, 'w) world \<Rightarrow> ('c, 'w) world" where
  "gets get ids w = fold (\<lambda>ident w. snd (get ident w)) ids w"

subsection \<open>What the getter promises\<close>

text \<open>
  The contract of \<open>RemoteResourceGetter\<close>: an object comes without an error and is the one asked
  for, and a call only adds to the heap, so that what it returned before stays as it was.
\<close>

locale RemoteResourceGetter =
  fixes get :: "ObjectMetadata \<Rightarrow> ('c, 'w) world \<Rightarrow> (ref option \<times> go_error option) \<times> ('c, 'w) world"
    and valid :: "('c, 'w) world \<Rightarrow> bool"
  assumes get_valid: "valid w \<Longrightarrow> get ident w = (res, w') \<Longrightarrow> valid w'"
    and get_found: "valid w \<Longrightarrow> get ident w = ((Some r, err), w') \<Longrightarrow>
      err = None \<and> metadata_of (objHeap w') r = ident \<and> r < nextRef w'"
    and get_extends: "valid w \<Longrightarrow> get ident w = (res, w') \<Longrightarrow>
      nextRef w \<le> nextRef w' \<and> (\<forall>r < nextRef w. objHeap w' r = objHeap w r)"
    and get_stable: "get ident w = ((obj, None), w') \<Longrightarrow> fst (get ident (gets get ids w')) = (obj, None)"

context RemoteResourceGetter
begin

lemma gets_valid: "valid w \<Longrightarrow> valid (gets get ids w)"
proof (induction ids arbitrary: w)
  case (Cons ident ids)
  then have "valid (snd (get ident w))"
    by (cases "get ident w") (simp add: get_valid)
  with Cons.IH show ?case by (simp add: gets_def)
qed (simp add: gets_def)

lemma gets_extends:
  "valid w \<Longrightarrow> nextRef w \<le> nextRef (gets get ids w) \<and>
    (\<forall>r < nextRef w. objHeap (gets get ids w) r = objHeap w r)"
proof (induction ids arbitrary: w)
  case (Cons ident ids)
  let ?w = "snd (get ident w)"
  have "valid ?w" using Cons.prems by (cases "get ident w") (simp add: get_valid)
  moreover have "nextRef w \<le> nextRef ?w \<and> (\<forall>r < nextRef w. objHeap ?w r = objHeap w r)"
    using get_extends [OF Cons.prems, of ident "fst (get ident w)" ?w] by simp
  ultimately show ?case using Cons.IH [of ?w] by (simp add: gets_def)
qed (simp add: gets_def)

end

text \<open>The server returns the object it is asked for, of the kind the resource belongs to.\<close>

definition client_ok :: "'w rest_mapper \<Rightarrow> ('c, 'w) dynamic_client \<Rightarrow> bool" where
  "client_ok mapper client \<longleftrightarrow>
     (\<forall>w gk mapping ns n obj w'.
        map_kind mapper w gk [] = Inr mapping \<longrightarrow>
        dyn_Get client (mapResource mapping) ns n w = (Inr obj, w') \<longrightarrow>
        objName obj = n \<and> objNamespace obj = ns \<and> objGK obj = gk)"

definition cache_ok :: "('c, 'w) world \<Rightarrow> bool" where
  "cache_ok w \<longleftrightarrow>
     (\<forall>ident v err. map_of (cache w) ident = Some (v, err) \<longrightarrow>
        (case v of
           None \<Rightarrow> True
         | Some r \<Rightarrow> err = None \<and> r < nextRef w \<and> metadata_of (objHeap w) r = ident) \<and>
        (\<forall>e. err = Some e \<longrightarrow> \<not> has_reason NotFound e))"

lemma ObjectMetadata_parts:
  "objName obj = Name m \<Longrightarrow> objNamespace obj = Namespace m \<Longrightarrow>
    objGK obj = GroupKind (Group m) (Kind m) \<Longrightarrow> ObjectMetadataFromUnstructured obj = m"
  by (cases m; cases "objGVK obj") (simp add: ObjectMetadataFromUnstructured_def objGK_def groupKind_def Let_def)

lemma cache_ok_old:
  "cache_ok w \<Longrightarrow> map_of (cache w) ident = Some (Some r, err) \<Longrightarrow>
    err = None \<and> r < nextRef w \<and> metadata_of (objHeap w) r = ident"
  by (fastforce simp: cache_ok_def)

lemma cache_ok_not_found:
  "cache_ok w \<Longrightarrow> map_of (cache w) ident = Some (x, Some e) \<Longrightarrow> \<not> has_reason NotFound e"
  by (fastforce simp: cache_ok_def)

lemma cache_ok_store:
  assumes "cache_ok w"
    and "objHeap w' = objHeap w \<and> nextRef w' = nextRef w \<or>
      (\<exists>obj. objHeap w' = (objHeap w)(nextRef w := obj) \<and> nextRef w' = Suc (nextRef w))"
    and "cache w' = cache w"
    and "\<And>r. fst status = Some r \<Longrightarrow> snd status = None \<and> r < nextRef w' \<and> metadata_of (objHeap w') r = ident"
    and "\<And>e. snd status = Some e \<Longrightarrow> \<not> has_reason NotFound e"
  shows "cache_ok (store_status ident status w')"
  unfolding cache_ok_def
proof (intro allI impI)
  fix k x err
  assume entry: "map_of (cache (store_status ident status w')) k = Some (x, err)"
  show "(case x of None \<Rightarrow> True | Some r \<Rightarrow> err = None \<and> r < nextRef (store_status ident status w') \<and>
      metadata_of (objHeap (store_status ident status w')) r = k) \<and> (\<forall>e. err = Some e \<longrightarrow> \<not> has_reason NotFound e)"
  proof (cases "k = ident")
    case True
    then have "status = (x, err)" using entry by (simp add: store_status_def update_conv)
    with assms(4,5) True show ?thesis by (auto simp: store_status_def split: option.split)
  next
    case False
    then have old: "map_of (cache w) k = Some (x, err)"
      using entry assms(3) by (simp add: store_status_def update_conv)
    show ?thesis
    proof (cases x)
      case None
      then show ?thesis using cache_ok_not_found [OF assms(1)] old by auto
    next
      case (Some r)
      then have "err = None \<and> r < nextRef w \<and> metadata_of (objHeap w) r = k"
        using cache_ok_old [OF assms(1)] old by blast
      with Some assms(2) show ?thesis by (auto simp: store_status_def metadata_of_def)
    qed
  qed
qed

lemma alloc_simps [simp]:
  "fst (alloc obj w) = nextRef w" "remote (snd (alloc obj w)) = remote w"
  "cache (snd (alloc obj w)) = cache w" "nextRef (snd (alloc obj w)) = Suc (nextRef w)"
  "objHeap (snd (alloc obj w)) = (objHeap w)(nextRef w := obj)"
  by (simp_all add: alloc_def)

lemma store_status_simps [simp]:
  "objHeap (store_status ident status w) = objHeap w" "nextRef (store_status ident status w) = nextRef w"
  "remote (store_status ident status w) = remote w"
  "map_of (cache (store_status ident status w)) k = (if k = ident then Some status else map_of (cache w) k)"
  by (simp_all add: store_status_def update_conv)

lemma getObject_cases:
  assumes "getObject mapper client ident w = (res, w')"
  obtains (mapper) err where "map_kind mapper (remote w) (GroupKind (Group ident) (Kind ident)) [] = Inl err"
      and "res = (None, Some err)" and "w' = w"
    | (missing) mapping err remote' where "map_kind mapper (remote w) (GroupKind (Group ident) (Kind ident)) [] = Inr mapping"
      and "dyn_Get client (mapResource mapping) (Namespace ident) (Name ident) (remote w) = (Inl err, remote')"
      and "has_reason NoMatch err \<or> has_reason NotFound err" and "res = (None, None)"
      and "w' = store_status ident (None, None) (w \<lparr> remote := remote' \<rparr>)"
    | (failed) mapping err remote' where "map_kind mapper (remote w) (GroupKind (Group ident) (Kind ident)) [] = Inr mapping"
      and "dyn_Get client (mapResource mapping) (Namespace ident) (Name ident) (remote w) = (Inl err, remote')"
      and "\<not> has_reason NotFound err" and "res = (None, Some err)"
      and "w' = store_status ident (None, Some err) (w \<lparr> remote := remote' \<rparr>)"
    | (found) mapping obj remote' where "map_kind mapper (remote w) (GroupKind (Group ident) (Kind ident)) [] = Inr mapping"
      and "dyn_Get client (mapResource mapping) (Namespace ident) (Name ident) (remote w) = (Inr obj, remote')"
      and "res = (Some (nextRef w), None)"
      and "w' = store_status ident (Some (nextRef w), None) (snd (alloc obj (w \<lparr> remote := remote' \<rparr>)))"
proof (cases "map_kind mapper (remote w) (GroupKind (Group ident) (Kind ident)) []")
  case (Inl err)
  with assms have "res = (None, Some err)" "w' = w" by (simp_all add: getObject_def)
  with Inl show ?thesis by (rule mapper)
next
  case (Inr mapping)
  obtain r remote' where call: "dyn_Get client (mapResource mapping) (Namespace ident) (Name ident) (remote w) = (r, remote')"
    by (rule prod.exhaust)
  show ?thesis
  proof (cases r)
    case (Inl err)
    then show ?thesis
      using assms missing [OF \<open>map_kind mapper _ _ _ = Inr mapping\<close>]
        failed [OF \<open>map_kind mapper _ _ _ = Inr mapping\<close>] \<open>map_kind mapper _ _ _ = Inr mapping\<close> call
      by (auto simp: getObject_def Let_def split: if_splits)
  next
    case (Inr obj)
    then show ?thesis
      using assms found [OF \<open>map_kind mapper _ _ _ = Inr mapping\<close>] \<open>map_kind mapper _ _ _ = Inr mapping\<close> call
      by (auto simp: getObject_def alloc_def)
  qed
qed

lemma client_okD:
  "client_ok mapper client \<Longrightarrow> map_kind mapper w gk [] = Inr mapping \<Longrightarrow>
    dyn_Get client (mapResource mapping) ns n w = (Inr obj, w') \<Longrightarrow>
    objName obj = n \<and> objNamespace obj = ns \<and> objGK obj = gk"
  unfolding client_ok_def by fast

lemma getObject_cache_ok:
  assumes "client_ok mapper client" and "cache_ok w" and "getObject mapper client ident w = (res, w')"
  shows "cache_ok w'"
  using assms(3)
proof (cases rule: getObject_cases)
  case (found mapping obj remote')
  have "ObjectMetadataFromUnstructured obj = ident"
    using client_okD [OF assms(1) found(1,2)] by (intro ObjectMetadata_parts) auto
  then show ?thesis
    unfolding found(4) using assms(2) by (intro cache_ok_store [of w]) (auto simp: metadata_of_def)
next
  case mapper
  then show ?thesis using assms(2) by simp
next
  case (missing mapping err remote')
  show ?thesis unfolding missing(5) using assms(2) by (intro cache_ok_store [of w]) auto
next
  case (failed mapping err remote')
  show ?thesis unfolding failed(5) using assms(2) failed(3) by (intro cache_ok_store [of w]) auto
qed

lemma Get_cached: "map_of (cache w) ident = Some status \<Longrightarrow> Get mapper client ident w = (status, w)"
  by (simp add: Get_def)

lemma Get_keeps:
  assumes "map_of (cache w) k = Some status"
  shows "map_of (cache (snd (Get mapper client ident w))) k = Some status"
proof (cases "map_of (cache w) ident")
  case None
  obtain res w' where get: "getObject mapper client ident w = (res, w')" by (rule prod.exhaust)
  then have "map_of (cache w') k = Some status"
    using assms None by (cases rule: getObject_cases) auto
  with get None show ?thesis by (simp add: Get_def)
qed (use assms in \<open>simp add: Get_def\<close>)

lemma gets_keeps:
  "map_of (cache w) k = Some status \<Longrightarrow> map_of (cache (gets (Get mapper client) ids w)) k = Some status"
  by (induction ids arbitrary: w) (auto simp: gets_def intro: Get_keeps)

lemma Get_answer_cached:
  assumes "Get mapper client ident w = ((obj, None), w')"
  shows "map_of (cache w') ident = Some (obj, None)"
proof (cases "map_of (cache w) ident")
  case None
  with assms have "getObject mapper client ident w = ((obj, None), w')" by (simp add: Get_def)
  then show ?thesis by (cases rule: getObject_cases) auto
qed (use assms in \<open>auto simp: Get_def\<close>)

lemma Get_RemoteResourceGetter:
  assumes "client_ok mapper client"
  shows "RemoteResourceGetter (Get mapper client) cache_ok"
proof
  fix w ident res w'
  assume valid: "cache_ok w" and get: "Get mapper client ident w = (res, w')"
  then show "cache_ok w'"
    using getObject_cache_ok [OF assms valid] by (auto simp: Get_def split: option.splits)
  show "nextRef w \<le> nextRef w' \<and> (\<forall>r < nextRef w. objHeap w' r = objHeap w r)"
  proof (cases "map_of (cache w) ident")
    case None
    with get have "getObject mapper client ident w = (res, w')" by (simp add: Get_def)
    then show ?thesis by (cases rule: getObject_cases) auto
  qed (use get in \<open>simp add: Get_def\<close>)
next
  fix w ident r err w'
  assume valid: "cache_ok w" and get: "Get mapper client ident w = ((Some r, err), w')"
  show "err = None \<and> metadata_of (objHeap w') r = ident \<and> r < nextRef w'"
  proof (cases "map_of (cache w) ident")
    case None
    with get have "getObject mapper client ident w = ((Some r, err), w')" by (simp add: Get_def)
    then have "map_of (cache w') ident = Some (Some r, err)" by (cases rule: getObject_cases) auto
    moreover have "cache_ok w'"
      using None get getObject_cache_ok [OF assms valid] by (auto simp: Get_def)
    ultimately show ?thesis using cache_ok_old by blast
  next
    case (Some status)
    with get cache_ok_old [OF valid] show ?thesis by (auto simp: Get_def)
  qed
next
  fix ident w obj w' ids
  assume "Get mapper client ident w = ((obj, None), w')"
  then have "map_of (cache (gets (Get mapper client) ids w')) ident = Some (obj, None)"
    by (intro gets_keeps Get_answer_cached)
  then show "fst (Get mapper client ident (gets (Get mapper client) ids w')) = (obj, None)"
    by (simp add: Get_cached)
qed

text \<open>
  C35: Once a resource was looked up on the server, every later request in the same run, after
  any number of requests for any resources, returns the same pointer and the same error and
  sends nothing: the world is unchanged. Only a kind the mapper does not know is asked again.
\<close>

theorem Get_once:
  assumes "Get mapper client ident w = (res, w')"
    and "map_kind mapper (remote w) (GroupKind (Group ident) (Kind ident)) [] = Inr mapping"
  shows "Get mapper client ident (gets (Get mapper client) ids w') = (res, gets (Get mapper client) ids w')"
proof -
  have "map_of (cache w') ident = Some res"
  proof (cases "map_of (cache w) ident")
    case None
    with assms(1) have "getObject mapper client ident w = (res, w')" by (simp add: Get_def)
    then show ?thesis using assms(2) by (cases rule: getObject_cases) auto
  qed (use assms(1) in \<open>auto simp: Get_def\<close>)
  then show ?thesis by (intro Get_cached gets_keeps)
qed

subsection \<open>A cluster\<close>

text \<open>
  A cluster that knows some kinds and holds objects, beside its config maps; a request fails
  where the list of failures says so.
\<close>

record 'c cluster = server +
  knownKinds :: "GroupKind list"
  clusterObjects :: "'c unstructured list"

definition cluster_mapping :: "GroupKind \<Rightarrow> RESTMapping" where
  "cluster_mapping gk =
     \<lparr> mapResource = GroupVersionResource (gk_group gk) ''v1'' (gk_kind gk),
       mapGVK = GroupVersionKind (gk_group gk) ''v1'' (gk_kind gk), mapScope = RESTScopeNamespace \<rparr>"

definition cluster_mapper :: "'c cluster rest_mapper" where
  "cluster_mapper = \<lparr>
     map_kind = (\<lambda>w gk vs. if gk \<in> set (knownKinds w) then Inr (cluster_mapping gk)
                         else Inl (LibraryError NoMatch ''no matches for kind'')),
     reset_mapper = (\<lambda>w. w) \<rparr>"

fun resource_metadata :: "GroupVersionResource \<Rightarrow> string \<Rightarrow> string \<Rightarrow> ObjectMetadata" where
  "resource_metadata (GroupVersionResource g v k) ns n = ObjectMetadata n ns g k"

definition cluster_Get ::
  "GroupVersionResource \<Rightarrow> string \<Rightarrow> string \<Rightarrow> 'c cluster \<Rightarrow> (go_error + 'c unstructured) \<times> 'c cluster" where
  "cluster_Get gvr ns n w =
     (case serverFailures w of
        Some err # es \<Rightarrow> (Inl err, w \<lparr> serverFailures := es \<rparr>)
      | es \<Rightarrow>
          (case find (\<lambda>obj. ObjectMetadataFromUnstructured obj = resource_metadata gvr ns n) (clusterObjects w) of
             None \<Rightarrow> (Inl (LibraryError NotFound ''not found''), w \<lparr> serverFailures := tl es \<rparr>)
           | Some obj \<Rightarrow> (Inr obj, w \<lparr> serverFailures := tl es \<rparr>)))"

definition cluster_Delete ::
  "GroupVersionResource \<Rightarrow> string \<Rightarrow> string \<Rightarrow> DeleteOptions \<Rightarrow> 'c cluster \<Rightarrow> go_error option \<times> 'c cluster" where
  "cluster_Delete gvr ns n opts w =
     (case serverFailures w of
        Some err # es \<Rightarrow> (Some err, w \<lparr> serverFailures := es \<rparr>)
      | es \<Rightarrow>
          (if find (\<lambda>obj. ObjectMetadataFromUnstructured obj = resource_metadata gvr ns n) (clusterObjects w) = None
           then (Some (LibraryError NotFound ''not found''), w \<lparr> serverFailures := tl es \<rparr>)
           else (None, w \<lparr> serverFailures := tl es,
             clusterObjects := (if deleteDryRun opts then clusterObjects w
               else filter (\<lambda>obj. ObjectMetadataFromUnstructured obj \<noteq> resource_metadata gvr ns n) (clusterObjects w)) \<rparr>)))"

definition cluster_client :: "('c, 'c cluster) dynamic_client" where
  "cluster_client = \<lparr> dyn_Get = cluster_Get, dyn_Delete = cluster_Delete \<rparr>"

lemma ObjectMetadata_inject_parts:
  "ObjectMetadataFromUnstructured obj = ObjectMetadata n ns g k \<longleftrightarrow>
    objName obj = n \<and> objNamespace obj = ns \<and> objGK obj = GroupKind g k"
  by (cases "objGVK obj") (simp add: ObjectMetadataFromUnstructured_def objGK_def groupKind_def Let_def)

lemma cluster_client_ok: "client_ok cluster_mapper cluster_client"
  unfolding client_ok_def
proof (intro allI impI)
  fix w :: "'c cluster" and gk mapping ns n obj w'
  assume mapping: "map_kind cluster_mapper w gk [] = Inr mapping"
    and get: "dyn_Get cluster_client (mapResource mapping) ns n w = (Inr obj, w')"
  then have "mapping = cluster_mapping gk" by (simp add: cluster_mapper_def split: if_splits)
  moreover have "ObjectMetadataFromUnstructured obj = resource_metadata (mapResource mapping) ns n"
    using get by (auto simp: cluster_client_def cluster_Get_def find_Some_iff
        split: list.splits option.splits)
  ultimately show "objName obj = n \<and> objNamespace obj = ns \<and> objGK obj = gk"
    by (cases gk) (simp add: cluster_mapping_def ObjectMetadata_inject_parts)
qed

interpretation cached:
  RemoteResourceGetter "Get cluster_mapper cluster_client :: ObjectMetadata \<Rightarrow> ('c, 'c cluster) world \<Rightarrow> _" cache_ok
  by (rule Get_RemoteResourceGetter [OF cluster_client_ok])

definition example_cluster :: "unit cluster" where
  "example_cluster = \<lparr> serverMaps = [], serverFailures = [None], knownKinds = [serviceGK],
     clusterObjects = [example_object (GroupVersionKind [] ''v1'' ''Service'') ''web'' ''prod''] \<rparr>"

definition example_world :: "(unit, unit cluster) world" where
  "example_world = \<lparr> objHeap = example_heap3, nextRef = 3, remote = example_cluster, cache = [] \<rparr>"

theorem Get_once_witness:
  "let ident = ObjectMetadata ''web'' ''prod'' [] ''Service'';
       (res, w') = Get cluster_mapper cluster_client ident example_world
   in Get cluster_mapper cluster_client ident w' = (res, w')"
proof -
  let ?id = "ObjectMetadata ''web'' ''prod'' [] ''Service''"
  obtain res w' where get: "Get cluster_mapper cluster_client ?id example_world = (res, w')"
    by (rule prod.exhaust)
  have "map_kind cluster_mapper (remote example_world) (GroupKind (Group ?id) (Kind ?id)) [] =
      Inr (cluster_mapping (GroupKind [] ''Service''))"
    by (simp add: cluster_mapper_def example_world_def example_cluster_def serviceGK_def)
  from Get_once [OF get this, of "[]"] get show ?thesis by (simp add: gets_def)
qed



end
