(* ===== verification/Runner_State.thy ===== *)
theory Runner_State
  imports Client_Cache
begin

text \<open>
  \<open>pkg/runner/task.go\<close>, \<open>fakestate.go\<close> and \<open>pkg/client/runner_state.go\<close>: the state a task works
  with, as a record of operations with its contract as a locale, and its two implementations.
  The channel of events is the list of the events sent so far: a reader takes every event.
\<close>

subsection \<open>The interface\<close>

record 'st state_ops =
  SendEvent :: "Event \<Rightarrow> 'st \<Rightarrow> 'st"
  SkipWaitCurrentStatus :: "'st \<Rightarrow> ref \<Rightarrow> bool"

text \<open>Every event that is sent reaches the reader, in order, and nothing else does.\<close>

locale State =
  fixes ops :: "'st state_ops" and log :: "'st \<Rightarrow> Event list"
  assumes log_SendEvent [simp]: "log (SendEvent ops e st) = log st @ [e]"

subsection \<open>The state of an applier run\<close>

record 's RunnerState =
  eventChannel :: "Event list"
  manager :: "'s Manager"

text \<open>
  An event of a nil object would be recorded under the nil key of the map; no task sends one,
  and the model records nothing for it.
\<close>

definition registerEventInManager ::
  "Type \<Rightarrow> EventStatus \<Rightarrow> ref option \<Rightarrow> 's RunnerState \<Rightarrow> 's RunnerState" where
  "registerEventInManager eventType status obj st =
     (case obj of
        None \<Rightarrow> st
      | Some r \<Rightarrow>
          (if eventType = TypeApply \<and> status = EventSuccessful
             then st \<lparr> manager := SetSuccessfullApply r (manager st) \<rparr>
           else if eventType = TypeApply \<and> status = EventFailed
             then st \<lparr> manager := SetFailedApply r (manager st) \<rparr>
           else if eventType = TypeApply \<and> status = EventSkipped
             then st \<lparr> manager := SetSkipped r (manager st) \<rparr>
           else if eventType = TypePrune \<and> status = EventSuccessful
             then st \<lparr> manager := SetSuccessfullDelete r (manager st) \<rparr>
           else if eventType = TypePrune \<and> status = EventFailed
             then st \<lparr> manager := SetFailedDelete r (manager st) \<rparr>
           else st))"

definition RunnerState_SendEvent :: "Event \<Rightarrow> 's RunnerState \<Rightarrow> 's RunnerState" where
  "RunnerState_SendEvent e st =
     (let st' = (case evType e of
          TypeApply \<Rightarrow> registerEventInManager (evType e) (aStatus (evApply e)) (aObject (evApply e)) st
        | TypePrune \<Rightarrow> registerEventInManager (evType e) (pStatus (evPrune e)) (pObject (evPrune e)) st
        | _ \<Rightarrow> st)
      in st' \<lparr> eventChannel := eventChannel st' @ [e] \<rparr>)"

definition RunnerState_SkipWait :: "'s RunnerState \<Rightarrow> ref \<Rightarrow> bool" where
  "RunnerState_SkipWait st obj \<longleftrightarrow> IsFailedApply (manager st) obj \<or> IsSkipped (manager st) obj"

definition RunnerState_ops :: "'s RunnerState state_ops" where
  "RunnerState_ops = \<lparr> SendEvent = RunnerState_SendEvent, SkipWaitCurrentStatus = RunnerState_SkipWait \<rparr>"

subsection \<open>The state of the tests\<close>

record FakeState = SentEvents :: "Event list"

definition FakeState_SendEvent :: "Event \<Rightarrow> FakeState \<Rightarrow> FakeState" where
  "FakeState_SendEvent event st = st \<lparr> SentEvents := SentEvents st @ [event] \<rparr>"

definition FakeState_ops :: "FakeState state_ops" where
  "FakeState_ops = \<lparr> SendEvent = FakeState_SendEvent, SkipWaitCurrentStatus = (\<lambda>st obj. False) \<rparr>"

interpretation runner_state: State RunnerState_ops eventChannel
  by unfold_locales
     (auto simp: RunnerState_ops_def RunnerState_SendEvent_def registerEventInManager_def Let_def
       split: Type.split option.split)

interpretation fake_state: State FakeState_ops SentEvents
  by unfold_locales (simp add: FakeState_ops_def FakeState_SendEvent_def)

subsection \<open>The outcome an event records\<close>

fun apply_outcome :: "EventStatus \<Rightarrow> objectStatus option" where
  "apply_outcome EventSuccessful = Some ApplySuccessfull"
| "apply_outcome EventFailed = Some ApplyFailed"
| "apply_outcome EventSkipped = Some Skipped"
| "apply_outcome _ = None"

fun prune_outcome :: "EventStatus \<Rightarrow> objectStatus option" where
  "prune_outcome EventSuccessful = Some DeleteSuccessfull"
| "prune_outcome EventFailed = Some DeleteFailed"
| "prune_outcome _ = None"

definition event_object :: "Event \<Rightarrow> ref option" where
  "event_object e =
     (case evType e of TypeApply \<Rightarrow> aObject (evApply e) | TypePrune \<Rightarrow> pObject (evPrune e) | _ \<Rightarrow> None)"

definition event_outcome :: "Event \<Rightarrow> objectStatus option" where
  "event_outcome e =
     (case evType e of
        TypeApply \<Rightarrow> apply_outcome (aStatus (evApply e))
      | TypePrune \<Rightarrow> prune_outcome (pStatus (evPrune e))
      | _ \<Rightarrow> None)"

text \<open>The outcome of an object in a list of events: that of the last event that has one.\<close>

definition log_outcome :: "objectStatus option \<Rightarrow> Event list \<Rightarrow> ref \<Rightarrow> objectStatus option" where
  "log_outcome start es obj =
     fold (\<lambda>e s. if event_object e = Some obj \<and> event_outcome e \<noteq> None then event_outcome e else s) es start"

lemma log_outcome_append [simp]:
  "log_outcome start (es @ es') obj = log_outcome (log_outcome start es obj) es' obj"
  by (simp add: log_outcome_def)

lemma log_outcome_none: "\<forall>e \<in> set es. event_object e \<noteq> Some obj \<Longrightarrow> log_outcome s es obj = s"
  by (induction es arbitrary: s) (auto simp: log_outcome_def)

lemma apply_outcome_simps:
  "apply_outcome s = (if s = EventSuccessful then Some ApplySuccessfull else if s = EventFailed then Some ApplyFailed
     else if s = EventSkipped then Some Skipped else None)"
  by (cases s) auto

lemma prune_outcome_simps:
  "prune_outcome s = (if s = EventSuccessful then Some DeleteSuccessfull
     else if s = EventFailed then Some DeleteFailed else None)"
  by (cases s) auto

lemma outcome_SendEvent:
  "outcome (manager (SendEvent RunnerState_ops e st)) obj =
    (if event_object e = Some obj \<and> event_outcome e \<noteq> None then event_outcome e else outcome (manager st) obj)"
  by (cases "evType e"; cases "event_object e")
     (simp_all add: RunnerState_ops_def RunnerState_SendEvent_def registerEventInManager_def event_object_def
       event_outcome_def apply_outcome_simps prune_outcome_simps SetSuccessfullApply_def SetFailedApply_def
       SetSkipped_def SetSuccessfullDelete_def SetFailedDelete_def)

lemma SendEvent_wf [simp]:
  "manager_wf (manager st) \<Longrightarrow> manager_wf (manager (SendEvent RunnerState_ops e st))"
  by (auto simp: RunnerState_ops_def RunnerState_SendEvent_def registerEventInManager_def Let_def
      SetSuccessfullApply_def SetFailedApply_def SetSkipped_def SetSuccessfullDelete_def SetFailedDelete_def
      split: Type.split option.split)

lemma SendEvent_startingObjects [simp]:
  "startingObjects (manager (SendEvent RunnerState_ops e st)) = startingObjects (manager st)"
  by (auto simp: RunnerState_ops_def RunnerState_SendEvent_def registerEventInManager_def Let_def
      SetSuccessfullApply_def SetFailedApply_def SetSkipped_def SetSuccessfullDelete_def SetFailedDelete_def
      split: Type.split option.split)

lemma Inventory_setStatus [simp]: "Inventory (setStatus obj s m) = Inventory m"
  by (simp add: setStatus_def)

lemma SendEvent_Inventory [simp]:
  "Inventory (manager (SendEvent RunnerState_ops e st)) = Inventory (manager st)"
  by (auto simp: RunnerState_ops_def RunnerState_SendEvent_def registerEventInManager_def Let_def
      SetSuccessfullApply_def SetFailedApply_def SetSkipped_def SetSuccessfullDelete_def SetFailedDelete_def
      split: Type.split option.split)

text \<open>
  The manager follows the events: sending a list of events leaves each object with the outcome
  that the list gives it.
\<close>

definition send_all :: "'st state_ops \<Rightarrow> Event list \<Rightarrow> 'st \<Rightarrow> 'st" where
  "send_all ops es st = fold (SendEvent ops) es st"

lemma send_all_simps [simp]:
  "send_all ops [] st = st" "send_all ops (e # es) st = send_all ops es (SendEvent ops e st)"
  "send_all ops (es @ es') st = send_all ops es' (send_all ops es st)"
  by (simp_all add: send_all_def)

context State
begin

lemma log_send_all [simp]: "log (send_all ops es st) = log st @ es"
  by (induction es arbitrary: st) simp_all

end

lemma outcome_send_all:
  "outcome (manager (send_all RunnerState_ops es st)) obj = log_outcome (outcome (manager st) obj) es obj"
  by (induction es arbitrary: st) (simp_all add: outcome_SendEvent log_outcome_def)

lemma send_all_wf [simp]:
  "manager_wf (manager st) \<Longrightarrow> manager_wf (manager (send_all RunnerState_ops es st))"
  by (induction es arbitrary: st) simp_all

lemma send_all_startingObjects [simp]:
  "startingObjects (manager (send_all RunnerState_ops es st)) = startingObjects (manager st)"
  by (induction es arbitrary: st) simp_all

lemma send_all_Inventory [simp]:
  "Inventory (manager (send_all RunnerState_ops es st)) = Inventory (manager st)"
  by (induction es arbitrary: st) simp_all

end
