(* ===== verification/Task_Apply.thy ===== *)
theory Task_Apply
  imports Runner_State
begin

text \<open>
  \<open>pkg/runner/task/apply.go\<close>: the task that applies a group of objects with server-side apply,
  and the migration of objects that were applied on the client side before. The REST client,
  the encoder and the upgrade of the managed fields are the fields of \<open>rest_lib\<close>; the warnings
  on the standard error are a list in the state of the process.
\<close>

subsection \<open>Requests\<close>

text \<open>
  A resource info of the library: a name, a namespace, a copy of the object and the mapping the
  client was made for.
\<close>

record 'c info =
  infoName :: string
  infoNamespace :: string
  infoObject :: "'c unstructured"
  infoMapping :: RESTMapping

datatype PatchType = ApplyPatchType | JSONPatchType

record PatchOptions =
  optForce :: "bool option"
  optFieldManager :: string
  optFieldValidation :: string
  optDryRun :: "string list"

text \<open>A request: the namespace is set where the resource is namespaced.\<close>

record 'b request =
  reqType :: PatchType
  reqNamespace :: "string option"
  reqResource :: GroupVersionResource
  reqName :: string
  reqOptions :: PatchOptions
  reqBody :: 'b

record ('c, 'b, 'm, 'w) rest_lib =
  encode :: "'c unstructured \<Rightarrow> go_error + 'b"
  patch :: "'b request \<Rightarrow> 'w \<Rightarrow> (go_error + 'c unstructured) \<times> 'w"
  info_Refresh :: "'c info \<Rightarrow> 'c unstructured \<Rightarrow> 'c info"
  info_Get :: "'c info \<Rightarrow> 'w \<Rightarrow> (go_error + 'c info) \<times> 'w"
  managedFields :: "'c unstructured \<Rightarrow> go_error + 'm"
  findFieldsOwners :: "'m \<Rightarrow> string list"
  upgradeManagedFieldsPatch :: "'c unstructured \<Rightarrow> string list \<Rightarrow> string \<Rightarrow> go_error + 'b option"

text \<open>The state of a process: the remote side, and what was written to the standard error.\<close>

record 'w process =
  procRemote :: 'w
  procStderr :: "string list"

definition maxPatchRetry :: nat where "maxPatchRetry = 5"

definition infoRequest :: "PatchType \<Rightarrow> 'c info \<Rightarrow> PatchOptions \<Rightarrow> 'b \<Rightarrow> 'b request" where
  "infoRequest t i options data =
     \<lparr> reqType = t,
       reqNamespace = (if mapScope (infoMapping i) = RESTScopeNamespace then Some (infoNamespace i) else None),
       reqResource = mapResource (infoMapping i), reqName = infoName i, reqOptions = options, reqBody = data \<rparr>"

definition newline :: string where "newline = [char_of (10::nat)]"

definition warningMigrationPatchFailed :: "string \<Rightarrow> string" where
  "warningMigrationPatchFailed t =
     ''WARNING: server rejected managed fields migration to Server-Side Apply. This is non-fatal and will be retried next time you apply. Error: '' @ t @ newline"

definition warningChangesOnDeletingResource :: "string \<Rightarrow> string" where
  "warningChangesOnDeletingResource t =
     ''WARNING: try to change '' @ t @ '' resource which is currently being deleted.'' @ newline"

definition warningMigrationReapplyFailed :: "string \<Rightarrow> string" where
  "warningMigrationReapplyFailed t =
     ''WARNING: failed to re-apply configuration after performing Server-Side Apply migration. This is non-fatal and will be retried next time you apply. Error: '' @ t @ newline"

definition warn :: "string \<Rightarrow> 'w process \<Rightarrow> 'w process" where
  "warn t p = p \<lparr> procStderr := procStderr p @ [t] \<rparr>"

definition do_patch ::
  "('c, 'b, 'm, 'w) rest_lib \<Rightarrow> 'b request \<Rightarrow> 'w process \<Rightarrow> (go_error + 'c unstructured) \<times> 'w process" where
  "do_patch lib r p = (let (res, w') = patch lib r (procRemote p) in (res, p \<lparr> procRemote := w' \<rparr>))"

definition errorText :: "printers \<Rightarrow> go_error \<Rightarrow> string" where
  "errorText pr err = Error (gvkString pr) (aggregateText pr) err"

subsection \<open>The migration to server-side apply\<close>

text \<open>
  The loop over the attempts that are left; \<open>err\<close> is the error variable, which every call
  overwrites.
\<close>

fun migrateLoop ::
  "('c, 'b, 'm, 'w) rest_lib \<Rightarrow> string list \<Rightarrow> string \<Rightarrow> nat \<Rightarrow> go_error option \<Rightarrow> 'c info \<Rightarrow> 'w process \<Rightarrow>
     (bool \<times> go_error option) \<times> 'c info \<times> 'w process" where
  "migrateLoop lib managerNames fieldManager 0 err i p = ((False, err), i, p)"
| "migrateLoop lib managerNames fieldManager (Suc n) err i p =
     (case upgradeManagedFieldsPatch lib (infoObject i) managerNames fieldManager of
        Inl e \<Rightarrow> ((False, Some e), i, p)
      | Inr None \<Rightarrow> ((False, None), i, p)
      | Inr (Some patchData) \<Rightarrow>
          (let options = \<lparr> optForce = None, optFieldManager = fieldManager, optFieldValidation = [], optDryRun = [] \<rparr> in
           case do_patch lib (infoRequest JSONPatchType i options patchData) p of
             (Inr obj, p') \<Rightarrow> ((True, None), info_Refresh lib i obj, p')
           | (Inl e, p') \<Rightarrow>
               (if \<not> has_reason Conflict e then ((False, Some e), i, p')
                else case info_Get lib i (procRemote p') of
                  (Inl e', w) \<Rightarrow> ((False, Some e'), i, p' \<lparr> procRemote := w \<rparr>)
                | (Inr i', w) \<Rightarrow>
                    migrateLoop lib managerNames fieldManager n None i' (p' \<lparr> procRemote := w \<rparr>))))"

definition migrateToSSAIfNecessary ::
  "('c, 'b, 'm, 'w) rest_lib \<Rightarrow> 'c info \<Rightarrow> string \<Rightarrow> 'w process \<Rightarrow>
     (bool \<times> go_error option) \<times> 'c info \<times> 'w process" where
  "migrateToSSAIfNecessary lib i fieldManager p =
     (case managedFields lib (infoObject i) of
        Inl err \<Rightarrow> ((False, Some err), i, p)
      | Inr mf \<Rightarrow>
          (let managerNames = fold List.insert (findFieldsOwners lib mf) [fieldManager]
           in migrateLoop lib managerNames fieldManager maxPatchRetry None i p))"

subsection \<open>Applying one object\<close>

definition warnIfDeleting :: "'c unstructured \<Rightarrow> 'w process \<Rightarrow> 'w process" where
  "warnIfDeleting obj p =
     (if objDeletionTimestamp obj \<noteq> None then warn (warningChangesOnDeletingResource (objName obj)) p else p)"

definition applyObject ::
  "printers \<Rightarrow> ('c, 'b, 'm, 'w) rest_lib \<Rightarrow> 'c info \<Rightarrow> bool \<Rightarrow> string \<Rightarrow> 'w process \<Rightarrow>
     go_error option \<times> 'w process" where
  "applyObject pr lib i dryRun fieldManager p =
     (let options = \<lparr> optForce = Some True, optFieldManager = fieldManager, optFieldValidation = ''Strict'',
            optDryRun = (if dryRun then [''All''] else []) \<rparr> in
      case encode lib (infoObject i) of
        Inl err \<Rightarrow> (Some err, p)
      | Inr data \<Rightarrow>
          (case do_patch lib (infoRequest ApplyPatchType i options data) p of
             (Inl err, p1) \<Rightarrow>
               (Some (if has_reason UnsupportedMediaType err
                      then Errorf ''server-side apply not available on the server: '' err else err), p1)
           | (Inr obj, p1) \<Rightarrow>
               (let i1 = info_Refresh lib i obj;
                    ((migrated, merr), i2, p2) = migrateToSSAIfNecessary lib i1 fieldManager p1;
                    (i3, p3) =
                      (case merr of
                         Some err \<Rightarrow> (i2, warn (warningMigrationPatchFailed (errorText pr err)) p2)
                       | None \<Rightarrow>
                           (if migrated
                            then (case do_patch lib (infoRequest ApplyPatchType i2 options data) p2 of
                                (Inl err, p3) \<Rightarrow> (i2, warn (warningMigrationReapplyFailed (errorText pr err)) p3)
                              | (Inr _, p3) \<Rightarrow> (i2, p3))
                            else (info_Refresh lib i2 obj, p2)))
                in (None, warnIfDeleting (infoObject i3) p3))))"

subsection \<open>The fetcher of infos\<close>

definition Info :: "'c unstructured \<Rightarrow> RESTMapping \<Rightarrow> 'c info" where
  "Info obj mapping =
     \<lparr> infoName = objName obj, infoNamespace = objNamespace obj, infoObject = obj, infoMapping = mapping \<rparr>"

text \<open>The client for a mapping is made by the factory; the info only keeps the mapping.\<close>

type_synonym ('c, 'w) InfoFetcher = "'c unstructured \<Rightarrow> 'w \<Rightarrow> go_error + 'c info"

definition DefaultInfoFetcherBuilder ::
  "(go_error + 'w rest_mapper) \<Rightarrow> (RESTMapping \<Rightarrow> go_error option) \<Rightarrow> go_error + ('c, 'w) InfoFetcher" where
  "DefaultInfoFetcherBuilder toRESTMapper clientForMapping =
     (case toRESTMapper of
        Inl err \<Rightarrow> Inl err
      | Inr mapper \<Rightarrow>
          Inr (\<lambda>r w.
            let gvk = objGVK r in
            case map_kind mapper w (groupKind gvk) [gvk_version gvk] of
              Inl err \<Rightarrow> Inl err
            | Inr mapping \<Rightarrow>
                (case clientForMapping mapping of
                   Some err \<Rightarrow> Inl err
                 | None \<Rightarrow> Inr (Info r mapping))))"

subsection \<open>The task\<close>

definition applyEvent :: "EventStatus \<Rightarrow> ref \<Rightarrow> go_error option \<Rightarrow> Event" where
  "applyEvent status obj err =
     zeroEvent \<lparr> evType := TypeApply, evApply := \<lparr> aObject = Some obj, aStatus = status, aError = err \<rparr> \<rparr>"

definition skippedEvent :: "ref \<Rightarrow> Event" where
  "skippedEvent obj =
     zeroEvent \<lparr> evType := TypeApply, evApply := \<lparr> aObject = Some obj, aStatus = EventSkipped, aError = None \<rparr> \<rparr>"

text \<open>
  A filter reads the object and may ask the getter, which moves the world of the run. The fields
  of the task are those of the source; the REST client is the one the info fetcher chose.
\<close>

type_synonym ('c, 'w) filter_fn =
  "ref \<Rightarrow> ('c, 'w process) world \<Rightarrow> (bool \<times> go_error option) \<times> ('c, 'w process) world"

record ('c, 'w) ApplyTask =
  applyDryRun :: bool
  applyFieldManager :: string
  applyObjects :: "ref list"
  applyFilters :: "('c, 'w) filter_fn list"
  applyInfoFetcher :: "('c, 'w process) InfoFetcher"

text \<open>The loop over the filters: the event it sends, if the object is filtered.\<close>

fun filterLoop ::
  "('c, 'w) filter_fn list \<Rightarrow> ref \<Rightarrow> ('c, 'w process) world \<Rightarrow> Event option \<times> ('c, 'w process) world" where
  "filterLoop [] obj v = (None, v)"
| "filterLoop (f # fs) obj v =
     (case f obj v of
        ((filtered, Some filterError), v') \<Rightarrow> (Some (applyEvent EventFailed obj (Some filterError)), v')
      | ((filtered, None), v') \<Rightarrow>
          (if filtered then (Some (skippedEvent obj), v') else filterLoop fs obj v'))"

fun ApplyLoop ::
  "printers \<Rightarrow> ('c, 'b, 'm, 'w) rest_lib \<Rightarrow> 'st state_ops \<Rightarrow> ('c, 'w) ApplyTask \<Rightarrow> ref list \<Rightarrow>
     'st \<Rightarrow> ('c, 'w process) world \<Rightarrow> 'st \<times> ('c, 'w process) world" where
  "ApplyLoop pr lib ops t [] st v = (st, v)"
| "ApplyLoop pr lib ops t (obj # objs) st v =
     (case filterLoop (applyFilters t) obj v of
        (Some e, v1) \<Rightarrow> ApplyLoop pr lib ops t objs (SendEvent ops e st) v1
      | (None, v1) \<Rightarrow>
          (let st1 = SendEvent ops (applyEvent EventPending obj None) st in
           case applyInfoFetcher t (objHeap v1 obj) (remote v1) of
             Inl err \<Rightarrow>
               ApplyLoop pr lib ops t objs (SendEvent ops (applyEvent EventFailed obj (Some err)) st1) v1
           | Inr i \<Rightarrow>
               (case applyObject pr lib i (applyDryRun t) (applyFieldManager t) (remote v1) of
                  (Some err, p) \<Rightarrow>
                    (let st2 = SendEvent ops (applyEvent EventFailed obj (Some err)) st1;
                         v2 = v1 \<lparr> remote := p \<rparr>
                     in if has_reason UnsupportedMediaType err then (st2, v2)
                        else ApplyLoop pr lib ops t objs st2 v2)
                | (None, p) \<Rightarrow>
                    ApplyLoop pr lib ops t objs
                      (SendEvent ops (applyEvent EventSuccessful obj None) st1) (v1 \<lparr> remote := p \<rparr>))))"

definition ApplyTask_Run ::
  "printers \<Rightarrow> ('c, 'b, 'm, 'w) rest_lib \<Rightarrow> 'st state_ops \<Rightarrow> ('c, 'w) ApplyTask \<Rightarrow>
     'st \<Rightarrow> ('c, 'w process) world \<Rightarrow> 'st \<times> ('c, 'w process) world" where
  "ApplyTask_Run pr lib ops t st v = ApplyLoop pr lib ops t (applyObjects t) st v"

subsection \<open>The events of the task\<close>

text \<open>
  The logs a group can leave: one object after the other, each filtered with one event or tried
  with a pending and a final one, up to the first failure that says the server has no
  server-side apply.
\<close>

inductive apply_log :: "ref list \<Rightarrow> Event list \<Rightarrow> bool" where
  finished: "apply_log [] []"
| filtered: "apply_log objs es \<Longrightarrow> apply_log (obj # objs) (skippedEvent obj # es)"
| refused: "apply_log objs es \<Longrightarrow> apply_log (obj # objs) (applyEvent EventFailed obj (Some err) # es)"
| failed: "apply_log objs es \<Longrightarrow>
    apply_log (obj # objs) (applyEvent EventPending obj None # applyEvent EventFailed obj (Some err) # es)"
| applied: "apply_log objs es \<Longrightarrow>
    apply_log (obj # objs) (applyEvent EventPending obj None # applyEvent EventSuccessful obj None # es)"
| unsupported: "has_reason UnsupportedMediaType err \<Longrightarrow>
    apply_log (obj # objs) [applyEvent EventPending obj None, applyEvent EventFailed obj (Some err)]"

lemma applyEvent_simps [simp, task_simps]:
  "evType (applyEvent s obj err) = TypeApply" "evType (skippedEvent obj) = TypeApply"
  "event_object (applyEvent s obj err) = Some obj" "event_object (skippedEvent obj) = Some obj"
  "event_outcome (applyEvent s obj err) = apply_outcome s" "event_outcome (skippedEvent obj) = Some Skipped"
  "event_wf (applyEvent s obj err) \<longleftrightarrow> (err \<noteq> None \<longleftrightarrow> s = EventFailed)" "event_wf (skippedEvent obj)"
  by (simp_all add: applyEvent_def skippedEvent_def event_object_def event_outcome_def event_wf_def)

lemma filterLoop_event:
  "filterLoop fs obj v = (Some e, v') \<Longrightarrow>
    e = skippedEvent obj \<or> (\<exists>err. e = applyEvent EventFailed obj (Some err))"
  by (induction fs obj v rule: filterLoop.induct) (auto split: prod.splits option.splits if_splits)

lemma ApplyLoop_log:
  "\<exists>es v'. apply_log objs es \<and> (\<forall>st. ApplyLoop pr lib ops t objs st v = (send_all ops es st, v'))"
proof (induction objs arbitrary: v)
  case Nil
  show ?case using finished by (intro exI [of _ "[]"] exI [of _ v]) simp
next
  case (Cons obj objs)
  obtain fe v1 where filter: "filterLoop (applyFilters t) obj v = (fe, v1)"
    by (rule prod.exhaust)
  show ?case
  proof (cases fe)
    case (Some e)
    obtain es v' where rest: "apply_log objs es" "\<And>st. ApplyLoop pr lib ops t objs st v1 = (send_all ops es st, v')"
      using Cons by blast
    then have "apply_log (obj # objs) (e # es)"
      using filterLoop_event [of _ obj v e v1] filter Some filtered refused by blast
    then show ?thesis
      using filter Some rest(2) by (intro exI [of _ "e # es"] exI [of _ v']) simp
  next
    case None
    show ?thesis
    proof (cases "applyInfoFetcher t (objHeap v1 obj) (remote v1)")
      case (Inl err)
      obtain es v' where rest: "apply_log objs es" "\<And>st. ApplyLoop pr lib ops t objs st v1 = (send_all ops es st, v')"
        using Cons by blast
      show ?thesis
        using filter None Inl rest(2) failed [OF rest(1)]
        by (intro exI [of _ "applyEvent EventPending obj None # applyEvent EventFailed obj (Some err) # es"]
            exI [of _ v']) simp
    next
      case (Inr i)
      obtain res p where call: "applyObject pr lib i (applyDryRun t) (applyFieldManager t) (remote v1) = (res, p)"
        by (rule prod.exhaust)
      obtain es v' where rest: "apply_log objs es"
        "\<And>st. ApplyLoop pr lib ops t objs st (v1 \<lparr> remote := p \<rparr>) = (send_all ops es st, v')"
        using Cons by blast
      show ?thesis
      proof (cases res)
        case None': None
        then show ?thesis
          using filter None Inr call rest(2) applied [OF rest(1)]
          by (intro exI [of _ "applyEvent EventPending obj None # applyEvent EventSuccessful obj None # es"]
              exI [of _ v']) simp
      next
        case (Some err)
        show ?thesis
        proof (cases "has_reason UnsupportedMediaType err")
          case True
          then show ?thesis
            using filter None Inr call Some unsupported
            by (intro exI [of _ "[applyEvent EventPending obj None, applyEvent EventFailed obj (Some err)]"]
                exI [of _ "v1 \<lparr> remote := p \<rparr>"]) simp
        next
          case False
          then show ?thesis
            using filter None Inr call Some rest(2) failed [OF rest(1)]
            by (intro exI [of _ "applyEvent EventPending obj None # applyEvent EventFailed obj (Some err) # es"]
                exI [of _ v']) simp
        qed
      qed
    qed
  qed
qed

definition finals :: "ref \<Rightarrow> Event list \<Rightarrow> Event list" where
  "finals obj es = filter (\<lambda>e. event_object e = Some obj \<and> event_outcome e \<noteq> None) es"

lemma finals_simps [simp]:
  "finals obj [] = []"
  "finals obj (e # es) =
    (if event_object e = Some obj \<and> event_outcome e \<noteq> None then e # finals obj es else finals obj es)"
  by (simp_all add: finals_def)

lemma apply_log_events:
  "apply_log objs es \<Longrightarrow> e \<in> set es \<Longrightarrow>
    event_wf e \<and> evType e = TypeApply \<and> (\<exists>obj \<in> set objs. event_object e = Some obj)"
  by (induction rule: apply_log.induct) auto

lemma apply_log_no_events:
  "apply_log objs es \<Longrightarrow> obj \<notin> set objs \<Longrightarrow> \<forall>e \<in> set es. event_object e \<noteq> Some obj"
  using apply_log_events by fastforce

lemma apply_log_no_finals: "apply_log objs es \<Longrightarrow> obj \<notin> set objs \<Longrightarrow> finals obj es = []"
  using apply_log_no_events by (fastforce simp: finals_def filter_empty_conv)

text \<open>How far a log got: the objects tried and the rest, which is left out after a bail out.\<close>

definition log_split :: "ref list \<Rightarrow> Event list \<Rightarrow> ref list \<Rightarrow> ref list \<Rightarrow> bool" where
  "log_split objs es tried rest \<longleftrightarrow> objs = tried @ rest \<and>
     (\<forall>obj \<in> set tried. length (finals obj es) = 1) \<and>
     (\<forall>obj \<in> set rest. \<forall>e \<in> set es. event_object e \<noteq> Some obj) \<and>
     (rest \<noteq> [] \<longrightarrow> tried \<noteq> [] \<and> es \<noteq> [] \<and>
        (\<exists>err. last es = applyEvent EventFailed (last tried) (Some err) \<and> has_reason UnsupportedMediaType err))"

lemma log_split_Cons:
  assumes "log_split objs es tried rest" and "obj \<notin> set objs" and "finals obj es = []"
    and "new \<noteq> []" and "\<forall>e \<in> set new. event_object e = Some obj" and "length (finals obj new) = 1"
  shows "log_split (obj # objs) (new @ es) (obj # tried) rest"
proof -
  have app: "finals o' (new @ es) = finals o' new @ finals o' es" for o' by (simp add: finals_def)
  have other: "finals o' new = []" if "o' \<noteq> obj" for o'
    using assms(5) that by (auto simp: finals_def filter_empty_conv)
  have objs: "objs = tried @ rest" using assms(1) by (simp add: log_split_def)
  then have "obj \<notin> set tried" "obj \<notin> set rest" using assms(2) by auto
  moreover have "\<forall>o' \<in> set tried. finals o' new = []"
    using other \<open>obj \<notin> set tried\<close> by metis
  ultimately show ?thesis
    using assms app unfolding log_split_def by auto
qed

lemma apply_log_split:
  "apply_log objs es \<Longrightarrow> distinct objs \<Longrightarrow> \<exists>tried rest. log_split objs es tried rest"
proof (induction rule: apply_log.induct)
  case finished
  show ?case by (simp add: log_split_def)
next
  case (filtered objs es obj)
  then obtain tried rest where "log_split objs es tried rest" by auto
  with filtered show ?case
    using log_split_Cons [of objs es tried rest obj "[skippedEvent obj]"] apply_log_no_finals by fastforce
next
  case (refused objs es obj err)
  then obtain tried rest where "log_split objs es tried rest" by auto
  with refused show ?case
    using log_split_Cons [of objs es tried rest obj "[applyEvent EventFailed obj (Some err)]"]
      apply_log_no_finals by fastforce
next
  case (failed objs es obj err)
  then obtain tried rest where "log_split objs es tried rest" by auto
  with failed show ?case
    using log_split_Cons [of objs es tried rest obj
        "[applyEvent EventPending obj None, applyEvent EventFailed obj (Some err)]"]
      apply_log_no_finals by fastforce
next
  case (applied objs es obj)
  then obtain tried rest where "log_split objs es tried rest" by auto
  with applied show ?case
    using log_split_Cons [of objs es tried rest obj
        "[applyEvent EventPending obj None, applyEvent EventSuccessful obj None]"]
      apply_log_no_finals by fastforce
next
  case (unsupported err obj objs)
  then have "log_split (obj # objs)
      [applyEvent EventPending obj None, applyEvent EventFailed obj (Some err)] [obj] objs"
    by (auto simp: log_split_def)
  then show ?case by blast
qed

subsection \<open>What the final events say\<close>

text \<open>
  What the filters say of an object: the first one that filters it or fails decides, and it
  passes if there is none.
\<close>

inductive filter_answer ::
  "('c, 'w) filter_fn list \<Rightarrow> ref \<Rightarrow> ('c, 'w process) world \<Rightarrow> bool \<times> go_error option \<Rightarrow> ('c, 'w process) world \<Rightarrow> bool" where
  passes: "filter_answer [] obj v (False, None) v"
| decides: "f obj v = (answer, v') \<Longrightarrow> answer \<noteq> (False, None) \<Longrightarrow> filter_answer (f # fs) obj v answer v'"
| asks_next: "f obj v = ((False, None), v1) \<Longrightarrow> filter_answer fs obj v1 answer v' \<Longrightarrow> filter_answer (f # fs) obj v answer v'"

text \<open>The final event of an object whose turn comes in the world \<open>v\<close>, and the world it leaves.\<close>

inductive final_for ::
  "printers \<Rightarrow> ('c, 'b, 'm, 'w) rest_lib \<Rightarrow> ('c, 'w) ApplyTask \<Rightarrow> ref \<Rightarrow> ('c, 'w process) world \<Rightarrow> Event \<Rightarrow>
     ('c, 'w process) world \<Rightarrow> bool"
  for pr and lib and t and obj where
  is_filtered: "filter_answer (applyFilters t) obj v (True, None) v' \<Longrightarrow> final_for pr lib t obj v (skippedEvent obj) v'"
| filter_fails: "filter_answer (applyFilters t) obj v (answer, Some err) v' \<Longrightarrow>
    final_for pr lib t obj v (applyEvent EventFailed obj (Some err)) v'"
| no_info: "filter_answer (applyFilters t) obj v (False, None) v' \<Longrightarrow>
    applyInfoFetcher t (objHeap v' obj) (remote v') = Inl err \<Longrightarrow>
    final_for pr lib t obj v (applyEvent EventFailed obj (Some err)) v'"
| is_sent: "filter_answer (applyFilters t) obj v (False, None) v1 \<Longrightarrow>
    applyInfoFetcher t (objHeap v1 obj) (remote v1) = Inr i \<Longrightarrow>
    applyObject pr lib i (applyDryRun t) (applyFieldManager t) (remote v1) = (res, p) \<Longrightarrow>
    final_for pr lib t obj v (applyEvent (if res = None then EventSuccessful else EventFailed) obj res)
      (v1 \<lparr> remote := p \<rparr>)"

text \<open>The final events of objects that are handled one after the other.\<close>

inductive apply_trace ::
  "printers \<Rightarrow> ('c, 'b, 'm, 'w) rest_lib \<Rightarrow> ('c, 'w) ApplyTask \<Rightarrow> ref list \<Rightarrow> ('c, 'w process) world \<Rightarrow> Event list \<Rightarrow>
     ('c, 'w process) world \<Rightarrow> bool"
  for pr and lib and t where
  nothing_left: "apply_trace pr lib t [] v [] v"
| next_object: "final_for pr lib t obj v e v1 \<Longrightarrow> apply_trace pr lib t objs v1 es v' \<Longrightarrow>
    apply_trace pr lib t (obj # objs) v (e # es) v'"

abbreviation final_events :: "Event list \<Rightarrow> Event list" where
  "final_events es \<equiv> filter (\<lambda>e. event_outcome e \<noteq> None) es"

lemma filterLoop_answer:
  "filterLoop fs obj v = (res, v') \<Longrightarrow>
    \<exists>answer. filter_answer fs obj v answer v' \<and>
      res = (case answer of (b, Some err) \<Rightarrow> Some (applyEvent EventFailed obj (Some err))
        | (b, None) \<Rightarrow> if b then Some (skippedEvent obj) else None)"
proof (induction fs obj v rule: filterLoop.induct)
  case (1 obj v)
  then show ?case using passes [of obj v] by (intro exI [of _ "(False, None)"]) simp
next
  case (2 f fs obj v)
  obtain b err v1 where f: "f obj v = ((b, err), v1)" by (metis surj_pair)
  show ?case
  proof (cases "b \<or> err \<noteq> None")
    case True
    then have "filter_answer (f # fs) obj v (b, err) v1" using f by (intro decides) auto
    with True f 2(2) show ?thesis by (intro exI [of _ "(b, err)"]) (cases err, auto)
  next
    case False
    then have "filterLoop fs obj v1 = (res, v')" using f 2(2) by simp
    moreover have pass: "f obj v = ((False, None), v1)" using False f by simp
    ultimately obtain answer where "filter_answer fs obj v1 answer v'"
      "res = (case answer of (b, Some err) \<Rightarrow> Some (applyEvent EventFailed obj (Some err))
        | (b, None) \<Rightarrow> if b then Some (skippedEvent obj) else None)"
      using 2(1) [OF pass [symmetric] refl refl] by auto
    then show ?thesis by (intro exI [of _ answer]) (simp add: asks_next [where f = f, OF pass])
  qed
qed

lemma final_for_event:
  "final_for pr lib t obj v e v' \<Longrightarrow> event_object e = Some obj \<and> event_outcome e \<noteq> None"
  by (induction rule: final_for.induct) auto

text \<open>The loop handles the objects in order until it stops behind the last one that was tried.\<close>

lemma ApplyLoop_trace:
  "\<exists>es tried rest v'. objs = tried @ rest \<and> apply_trace pr lib t tried v (final_events es) v' \<and>
    (\<forall>st. ApplyLoop pr lib ops t objs st v = (send_all ops es st, v'))"
proof (induction objs arbitrary: v)
  case Nil
  show ?case
    by (intro exI [of _ "[]"] exI [of _ v]) (simp add: apply_trace.nothing_left)
next
  case (Cons obj objs)
  have on: "\<exists>es tried rest v'. obj # objs = tried @ rest \<and> apply_trace pr lib t tried v (final_events es) v' \<and>
      (\<forall>st. ApplyLoop pr lib ops t (obj # objs) st v = (send_all ops es st, v'))"
    if final: "final_for pr lib t obj v e v1" and news: "final_events new = [e]"
      and goes_on: "\<And>st. ApplyLoop pr lib ops t (obj # objs) st v = ApplyLoop pr lib ops t objs (send_all ops new st) v1"
    for e new v1
  proof -
    obtain es tried rest v' where IH: "objs = tried @ rest" "apply_trace pr lib t tried v1 (final_events es) v'"
      "\<And>st. ApplyLoop pr lib ops t objs st v1 = (send_all ops es st, v')"
      using Cons by blast
    have "apply_trace pr lib t (obj # tried) v (final_events (new @ es)) v'"
      using next_object [OF final IH(2)] news by simp
    then show ?thesis
      using IH(1) goes_on IH(3) by (intro exI [of _ "new @ es"] exI [of _ "obj # tried"] exI [of _ rest] exI [of _ v']) simp
  qed
  obtain fe v1 where filter: "filterLoop (applyFilters t) obj v = (fe, v1)" by (rule prod.exhaust)
  obtain answer where answer: "filter_answer (applyFilters t) obj v answer v1"
    "fe = (case answer of (b, Some err) \<Rightarrow> Some (applyEvent EventFailed obj (Some err))
      | (b, None) \<Rightarrow> if b then Some (skippedEvent obj) else None)"
    using filterLoop_answer [OF filter] by blast
  obtain b err where ans: "answer = (b, err)" by (rule prod.exhaust)
  consider (failing) e where "err = Some e" | (filtered) "err = None" "b" | (passing) "err = None" "\<not> b"
    by (cases err) auto
  then show ?case
  proof cases
    case failing
    with answer ans filter show ?thesis
      by (intro on [OF filter_fails, where new = "[applyEvent EventFailed obj (Some e)]"]) auto
  next
    case filtered
    with answer ans filter show ?thesis
      by (intro on [OF is_filtered, where new = "[skippedEvent obj]"]) auto
  next
    case passing
    then have pass: "filter_answer (applyFilters t) obj v (False, None) v1" "fe = None" using answer ans by auto
    show ?thesis
    proof (cases "applyInfoFetcher t (objHeap v1 obj) (remote v1)")
      case (Inl e)
      with pass filter show ?thesis
        by (intro on [OF no_info [OF pass(1) Inl],
              where new = "[applyEvent EventPending obj None, applyEvent EventFailed obj (Some e)]"]) auto
    next
      case (Inr i)
      obtain res p where call: "applyObject pr lib i (applyDryRun t) (applyFieldManager t) (remote v1) = (res, p)"
        by (rule prod.exhaust)
      let ?e = "applyEvent (if res = None then EventSuccessful else EventFailed) obj res"
      let ?new = "[applyEvent EventPending obj None, ?e]"
      note final = is_sent [OF pass(1) Inr call]
      show ?thesis
      proof (cases "\<exists>e. res = Some e \<and> has_reason UnsupportedMediaType e")
        case True
        then have "\<forall>st. ApplyLoop pr lib ops t (obj # objs) st v = (send_all ops ?new st, v1 \<lparr> remote := p \<rparr>)"
          using filter pass(2) Inr call by auto
        moreover have "apply_trace pr lib t [obj] v (final_events ?new) (v1 \<lparr> remote := p \<rparr>)"
          using next_object [OF final nothing_left] True by auto
        ultimately show ?thesis by (intro exI [of _ ?new] exI [of _ "[obj]"] exI [of _ objs]) auto
      next
        case False
        then show ?thesis
          using filter pass(2) Inr call by (intro on [OF final, where new = ?new]) (cases res, auto)+
      qed
    qed
  qed
qed

lemma apply_trace_objects:
  "apply_trace pr lib t tried v es v' \<Longrightarrow> map event_object es = map Some tried"
  by (induction rule: apply_trace.induct) (auto dest: final_for_event)

lemma prefixes_equal:
  assumes "a @ b = c @ d" and "distinct (a @ b)" and "set a = set c"
  shows "a = c"
proof -
  have "distinct a" using assms(2) by simp
  moreover have "distinct c" using assms(1,2) by (metis distinct_append)
  ultimately have "length a = length c" using assms(3) by (metis distinct_card)
  with assms(1) show ?thesis by simp
qed

lemma finals_final_events: "finals obj es = filter (\<lambda>e. event_object e = Some obj) (final_events es)"
  by (simp add: finals_def conj_commute)

lemma log_split_tried:
  assumes "log_split objs es tried rest" and "distinct objs" and "objs = tried' @ rest'"
    and "map event_object (final_events es) = map Some tried'"
  shows "tried' = tried"
proof (rule prefixes_equal)
  have objects: "event_object ` set (final_events es) = Some ` set tried'"
    using arg_cong [OF assms(4), of set] by simp
  have "obj \<in> set tried' \<longleftrightarrow> finals obj es \<noteq> []" for obj
  proof -
    have "finals obj es \<noteq> [] \<longleftrightarrow> Some obj \<in> event_object ` set (final_events es)"
      unfolding finals_final_events filter_empty_conv by (metis (no_types, lifting) image_iff)
    then show ?thesis unfolding objects by auto
  qed
  moreover have "obj \<in> set tried \<longleftrightarrow> obj \<in> set objs \<and> finals obj es \<noteq> []" for obj
  proof -
    have parts: "objs = tried @ rest" "\<forall>obj \<in> set tried. length (finals obj es) = 1"
      "\<forall>obj \<in> set rest. \<forall>e \<in> set es. event_object e \<noteq> Some obj"
      using assms(1) by (simp_all add: log_split_def)
    have "finals obj es = []" if "obj \<in> set rest"
      using parts(3) that by (simp add: finals_def filter_empty_conv)
    moreover have "finals obj es \<noteq> []" if "obj \<in> set tried" using parts(2) that by fastforce
    ultimately show ?thesis using parts(1) by auto
  qed
  ultimately show "set tried' = set tried" using assms(3) by auto
  show "tried' @ rest' = tried @ rest" using assms(1,3) by (simp add: log_split_def)
  show "distinct (tried' @ rest')" using assms(2,3) by simp
qed


definition example_rest :: "(unit, unit, unit, nat) rest_lib" where
  "example_rest = \<lparr> encode = (\<lambda>obj. Inr ()),
     patch = (\<lambda>r w. (if reqType r = ApplyPatchType then Inr (example_object (GroupVersionKind [] ''v1'' ''Secret'') ''a'' ''prod'')
       else Inl (LibraryError Conflict ''conflict''), Suc w)),
     info_Refresh = (\<lambda>i obj. i \<lparr> infoObject := obj \<rparr>),
     info_Get = (\<lambda>i w. (Inr i, w)), managedFields = (\<lambda>obj. Inr ()), findFieldsOwners = (\<lambda>m. [''kubectl'']),
     upgradeManagedFieldsPatch = (\<lambda>obj ms fm. Inr (Some ())) \<rparr>"

definition example_printers :: printers where
  "example_printers = \<lparr> gkString = gk_kind, gvkString = gvk_kind, aggregateText = concat \<rparr>"

definition example_process_world :: "(unit, nat process) world" where
  "example_process_world = \<lparr> objHeap = example_heap3, nextRef = 3,
     remote = \<lparr> procRemote = 0, procStderr = [] \<rparr>, cache = [] \<rparr>"

definition example_task :: "(unit, nat) ApplyTask" where
  "example_task = \<lparr> applyDryRun = False, applyFieldManager = ''jpl'', applyObjects = [0, 1],
     applyFilters = [\<lambda>r v. ((r = 1, None), v)],
     applyInfoFetcher = (\<lambda>obj w. Inr (Info obj (cluster_mapping (objGK obj)))) \<rparr>"


subsection \<open>Migrations\<close>



text \<open>The requests sent so far, counted in the state of the remote side.\<close>

definition counts_requests :: "('c, 'b, 'm, 'w) rest_lib \<Rightarrow> ('w \<Rightarrow> nat) \<Rightarrow> bool" where
  "counts_requests lib count \<longleftrightarrow>
     (\<forall>r w. count (snd (patch lib r w)) = Suc (count w)) \<and> (\<forall>i w. count (snd (info_Get lib i w)) = count w)"

lemma do_patch_count:
  "counts_requests lib count \<Longrightarrow> do_patch lib r p = (res, p') \<Longrightarrow>
    count (procRemote p') = Suc (count (procRemote p))"
  unfolding counts_requests_def do_patch_def Let_def
  by (metis (mono_tags, lifting) Pair_inject process.select_convs(1) process.surjective
      process.update_convs(1) split_beta)

lemma info_Get_count:
  "counts_requests lib count \<Longrightarrow> info_Get lib i w = (res, w') \<Longrightarrow> count w' = count w"
  unfolding counts_requests_def by (metis snd_conv)

lemma migrateLoop_count:
  "counts_requests lib count \<Longrightarrow> migrateLoop lib ms fm n err i p = (res, i', p') \<Longrightarrow>
    count (procRemote p') \<le> count (procRemote p) + n"
proof (induction lib ms fm n err i p rule: migrateLoop.induct)
  case (2 lib ms fm n err i p)
  show ?case
  proof (cases "upgradeManagedFieldsPatch lib (infoObject i) ms fm")
    case (Inl e)
    with 2(3) show ?thesis by simp
  next
    case (Inr d)
    show ?thesis
    proof (cases d)
      case None
      with Inr 2(3) show ?thesis by simp
    next
      case (Some data)
      let ?o = "\<lparr> optForce = None, optFieldManager = fm, optFieldValidation = [], optDryRun = [] \<rparr>"
      obtain r p1 where call: "do_patch lib (infoRequest JSONPatchType i ?o data) p = (r, p1)"
        by (rule prod.exhaust)
      note one = do_patch_count [OF 2(2) call]
      show ?thesis
      proof (cases "\<exists>e. r = Inl e \<and> has_reason Conflict e")
        case True
        then obtain e where e: "r = Inl e" "has_reason Conflict e" by blast
        obtain g w where get: "info_Get lib i (procRemote p1) = (g, w)" by (rule prod.exhaust)
        note same = info_Get_count [OF 2(2) get]
        show ?thesis
        proof (cases g)
          case (Inl e')
          with 2(3) Inr Some call e get one same show ?thesis by auto
        next
          case (Inr i2)
          with 2(3) \<open>upgradeManagedFieldsPatch lib _ _ _ = _\<close> Some call e get
          have "migrateLoop lib ms fm n None i2 (p1 \<lparr> procRemote := w \<rparr>) = (res, i', p')" by simp
          with 2(1) [OF \<open>upgradeManagedFieldsPatch lib _ _ _ = _\<close> Some _ call [symmetric] e(1)] e get Inr one same 2(2)
          show ?thesis by fastforce
        qed
      next
        case False
        with 2(3) Inr Some call one show ?thesis by (cases r) auto
      qed
    qed
  qed
qed simp

lemma migrateToSSA_count:
  assumes "counts_requests lib count" and "migrateToSSAIfNecessary lib i fm p = (res, i', p')"
  shows "count (procRemote p') \<le> count (procRemote p) + maxPatchRetry"
  using assms migrateLoop_count [OF assms(1)]
  by (auto simp: migrateToSSAIfNecessary_def Let_def split: sum.splits)

lemma warn_remote [simp]: "procRemote (warn t p) = procRemote p"
  by (simp add: warn_def)

lemma warnIfDeleting_remote [simp]: "procRemote (warnIfDeleting obj p) = procRemote p"
  by (simp add: warnIfDeleting_def)

lemma applyObject_tail:
  assumes "counts_requests lib count" and "applyObject pr lib i dryRun fm p = (None, p')"
  shows "count (procRemote p') \<le> count (procRemote p) + maxPatchRetry + 2"
proof -
  let ?o = "\<lparr> optForce = Some True, optFieldManager = fm, optFieldValidation = ''Strict'',
    optDryRun = (if dryRun then [''All''] else []) \<rparr>"
  obtain data where data: "encode lib (infoObject i) = Inr data"
    using assms(2) by (cases "encode lib (infoObject i)") (auto simp: applyObject_def)
  obtain r p1 where first: "do_patch lib (infoRequest ApplyPatchType i ?o data) p = (r, p1)"
    by (rule prod.exhaust)
  obtain obj where obj: "r = Inr obj"
    using assms(2) data first by (cases r) (auto simp: applyObject_def Let_def)
  obtain migrated merr i2 p2
    where migrate: "migrateToSSAIfNecessary lib (info_Refresh lib i obj) fm p1 = ((migrated, merr), i2, p2)"
    by (metis surj_pair)
  obtain r3 p3 where second: "do_patch lib (infoRequest ApplyPatchType i2 ?o data) p2 = (r3, p3)"
    by (rule prod.exhaust)
  have "procRemote p' = procRemote p2 \<or> procRemote p' = procRemote p3"
    using assms(2) data first obj migrate second
    by (cases r3) (auto simp: applyObject_def Let_def split: option.splits if_splits)
  then show ?thesis
    using do_patch_count [OF assms(1) first] do_patch_count [OF assms(1) second]
      migrateToSSA_count [OF assms(1) migrate] by auto
qed



end
