(* ===== verification/Task_Prune.thy ===== *)
theory Task_Prune
  imports Task_Apply
begin

text \<open>
  \<open>pkg/runner/task/prune.go\<close> and \<open>inventory.go\<close>: the task that deletes the objects that left
  the manifests, and the one that saves the inventory.
\<close>

subsection \<open>Pruning\<close>

record PruneTask =
  pruneDryRun :: bool
  pruneFieldManager :: string
  pruneTaskObjects :: "ref list"

definition pruneEvent :: "EventStatus \<Rightarrow> ref \<Rightarrow> go_error option \<Rightarrow> Event" where
  "pruneEvent status obj err =
     zeroEvent \<lparr> evType := TypePrune, evPrune := \<lparr> pObject = Some obj, pStatus = status, pError = err \<rparr> \<rparr>"

text \<open>The options of a delete: the propagation policy, and whether it is a dry run.\<close>

definition pruneObject ::
  "'w rest_mapper \<Rightarrow> ('c, 'w) dynamic_client \<Rightarrow> 'c unstructured \<Rightarrow> bool \<Rightarrow> 'w \<Rightarrow> go_error option \<times> 'w" where
  "pruneObject mapper client obj dryRun w =
     (case map_kind mapper w (objGK obj) [] of
        Inl err \<Rightarrow> (Some err, w)
      | Inr mapping \<Rightarrow>
          dyn_Delete client (mapResource mapping) (objNamespace obj) (objName obj)
            \<lparr> propagationPolicy = ''Foreground'', deleteDryRun = dryRun \<rparr> w)"

fun PruneLoop ::
  "'w rest_mapper \<Rightarrow> ('c, 'w) dynamic_client \<Rightarrow> 'st state_ops \<Rightarrow> bool \<Rightarrow> ref list \<Rightarrow>
     'st \<Rightarrow> ('c, 'w) world \<Rightarrow> 'st \<times> ('c, 'w) world" where
  "PruneLoop mapper client ops dryRun [] st v = (st, v)"
| "PruneLoop mapper client ops dryRun (obj # objs) st v =
     (let st1 = SendEvent ops (pruneEvent EventPending obj None) st in
      case pruneObject mapper client (objHeap v obj) dryRun (remote v) of
        (Some err, w) \<Rightarrow>
          PruneLoop mapper client ops dryRun objs
            (if \<not> has_reason NotFound err then SendEvent ops (pruneEvent EventFailed obj (Some err)) st1 else st1)
            (v \<lparr> remote := w \<rparr>)
      | (None, w) \<Rightarrow>
          PruneLoop mapper client ops dryRun objs (SendEvent ops (pruneEvent EventSuccessful obj None) st1)
            (v \<lparr> remote := w \<rparr>))"

definition PruneTask_Run ::
  "'w rest_mapper \<Rightarrow> ('c, 'w) dynamic_client \<Rightarrow> 'st state_ops \<Rightarrow> PruneTask \<Rightarrow>
     'st \<Rightarrow> ('c, 'w) world \<Rightarrow> 'st \<times> ('c, 'w) world" where
  "PruneTask_Run mapper client ops t st v = PruneLoop mapper client ops (pruneDryRun t) (pruneTaskObjects t) st v"

lemma pruneEvent_simps [simp, task_simps]:
  "evType (pruneEvent s obj err) = TypePrune" "event_object (pruneEvent s obj err) = Some obj"
  "event_outcome (pruneEvent s obj err) = prune_outcome s"
  "event_wf (pruneEvent s obj err) \<longleftrightarrow> (err \<noteq> None \<longleftrightarrow> s = EventFailed)"
  by (simp_all add: pruneEvent_def event_object_def event_outcome_def event_wf_def)

text \<open>The answers to the deletes of a list of objects, one after the other.\<close>

fun prune_answers ::
  "'w rest_mapper \<Rightarrow> ('c, 'w) dynamic_client \<Rightarrow> 'c unstructured heap \<Rightarrow> bool \<Rightarrow> ref list \<Rightarrow> 'w \<Rightarrow> go_error option list" where
  "prune_answers mapper client h dryRun [] w = []"
| "prune_answers mapper client h dryRun (obj # objs) w =
     (let (res, w') = pruneObject mapper client (h obj) dryRun w
      in res # prune_answers mapper client h dryRun objs w')"

definition prune_events :: "ref \<Rightarrow> go_error option \<Rightarrow> Event list" where
  "prune_events obj res =
     pruneEvent EventPending obj None #
     (case res of
        None \<Rightarrow> [pruneEvent EventSuccessful obj None]
      | Some err \<Rightarrow> if has_reason NotFound err then [] else [pruneEvent EventFailed obj (Some err)])"

definition prune_result :: "objectStatus option \<Rightarrow> go_error option \<Rightarrow> objectStatus option" where
  "prune_result old res =
     (case res of
        None \<Rightarrow> Some DeleteSuccessfull
      | Some err \<Rightarrow> if has_reason NotFound err then old else Some DeleteFailed)"

lemma length_prune_answers [simp]: "length (prune_answers mapper client h dryRun objs w) = length objs"
  by (induction objs arbitrary: w) (auto split: prod.splits)

lemma PruneLoop_send_all:
  "fst (PruneLoop mapper client ops dryRun objs st v) =
    send_all ops (concat (map2 prune_events objs (prune_answers mapper client (objHeap v) dryRun objs (remote v)))) st"
proof (induction objs arbitrary: st v)
  case (Cons obj objs)
  obtain res w where "pruneObject mapper client (objHeap v obj) dryRun (remote v) = (res, w)"
    by (rule prod.exhaust)
  then show ?case using Cons.IH by (simp add: prune_events_def split: option.split)
qed simp

lemma prune_events_other [simp]:
  "obj' \<noteq> obj \<Longrightarrow> log_outcome s (prune_events obj res) obj' = s"
  by (rule log_outcome_none) (auto simp: prune_events_def split: option.splits if_splits)

lemma prune_events_same: "log_outcome s (prune_events obj res) obj = prune_result s res"
  by (simp add: log_outcome_def prune_events_def prune_result_def split: option.split)

lemma prune_events_rest:
  "obj \<notin> set objs \<Longrightarrow> length objs = length rs \<Longrightarrow>
    log_outcome s (concat (map2 prune_events objs rs)) obj = s"
proof (induction objs rs arbitrary: s rule: list_induct2')
  case (4 o' objs r rs)
  then show ?case by simp
qed (auto simp: log_outcome_def)

lemma prune_outcomes:
  "distinct objs \<Longrightarrow> length objs = length rs \<Longrightarrow> (obj, res) \<in> set (zip objs rs) \<Longrightarrow>
    log_outcome s (concat (map2 prune_events objs rs)) obj = prune_result s res"
proof (induction objs rs arbitrary: s rule: list_induct2')
  case (4 o' objs r rs)
  show ?case
  proof (cases "o' = obj")
    case True
    then have "obj \<notin> set objs" using 4(2) by simp
    moreover then have "r = res" using 4(4) True by (auto dest: set_zip_leftD)
    ultimately show ?thesis using True 4(3) by (simp add: prune_events_same prune_events_rest)
  next
    case False
    then show ?thesis using 4 by auto
  qed
qed auto

text \<open>
  C19: Pruning distinct objects sends for each a pending event and then a successful or a
  failed one, or none where the server says that the object is gone already; and the manager
  ends with the deleted objects as deleted, those the server refused to delete as failed, so
  that the inventory keeps them, and the rest with the outcome they had before.
\<close>

theorem prune_task_outcomes:
  assumes "distinct (pruneTaskObjects t)"
    and "PruneTask_Run mapper client RunnerState_ops t st v = (st', v')"
    and "answers = prune_answers mapper client (objHeap v) (pruneDryRun t) (pruneTaskObjects t) (remote v)"
  shows "eventChannel st' = eventChannel st @ concat (map2 prune_events (pruneTaskObjects t) answers) \<and>
    (\<forall>(obj, res) \<in> set (zip (pruneTaskObjects t) answers).
       outcome (manager st') obj = prune_result (outcome (manager st) obj) res) \<and>
    (\<forall>obj. obj \<notin> set (pruneTaskObjects t) \<longrightarrow> outcome (manager st') obj = outcome (manager st) obj)"
proof -
  have len: "length (pruneTaskObjects t) = length answers" by (simp add: assms(3))
  have "st' = send_all RunnerState_ops (concat (map2 prune_events (pruneTaskObjects t) answers)) st"
    using PruneLoop_send_all [of mapper client RunnerState_ops "pruneDryRun t" "pruneTaskObjects t" st v] assms(2,3)
    by (simp add: PruneTask_Run_def)
  then show ?thesis
    using prune_outcomes [OF assms(1) len] prune_events_rest [OF _ len]
    by (auto simp: runner_state.log_send_all outcome_send_all)
qed

theorem prune_task_outcomes_witness:
  "let w = example_world \<lparr> objHeap := (\<lambda>r. example_object (GroupVersionKind [] ''v1'' ''Service'') ''web'' ''prod'') \<rparr>;
       (st', w') = PruneTask_Run cluster_mapper cluster_client RunnerState_ops
         \<lparr> pruneDryRun = False, pruneFieldManager = ''jpl'', pruneTaskObjects = [0] \<rparr>
         \<lparr> eventChannel = [], manager = NewManager example_store [] \<rparr> w
   in outcome (manager st') 0 = Some DeleteSuccessfull"
proof -
  let ?w = "example_world \<lparr> objHeap := (\<lambda>r. example_object (GroupVersionKind [] ''v1'' ''Service'') ''web'' ''prod'') \<rparr>"
  let ?t = "\<lparr> pruneDryRun = False, pruneFieldManager = ''jpl'', pruneTaskObjects = [0] \<rparr>"
  let ?st = "\<lparr> eventChannel = [], manager = NewManager example_store [] \<rparr>"
  let ?answers = "prune_answers cluster_mapper cluster_client (objHeap ?w) (pruneDryRun ?t) (pruneTaskObjects ?t) (remote ?w)"
  obtain st' w' where run: "PruneTask_Run cluster_mapper cluster_client RunnerState_ops ?t ?st ?w = (st', w')"
    by (rule prod.exhaust)
  have answers: "?answers = [None]"
    by (simp add: pruneObject_def cluster_mapper_def cluster_client_def cluster_Delete_def example_world_def
        example_cluster_def cluster_mapping_def ObjectMetadata_inject_parts example_object_def objGK_def
        groupKind_def serviceGK_def)
  have "distinct (pruneTaskObjects ?t)" by simp
  from prune_task_outcomes [OF this run refl] have "outcome (manager st') 0 = Some DeleteSuccessfull"
    unfolding answers by (simp add: prune_result_def)
  with run show ?thesis by simp
qed

subsection \<open>Saving the inventory\<close>

definition inventoryEvent :: "EventStatus \<Rightarrow> go_error option \<Rightarrow> Event" where
  "inventoryEvent status err =
     zeroEvent \<lparr> evType := TypeInventory, evInventory := \<lparr> iStatus = status, iError = err \<rparr> \<rparr>"

text \<open>The manager of the task is the one that the state records the outcomes in.\<close>

definition InventoryTask_Run ::
  "('c, 's, 'w) store_ops \<Rightarrow> bool \<Rightarrow> 's RunnerState \<Rightarrow> ('c, 'w) world \<Rightarrow> 's RunnerState \<times> ('c, 'w) world" where
  "InventoryTask_Run store dryRun st v =
     (let st1 = SendEvent RunnerState_ops (inventoryEvent EventPending None) st;
          (res, m, w) = SaveCurrentInventoryState store (objHeap v) dryRun (manager st1) (remote v);
          st2 = st1 \<lparr> manager := m \<rparr>; v' = v \<lparr> remote := w \<rparr>
      in case res of
           Some err \<Rightarrow> (SendEvent RunnerState_ops (inventoryEvent EventFailed (Some err)) st2, v')
         | None \<Rightarrow> (SendEvent RunnerState_ops (inventoryEvent EventSuccessful None) st2, v'))"

lemma inventoryEvent_simps [simp, task_simps]:
  "evType (inventoryEvent s err) = TypeInventory" "event_object (inventoryEvent s err) = None"
  "event_outcome (inventoryEvent s err) = None"
  "event_wf (inventoryEvent s err) \<longleftrightarrow> (err \<noteq> None \<longleftrightarrow> s = EventFailed)"
  by (simp_all add: inventoryEvent_def event_object_def event_outcome_def event_wf_def)

lemma InventoryTask_Run_result:
  assumes "SaveCurrentInventoryState store (objHeap v) dryRun
      (manager (SendEvent RunnerState_ops (inventoryEvent EventPending None) st)) (remote v) = (res, m, w)"
  shows "InventoryTask_Run store dryRun st v =
    (SendEvent RunnerState_ops
       (inventoryEvent (if res = None then EventSuccessful else EventFailed) res)
       (SendEvent RunnerState_ops (inventoryEvent EventPending None) st \<lparr> manager := m \<rparr>),
     v \<lparr> remote := w \<rparr>)"
  using assms by (simp add: InventoryTask_Run_def Let_def split: option.split)

end
