(* ===== verification/Task_Wait.thy ===== *)
theory Task_Wait
  imports Task_Prune
begin

text \<open>
  \<open>pkg/runner/task/wait.go\<close>: the task that waits for a group of objects to be reported as
  ready by the poller. The channel of the poller is the list of its messages with a flag that
  says whether it is closed behind them; if it is not, a reader blocks there.
\<close>

subsection \<open>The task\<close>

datatype wait_end = ChannelClosed | AllReady | Blocked

definition succeeded :: "Event \<Rightarrow> bool" where
  "succeeded msg \<longleftrightarrow> evType msg = TypeStatusUpdate \<and> uStatus (evStatusUpdate msg) = EventSuccessful"

abbreviation update_of :: "Event \<Rightarrow> ObjectMetadata" where
  "update_of msg \<equiv> uMetadata (evStatusUpdate msg)"

text \<open>The loop over the messages: \<open>objectsToWatch\<close> and \<open>resetMapper\<close> are its variables.\<close>

fun WaitLoop ::
  "'st state_ops \<Rightarrow> bool \<Rightarrow> Event list \<Rightarrow> ObjectMetadata list \<Rightarrow> bool \<Rightarrow> 'st \<Rightarrow>
     'st \<times> ObjectMetadata list \<times> bool \<times> wait_end" where
  "WaitLoop ops closed [] objectsToWatch resetMapper st =
     (st, objectsToWatch, resetMapper, if closed then ChannelClosed else Blocked)"
| "WaitLoop ops closed (msg # msgs) objectsToWatch resetMapper st =
     (if update_of msg \<notin> set objectsToWatch
      then WaitLoop ops closed msgs objectsToWatch resetMapper st
      else
        (let st1 = SendEvent ops msg st;
             watch1 = (if succeeded msg then removeAll (update_of msg) objectsToWatch else objectsToWatch);
             reset1 = (if succeeded msg \<and> MetadataIsCRD (update_of msg) then True else resetMapper)
         in if length watch1 = 0 then (st1, watch1, reset1, AllReady)
            else WaitLoop ops closed msgs watch1 reset1 st1))"

definition pollerObjects :: "'st state_ops \<Rightarrow> 'st \<Rightarrow> ref list \<Rightarrow> ref list" where
  "pollerObjects ops st objs = filter (\<lambda>obj. \<not> SkipWaitCurrentStatus ops st obj) objs"

definition watchedIds :: "'c unstructured heap \<Rightarrow> ref list \<Rightarrow> ObjectMetadata list" where
  "watchedIds h objs = fold (\<lambda>obj. List.insert (metadata_of h obj)) objs []"

text \<open>
  \<open>start\<close> is \<open>Poller.Start\<close>: the messages for the objects it is given. The result says how
  the wait ended; without objects to wait for the poller is not started.
\<close>

definition WaitTask_Run ::
  "'w rest_mapper \<Rightarrow> (ref list \<Rightarrow> Event list \<times> bool) \<Rightarrow> 'st state_ops \<Rightarrow> ref list \<Rightarrow>
     'st \<Rightarrow> ('c, 'w) world \<Rightarrow> 'st \<times> ('c, 'w) world \<times> wait_end option" where
  "WaitTask_Run mapper start ops objs st v =
     (let polled = pollerObjects ops st objs in
      if length polled = 0 then (st, v, None)
      else
        (let (msgs, closed) = start polled;
             (st', watch, resetMapper, how) = WaitLoop ops closed msgs (watchedIds (objHeap v) polled) False st
         in (st', if how \<noteq> Blocked \<and> resetMapper then v \<lparr> remote := reset_mapper mapper (remote v) \<rparr> else v, Some how)))"

subsection \<open>When the wait ends\<close>

definition ready_ids :: "Event list \<Rightarrow> ObjectMetadata set" where
  "ready_ids msgs = update_of ` {msg \<in> set msgs. succeeded msg}"

lemma ready_ids_simps [simp]:
  "ready_ids [] = {}"
  "ready_ids (msg # msgs) = (if succeeded msg then insert (update_of msg) (ready_ids msgs) else ready_ids msgs)"
  by (auto simp: ready_ids_def)

lemma WaitLoop_end:
  "watch \<noteq> [] \<Longrightarrow> WaitLoop ops closed msgs watch reset st = (st', watch', reset', how) \<Longrightarrow>
    (how = AllReady \<longleftrightarrow> set watch \<subseteq> ready_ids msgs) \<and>
    (how = ChannelClosed \<longleftrightarrow> closed \<and> \<not> set watch \<subseteq> ready_ids msgs) \<and>
    set watch' = set watch - ready_ids msgs"
proof (induction ops closed msgs watch reset st rule: WaitLoop.induct)
  case (2 ops closed msg msgs watch reset st)
  show ?case
  proof (cases "update_of msg \<notin> set watch")
    case True
    then have "WaitLoop ops closed msgs watch reset st = (st', watch', reset', how)" using 2(4) by simp
    from 2(1) [OF True 2(3) this] True show ?thesis by auto
  next
    case False
    let ?watch = "if succeeded msg then removeAll (update_of msg) watch else watch"
    show ?thesis
    proof (cases "?watch = []")
      case True
      then have "succeeded msg" "set watch \<subseteq> {update_of msg}"
        using 2(3) by (auto split: if_splits simp: removeAll_filter_not_eq filter_empty_conv)
      with True False 2(4) show ?thesis by (auto simp: Let_def split: if_splits)
    next
      case rest: False
      let ?reset = "if succeeded msg \<and> MetadataIsCRD (update_of msg) then True else reset"
      have step: "WaitLoop ops closed msgs ?watch ?reset (SendEvent ops msg st) = (st', watch', reset', how)"
        using False rest 2(4) by (simp add: Let_def)
      have "length ?watch \<noteq> 0" using rest by simp
      from 2(2) [OF False refl refl refl this rest step] False show ?thesis
        by (auto split: if_splits)
    qed
  qed
qed (auto split: if_splits)

text \<open>The messages that are passed on.\<close>

fun forwarded :: "Event list \<Rightarrow> ObjectMetadata list \<Rightarrow> Event list" where
  "forwarded [] watch = []"
| "forwarded (msg # msgs) watch =
     (if update_of msg \<notin> set watch then forwarded msgs watch
      else msg # forwarded msgs (if succeeded msg then removeAll (update_of msg) watch else watch))"

lemma forwarded_none [simp]: "forwarded msgs [] = []"
  by (induction msgs) auto

lemma WaitLoop_state:
  "watch \<noteq> [] \<Longrightarrow> fst (WaitLoop ops closed msgs watch reset st) = send_all ops (forwarded msgs watch) st"
proof (induction ops closed msgs watch reset st rule: WaitLoop.induct)
  case (2 ops closed msg msgs watch reset st)
  then show ?case by (cases "update_of msg \<notin> set watch") (auto simp: Let_def)
qed simp

lemma WaitLoop_reset:
  "watch \<noteq> [] \<Longrightarrow> WaitLoop ops closed msgs watch reset st = (st', watch', reset', how) \<Longrightarrow>
    reset' \<longleftrightarrow> reset \<or> (\<exists>e \<in> set (forwarded msgs watch). succeeded e \<and> MetadataIsCRD (update_of e))"
proof (induction ops closed msgs watch reset st rule: WaitLoop.induct)
  case (2 ops closed msg msgs watch reset st)
  show ?case
  proof (cases "update_of msg \<notin> set watch")
    case True
    then have "WaitLoop ops closed msgs watch reset st = (st', watch', reset', how)" using 2(4) by simp
    from 2(1) [OF True 2(3) this] True show ?thesis by simp
  next
    case False
    let ?watch = "if succeeded msg then removeAll (update_of msg) watch else watch"
    let ?reset = "if succeeded msg \<and> MetadataIsCRD (update_of msg) then True else reset"
    show ?thesis
    proof (cases "?watch = []")
      case True
      with False 2(4) show ?thesis by (auto simp: Let_def split: if_splits)
    next
      case rest: False
      have step: "WaitLoop ops closed msgs ?watch ?reset (SendEvent ops msg st) = (st', watch', reset', how)"
        using False rest 2(4) by (simp add: Let_def)
      have "length ?watch \<noteq> 0" using rest by simp
      from 2(2) [OF False refl refl refl this rest step] False show ?thesis
        by (auto split: if_splits)
    qed
  qed
qed simp

lemma forwarded_watched: "msg \<in> set (forwarded msgs watch) \<Longrightarrow> msg \<in> set msgs \<and> update_of msg \<in> set watch"
  by (induction msgs watch rule: forwarded.induct) (auto split: if_splits)

lemma forwarded_last:
  "forwarded msgs watch = pre @ msg # post \<Longrightarrow> succeeded msg \<Longrightarrow> \<forall>e \<in> set post. update_of e \<noteq> update_of msg"
proof (induction msgs watch arbitrary: pre rule: forwarded.induct)
  case (2 m msgs watch)
  show ?case
  proof (cases "update_of m \<notin> set watch")
    case False
    let ?watch = "if succeeded m then removeAll (update_of m) watch else watch"
    have parts: "m # forwarded msgs ?watch = pre @ msg # post" using 2(3) False by simp
    show ?thesis
    proof (cases pre)
      case Nil
      then have "m = msg" "post = forwarded msgs ?watch" using parts by auto
      then show ?thesis using 2(4) forwarded_watched by fastforce
    next
      case (Cons p ps)
      then show ?thesis using 2(2) [of ps] False parts 2(4) by auto
    qed
  qed (use 2 in auto)
qed auto

lemma watchedIds_set [simp]: "set (watchedIds h objs) = metadata_of h ` set objs"
proof -
  have "set (fold (\<lambda>obj. List.insert (metadata_of h obj)) objs acc) = set acc \<union> metadata_of h ` set objs" for acc
    by (induction objs arbitrary: acc) auto
  then show ?thesis by (simp add: watchedIds_def)
qed

lemma WaitTask_Run_how:
  assumes "WaitTask_Run mapper start RunnerState_ops objs st v = (st', v', Some how)"
    and "start (pollerObjects RunnerState_ops st objs) = (msgs, closed)"
  shows "(how = AllReady \<longleftrightarrow>
      metadata_of (objHeap v) ` set (pollerObjects RunnerState_ops st objs) \<subseteq> ready_ids msgs) \<and>
    (how = ChannelClosed \<longleftrightarrow> closed \<and>
      \<not> metadata_of (objHeap v) ` set (pollerObjects RunnerState_ops st objs) \<subseteq> ready_ids msgs)"
proof -
  let ?watch = "watchedIds (objHeap v) (pollerObjects RunnerState_ops st objs)"
  have nonempty: "pollerObjects RunnerState_ops st objs \<noteq> []"
    using assms(1) by (auto simp: WaitTask_Run_def Let_def)
  then have watch: "?watch \<noteq> []"
    using watchedIds_set by (metis image_is_empty set_empty)
  obtain st'' watch' reset' how' where loop:
    "WaitLoop RunnerState_ops closed msgs ?watch False st = (st'', watch', reset', how')"
    by (metis surj_pair)
  then have "how = how'"
    using assms nonempty by (simp add: WaitTask_Run_def Let_def split: prod.splits)
  with WaitLoop_end [OF watch loop] show ?thesis by simp
qed

lemmas WaitTask_Run_ready = WaitTask_Run_how [THEN conjunct1, THEN iffD1, OF _ _ refl]

lemma WaitTask_Run_forwards:
  assumes "WaitTask_Run mapper start RunnerState_ops objs st v = (st', v', Some how)"
    and "start (pollerObjects RunnerState_ops st objs) = (msgs, closed)"
    and "es = forwarded msgs (watchedIds (objHeap v) (pollerObjects RunnerState_ops st objs))"
  shows "eventChannel st' = eventChannel st @ es \<and>
    v' = (if how \<noteq> Blocked \<and> (\<exists>e \<in> set es. succeeded e \<and> MetadataIsCRD (update_of e))
          then v \<lparr> remote := reset_mapper mapper (remote v) \<rparr> else v)"
proof -
  let ?polled = "pollerObjects RunnerState_ops st objs"
  let ?watch = "watchedIds (objHeap v) ?polled"
  have "?polled \<noteq> []" using assms(1) by (auto simp: WaitTask_Run_def Let_def)
  then have watch: "?watch \<noteq> []" using watchedIds_set by (metis image_is_empty set_empty)
  obtain st'' watch' reset' how' where loop:
    "WaitLoop RunnerState_ops closed msgs ?watch False st = (st'', watch', reset', how')"
    by (metis surj_pair)
  then have ends: "st' = st''" "how = how'"
    "v' = (if how' \<noteq> Blocked \<and> reset' then v \<lparr> remote := reset_mapper mapper (remote v) \<rparr> else v)"
    using assms(1,2) \<open>?polled \<noteq> []\<close> by (auto simp: WaitTask_Run_def Let_def)
  have "st' = send_all RunnerState_ops es st"
    using WaitLoop_state [OF watch, of RunnerState_ops closed msgs False st] loop ends(1) assms(3) by simp
  then have "eventChannel st' = eventChannel st @ es"
    by (simp add: runner_state.log_send_all)
  then show ?thesis using WaitLoop_reset [OF watch loop] ends assms(3) by simp
qed

lemma forwarded_polled:
  "e \<in> set (forwarded msgs (watchedIds h (pollerObjects ops st objs))) \<Longrightarrow>
    e \<in> set msgs \<and> update_of e \<in> metadata_of h ` set objs"
  by (auto simp: pollerObjects_def dest!: forwarded_watched)

subsection \<open>What a wait relies on\<close>

text \<open>
  The contract of \<open>StatusPoller\<close>: its events are statuses of the objects it was asked to
  observe, and behind them errors, which name no object; and it reports a success only of an
  object whose status it has checked. \<open>reports run ids es\<close> says that the run can have sent
  \<open>es\<close> for the objects \<open>ids\<close>, \<open>confirmed run ident\<close> that it has found the object current.
\<close>

definition statuses_then_errors :: "ObjectMetadata list \<Rightarrow> Event list \<Rightarrow> bool" where
  "statuses_then_errors ids es \<longleftrightarrow> (\<exists>statuses errs. es = statuses @ errs \<and>
     (\<forall>e \<in> set statuses. evType e = TypeStatusUpdate \<and> update_of e \<in> set ids) \<and>
     (\<forall>e \<in> set errs. evType e = TypeError \<and> update_of e = emptyMetadata))"

locale StatusPoller =
  fixes reports :: "'run \<Rightarrow> ObjectMetadata list \<Rightarrow> Event list \<Rightarrow> bool"
    and confirmed :: "'run \<Rightarrow> ObjectMetadata \<Rightarrow> bool"
  assumes reports_ordered: "reports run ids es \<Longrightarrow> statuses_then_errors ids es"
    and reports_confirmed: "reports run ids es \<Longrightarrow> e \<in> set es \<Longrightarrow> succeeded e \<Longrightarrow> confirmed run (update_of e)"

context StatusPoller
begin

lemma wait_confirmed:
  assumes "WaitTask_Run mapper start RunnerState_ops objs st v = (st', v', Some AllReady)"
    and "start (pollerObjects RunnerState_ops st objs) = (es, closed)" and "reports run ids es"
    and "obj \<in> set (pollerObjects RunnerState_ops st objs)"
  shows "confirmed run (metadata_of (objHeap v) obj)"
proof -
  have "metadata_of (objHeap v) obj \<in> ready_ids es"
    using WaitTask_Run_ready [OF assms(1,2)] assms(4) by auto
  then obtain e where "e \<in> set es" "succeeded e" "update_of e = metadata_of (objHeap v) obj"
    by (auto simp: ready_ids_def)
  then show ?thesis using reports_confirmed [OF assms(3)] by metis
qed

text \<open>The errors of a poller never reach the events of the run.\<close>

lemma wait_forwards_statuses:
  assumes "WaitTask_Run mapper start RunnerState_ops objs st v = (st', v', Some how)"
    and "start (pollerObjects RunnerState_ops st objs) = (es, closed)" and "reports run ids es"
    and "emptyMetadata \<notin> metadata_of (objHeap v) ` set objs"
  shows "\<exists>sent. eventChannel st' = eventChannel st @ sent \<and> (\<forall>e \<in> set sent. evType e = TypeStatusUpdate)"
proof -
  let ?sent = "forwarded es (watchedIds (objHeap v) (pollerObjects RunnerState_ops st objs))"
  have "evType e = TypeStatusUpdate" if "e \<in> set ?sent" for e
  proof -
    from forwarded_polled [OF that] assms(4) have "e \<in> set es" "update_of e \<noteq> emptyMetadata" by auto
    then show ?thesis using reports_ordered [OF assms(3)] by (auto simp: statuses_then_errors_def)
  qed
  then show ?thesis using WaitTask_Run_forwards [OF assms(1,2) refl] by blast
qed

end

text \<open>
  C18: A wait that starts ends by itself exactly when every object it polls was reported as
  successful: failures and errors never end it, so that with an object that fails for good the
  task ends only when the poller closes its channel, and blocks while it does not. The objects
  that were skipped or failed to apply are not polled.
\<close>

theorem wait_task_end:
  assumes "WaitTask_Run mapper start RunnerState_ops objs st v = (st', v', Some how)"
    and "polled = {obj \<in> set objs. outcome (manager st) obj \<notin> {Some ApplyFailed, Some Skipped}}"
    and "(msgs, closed) = start (pollerObjects RunnerState_ops st objs)"
  shows "(how = AllReady \<longleftrightarrow> metadata_of (objHeap v) ` polled \<subseteq> ready_ids msgs) \<and>
    (how = ChannelClosed \<longleftrightarrow> closed \<and> \<not> metadata_of (objHeap v) ` polled \<subseteq> ready_ids msgs)"
proof -
  have polled: "set (pollerObjects RunnerState_ops st objs) = polled"
    using assms(2) by (auto simp: pollerObjects_def RunnerState_ops_def RunnerState_SkipWait_def outcome_queries)
  show ?thesis using WaitTask_Run_how [OF assms(1) assms(3) [symmetric]] unfolding polled .
qed

lemma WaitTask_Run_polls:
  assumes "pollerObjects ops st objs \<noteq> []"
  obtains st' v' how where "WaitTask_Run mapper start ops objs st v = (st', v', Some how)"
proof -
  obtain msgs closed where start: "start (pollerObjects ops st objs) = (msgs, closed)" by (rule prod.exhaust)
  obtain st' watch reset how where loop:
    "WaitLoop ops closed msgs (watchedIds (objHeap v) (pollerObjects ops st objs)) False st = (st', watch, reset, how)"
    by (metis surj_pair)
  have "\<exists>v'. WaitTask_Run mapper start ops objs st v = (st', v', Some how)"
    using assms start loop by (simp add: WaitTask_Run_def Let_def)
  with that show ?thesis by blast
qed

definition ready_message :: "ObjectMetadata \<Rightarrow> Event" where
  "ready_message m = zeroEvent \<lparr> evType := TypeStatusUpdate,
     evStatusUpdate := \<lparr> uStatus = EventSuccessful, uMessage = ''Resource is current'', uMetadata = m \<rparr> \<rparr>"

definition example_state :: "configMapStore RunnerState" where
  "example_state = \<lparr> eventChannel = [], manager = SetFailedApply 1 (NewManager example_store []) \<rparr>"

theorem wait_task_end_witness:
  "snd (snd (WaitTask_Run cluster_mapper (\<lambda>objs. (map (\<lambda>r. ready_message (metadata_of example_heap3 r)) objs, False))
      RunnerState_ops [0, 1] example_state example_world)) = Some AllReady"
proof -
  let ?start = "\<lambda>objs. (map (\<lambda>r. ready_message (metadata_of example_heap3 r)) objs, False)"
  have polled: "pollerObjects RunnerState_ops example_state [0, 1] = [0]"
    by (simp add: pollerObjects_def RunnerState_ops_def RunnerState_SkipWait_def outcome_queries example_state_def
        SetFailedApply_def NewManager_def outcome_def setStatus_def)
  obtain st' v' how where run:
    "WaitTask_Run cluster_mapper ?start RunnerState_ops [0, 1] example_state example_world = (st', v', Some how)"
    using polled by (metis WaitTask_Run_polls list.distinct(1))
  have "{obj \<in> set [0, 1]. outcome (manager example_state) obj \<notin> {Some ApplyFailed, Some Skipped}} = {0}"
    by (auto simp: example_state_def SetFailedApply_def NewManager_def outcome_def setStatus_def)
  note result = wait_task_end [OF run refl, unfolded this polled, OF refl]
  have "ready_ids (map (\<lambda>r. ready_message (metadata_of example_heap3 r)) [0]) = {metadata_of example_heap3 0}"
    by (simp add: succeeded_def ready_message_def)
  with result have "how = AllReady" by (simp add: example_world_def)
  with run show ?thesis by simp
qed

text \<open>
  What a wait passes on are the messages about the objects it still waits for, each
  object's up to its first success; the error events of the poller, which name no object, are
  dropped. The mapper is reset exactly when the wait ended after a definition of a custom
  resource became ready.
\<close>

lemma wait_task_events:
  assumes "WaitTask_Run mapper start RunnerState_ops objs st v = (st', v', Some how)"
    and "emptyMetadata \<notin> metadata_of (objHeap v) ` set objs"
  shows "\<exists>es. eventChannel st' = eventChannel st @ es \<and>
    (\<forall>e \<in> set es. e \<in> set (fst (start (pollerObjects RunnerState_ops st objs))) \<and>
       update_of e \<in> metadata_of (objHeap v) ` set objs \<and> update_of e \<noteq> emptyMetadata) \<and>
    (\<forall>pre msg post. es = pre @ msg # post \<longrightarrow> succeeded msg \<longrightarrow> (\<forall>e \<in> set post. update_of e \<noteq> update_of msg)) \<and>
    v' = (if how \<noteq> Blocked \<and> (\<exists>e \<in> set es. succeeded e \<and> MetadataIsCRD (update_of e))
          then v \<lparr> remote := reset_mapper mapper (remote v) \<rparr> else v)"
proof -
  obtain msgs closed where start: "start (pollerObjects RunnerState_ops st objs) = (msgs, closed)"
    by (rule prod.exhaust)
  let ?es = "forwarded msgs (watchedIds (objHeap v) (pollerObjects RunnerState_ops st objs))"
  note sent = WaitTask_Run_forwards [OF assms(1) start refl]
  have "e \<in> set msgs \<and> update_of e \<in> metadata_of (objHeap v) ` set objs \<and> update_of e \<noteq> emptyMetadata"
    if "e \<in> set ?es" for e
    using forwarded_polled [OF that] assms(2) by metis
  moreover have "\<forall>pre msg post. ?es = pre @ msg # post \<longrightarrow> succeeded msg \<longrightarrow>
      (\<forall>e \<in> set post. update_of e \<noteq> update_of msg)"
    using forwarded_last by blast
  ultimately show ?thesis
    unfolding start fst_conv using sent by (intro exI [of _ ?es] conjI) simp_all
qed

text \<open>An error event names no object, so that a wait never passes it on.\<close>

lemma wait_task_events_witness:
  "fst (WaitTask_Run cluster_mapper
      (\<lambda>objs. (zeroEvent # map (\<lambda>r. ready_message (metadata_of example_heap3 r)) objs, False))
      RunnerState_ops [0] \<lparr> eventChannel = [], manager = NewManager example_store [] \<rparr> example_world) \<noteq>
    \<lparr> eventChannel = [zeroEvent], manager = NewManager example_store [] \<rparr>"
proof -
  let ?start = "\<lambda>objs. (zeroEvent # map (\<lambda>r. ready_message (metadata_of example_heap3 r)) objs, False)"
  let ?st = "\<lparr> eventChannel = [], manager = NewManager example_store [] \<rparr>"
  have polled: "pollerObjects RunnerState_ops ?st [0] = [0]"
    by (simp add: pollerObjects_def RunnerState_ops_def RunnerState_SkipWait_def outcome_queries
        NewManager_def outcome_def)
  obtain st' v' how where run:
    "WaitTask_Run cluster_mapper ?start RunnerState_ops [0] ?st example_world = (st', v', Some how)"
    using polled by (metis WaitTask_Run_polls list.distinct(1))
  have "emptyMetadata \<notin> metadata_of (objHeap example_world) ` set [0]"
    by (simp add: metadata_of_def example_world_def example_heap3_def example_object_def
        ObjectMetadataFromUnstructured_def emptyMetadata_def Let_def)
  from wait_task_events [OF run this]
  have "\<forall>e \<in> set (eventChannel st'). update_of e \<noteq> emptyMetadata"
  proof (elim exE conjE)
    fix es
    assume sent: "eventChannel st' = eventChannel ?st @ es"
      and named: "\<forall>e \<in> set es. e \<in> set (fst (?start (pollerObjects RunnerState_ops ?st [0]))) \<and>
        update_of e \<in> metadata_of (objHeap example_world) ` set [0] \<and> update_of e \<noteq> emptyMetadata"
    show ?thesis
    proof
      fix e
      assume "e \<in> set (eventChannel st')"
      then have "e \<in> set es" unfolding sent by simp
      then show "update_of e \<noteq> emptyMetadata" by (intro conjunct2 [OF conjunct2 [OF named [rule_format]]])
    qed
  qed
  then have "eventChannel st' \<noteq> [zeroEvent]" by (auto simp: zeroEvent_def)
  with run show ?thesis by auto
qed

end
