(* ===== verification/Resource_Sort.thy ===== *)
theory Resource_Sort
  imports Resource_Metadata "HOL-Library.Multiset" "HOL-Library.Product_Lexorder"
begin

text \<open>
  \<open>pkg/resource/sort.go\<close>: the order in which resources are applied. The contract of Go's
  \<open>sort.Interface\<close> is the locale \<open>sort_interface\<close>; the comparison of the program fulfils
  it, and what \<open>sort.Sort\<close> promises follows for slices of metadata, slices of objects and
  reversed slices.
\<close>

subsection \<open>sort.Sort\<close>

text \<open>
  \<open>sort.Sort\<close> with the comparison of the elements. The model is the insertion sort that Go
  runs on slices of up to twelve elements: the element moves left while it is less than its
  neighbour (\<open>sift\<close> holds the sorted part reversed). On longer slices Go runs another
  algorithm, whose result can differ only in the order of elements neither of which is less
  than the other; \<open>go_sort_unique\<close> says that it does not differ where there are none.
\<close>

fun sift :: "('a \<Rightarrow> 'a \<Rightarrow> bool) \<Rightarrow> 'a \<Rightarrow> 'a list \<Rightarrow> 'a list" where
  "sift lt x [] = [x]"
| "sift lt x (y # ys) = (if lt x y then y # sift lt x ys else x # y # ys)"

definition sort_Sort :: "('a \<Rightarrow> 'a \<Rightarrow> bool) \<Rightarrow> 'a list \<Rightarrow> 'a list" where
  "sort_Sort lt xs = rev (foldl (\<lambda>sorted x. sift lt x sorted) [] xs)"

text \<open>\<open>sort.Reverse\<close>.\<close>

definition sort_Reverse :: "('a \<Rightarrow> 'a \<Rightarrow> bool) \<Rightarrow> 'a \<Rightarrow> 'a \<Rightarrow> bool" where
  "sort_Reverse lt a b = lt b a"

text \<open>Sorted: nothing stands before something that is less.\<close>

definition in_order :: "('a \<Rightarrow> 'a \<Rightarrow> bool) \<Rightarrow> 'a list \<Rightarrow> bool" where
  "in_order lt xs \<longleftrightarrow> sorted_wrt (\<lambda>a b. \<not> lt b a) xs"

lemma mset_sift [simp]: "mset (sift lt x ys) = add_mset x (mset ys)"
  by (induction ys) auto

lemma mset_sort_Sort [simp]: "mset (sort_Sort lt xs) = mset xs"
proof -
  have "mset (foldl (\<lambda>sorted x. sift lt x sorted) acc xs) = mset acc + mset xs" for acc
    by (induction xs arbitrary: acc) auto
  then show ?thesis by (simp add: sort_Sort_def)
qed

lemma set_sort_Sort [simp]: "set (sort_Sort lt xs) = set xs"
  using mset_sort_Sort set_mset_mset by metis

lemma distinct_sort_Sort [simp]: "distinct (sort_Sort lt xs) = distinct xs"
  using mset_sort_Sort mset_eq_imp_distinct_iff by metis

lemma sort_Sort_eq_Nil [simp]: "sort_Sort lt xs = [] \<longleftrightarrow> xs = []"
  using mset_sort_Sort mset_zero_iff by metis

lemma set_sift [simp]: "set (sift lt x ys) = insert x (set ys)"
  by (metis mset_sift set_mset_mset set_mset_add_mset_insert)

locale sort_interface =
  fixes lt :: "'a \<Rightarrow> 'a \<Rightarrow> bool"
  assumes lt_irrefl: "\<not> lt a a"
    and lt_trans: "lt a b \<Longrightarrow> lt b c \<Longrightarrow> lt a c"
    and lt_weak: "lt a c \<Longrightarrow> lt a b \<or> lt b c"
begin

lemma lt_asym: "lt a b \<Longrightarrow> \<not> lt b a"
  using lt_irrefl lt_trans by blast

lemma sift_sorted:
  "sorted_wrt (\<lambda>a b. \<not> lt a b) ys \<Longrightarrow> sorted_wrt (\<lambda>a b. \<not> lt a b) (sift lt x ys)"
proof (induction ys)
  case (Cons y ys)
  then show ?case
    by (auto split: if_splits dest: lt_weak [of x _ y] lt_asym)
qed simp

lemma sort_Sort_in_order: "in_order lt (sort_Sort lt xs)"
proof -
  have "sorted_wrt (\<lambda>a b. \<not> lt a b) (foldl (\<lambda>sorted x. sift lt x sorted) acc xs)"
    if "sorted_wrt (\<lambda>a b. \<not> lt a b) acc" for acc
    using that by (induction xs arbitrary: acc) (auto simp: sift_sorted)
  from this [of "[]"] show ?thesis
    by (simp add: in_order_def sort_Sort_def sorted_wrt_rev)
qed

text \<open>Two orderings of the same elements agree when any two of them are comparable.\<close>

lemma in_order_unique:
  assumes "in_order lt xs" and "in_order lt ys" and "mset xs = mset ys"
    and "\<And>a b. a \<in> set xs \<Longrightarrow> b \<in> set xs \<Longrightarrow> a \<noteq> b \<Longrightarrow> lt a b \<or> lt b a"
  shows "xs = ys"
  using assms
proof (induction xs arbitrary: ys)
  case Nil
  then show ?case by simp
next
  case (Cons x xs)
  then obtain y ys' where ys: "ys = y # ys'" by (cases ys) auto
  have sets: "set (x # xs) = set (y # ys')"
    using Cons.prems(3) ys by (metis set_mset_mset)
  have "x = y"
  proof (rule ccontr)
    assume "x \<noteq> y"
    then have "x \<in> set ys'" and "y \<in> set xs" using sets by auto
    then have "\<not> lt x y" and "\<not> lt y x"
      using Cons.prems(1,2) ys by (auto simp: in_order_def)
    with Cons.prems(4) \<open>x \<noteq> y\<close> \<open>y \<in> set xs\<close> show False by auto
  qed
  moreover have "xs = ys'"
    using Cons.prems ys \<open>x = y\<close> by (intro Cons.IH) (auto simp: in_order_def)
  ultimately show ?case using ys by simp
qed

lemma sort_Sort_unique:
  assumes "in_order lt ys" and "mset ys = mset xs"
    and "\<And>a b. a \<in> set xs \<Longrightarrow> b \<in> set xs \<Longrightarrow> a \<noteq> b \<Longrightarrow> lt a b \<or> lt b a"
  shows "ys = sort_Sort lt xs"
proof (rule in_order_unique [OF assms(1) sort_Sort_in_order])
  show "mset ys = mset (sort_Sort lt xs)" using assms(2) by simp
  have "set ys = set xs" using assms(2) by (metis set_mset_mset)
  then show "\<And>a b. a \<in> set ys \<Longrightarrow> b \<in> set ys \<Longrightarrow> a \<noteq> b \<Longrightarrow> lt a b \<or> lt b a"
    using assms(3) by simp
qed

end

text \<open>A contract on keys gives one on the elements, and the reversed order fulfils it too.\<close>

lemma sort_interface_key:
  "sort_interface lt \<Longrightarrow> sort_interface (\<lambda>a b. lt (f a) (f b))"
  unfolding sort_interface_def by blast

lemma sort_interface_Reverse:
  "sort_interface lt \<Longrightarrow> sort_interface (sort_Reverse lt)"
  unfolding sort_interface_def sort_Reverse_def by blast

subsection \<open>The order of kinds\<close>

definition orderList :: "GroupKind list" where
  "orderList =
     [GroupKind '''' ''Namespace'',
      GroupKind '''' ''ResourceQuota'',
      GroupKind '''' ''LimitRange'',
      GroupKind ''apiextensions.k8s.io'' ''CustomResourceDefinition'',
      GroupKind ''storage.k8s.io'' ''StorageClass'',
      GroupKind ''networking.k8s.io'' ''IngressClass'',
      GroupKind ''scheduling.k8s.io'' ''PriorityClass'',
      GroupKind ''gateway.networking.k8s.io'' ''GatewayClass'',
      GroupKind '''' ''ServiceAccount'',
      GroupKind ''rbac.authorization.k8s.io'' ''Role'',
      GroupKind ''rbac.authorization.k8s.io'' ''ClusterRole'',
      GroupKind ''rbac.authorization.k8s.io'' ''RoleBinding'',
      GroupKind ''rbac.authorization.k8s.io'' ''ClusterRoleBinding'',
      GroupKind '''' ''Secret'',
      GroupKind '''' ''ConfigMap'',
      GroupKind '''' ''PersistentVolume'',
      GroupKind '''' ''PersistentVolumeClaim'',
      GroupKind ''networking.k8s.io'' ''NetworkPolicy'',
      GroupKind '''' ''ReplicationController'',
      GroupKind ''apps'' ''StatefulSet'',
      GroupKind ''apps'' ''Deployment'',
      GroupKind ''apps'' ''Daemonset'',
      GroupKind ''batch'' ''CronJob'',
      GroupKind ''batch'' ''Job'',
      GroupKind '''' ''Pod'',
      GroupKind '''' ''Service'',
      GroupKind '''' ''Endpoints'',
      GroupKind ''discovery.k8s.io'' ''EndpointSlice'',
      GroupKind ''networking.k8s.io'' ''Ingress'',
      GroupKind ''gateway.networking.k8s.io'' ''Gateway'',
      GroupKind ''gateway.networking.k8s.io'' ''HTTPRoute'',
      GroupKind ''gateway.networking.k8s.io'' ''ReferenceGrant'',
      GroupKind ''policy'' ''PodDisruptionBudget'',
      GroupKind ''autoscaling'' ''HorizontalPodAutoscaler'',
      GroupKind ''autoscaling.k8s.io'' ''VerticalPodAutoscaler'',
      GroupKind ''apiregistration.k8s.io'' ''APIService'',
      GroupKind ''admissionregistration.k8s.io'' ''MutatingWebhookConfiguration'',
      GroupKind ''admissionregistration.k8s.io'' ''ValidatingWebhookConfiguration'']"

definition defaultGroupKindSortMap :: "(GroupKind, int) gomap" where
  "defaultGroupKindSortMap =
     fold (\<lambda>(i, n) m. AList.update n (- int (length orderList) + int i) m)
       (enumerate 0 orderList) []"

definition lessGK :: "GroupKind \<Rightarrow> GroupKind \<Rightarrow> bool" where
  "lessGK i j =
     (let indexI = lookup_zero 0 defaultGroupKindSortMap i;
          indexJ = lookup_zero 0 defaultGroupKindSortMap j
      in if indexI \<noteq> indexJ then indexI < indexJ
         else if gk_group i \<noteq> gk_group j then gk_group i < gk_group j
         else gk_kind i < gk_kind j)"

definition less_metadata :: "ObjectMetadata \<Rightarrow> ObjectMetadata \<Rightarrow> bool" where
  "less_metadata i j =
     (let firstGK = GroupKind (Group i) (Kind i);
          secondGK = GroupKind (Group j) (Kind j)
      in if firstGK \<noteq> secondGK then lessGK firstGK secondGK
         else if Namespace i \<noteq> Namespace j then Namespace i < Namespace j
         else Name i < Name j)"

definition SortableObjects_Less :: "'c unstructured heap \<Rightarrow> ref \<Rightarrow> ref \<Rightarrow> bool" where
  "SortableObjects_Less h i j =
     less_metadata (ObjectMetadataFromUnstructured (h i)) (ObjectMetadataFromUnstructured (h j))"

definition SortableMetadatas_Less :: "ObjectMetadata \<Rightarrow> ObjectMetadata \<Rightarrow> bool" where
  "SortableMetadatas_Less = less_metadata"

subsection \<open>The order is total\<close>

text \<open>The comparison is the lexicographic order on a tuple that determines the metadata.\<close>

definition sort_tuple :: "ObjectMetadata \<Rightarrow> int \<times> string \<times> string \<times> string \<times> string" where
  "sort_tuple m =
     (lookup_zero 0 defaultGroupKindSortMap (GroupKind (Group m) (Kind m)),
      Group m, Kind m, Namespace m, Name m)"

lemma less_metadata_tuple: "less_metadata i j \<longleftrightarrow> sort_tuple i < sort_tuple j"
  by (auto simp: less_metadata_def lessGK_def sort_tuple_def Let_def less_prod_def)

lemma sort_tuple_inject: "sort_tuple i = sort_tuple j \<longleftrightarrow> i = j"
  by (cases i; cases j) (auto simp: sort_tuple_def)

interpretation metadatas: sort_interface SortableMetadatas_Less
  unfolding SortableMetadatas_Less_def by unfold_locales (auto simp: less_metadata_tuple)

interpretation objects: sort_interface "SortableObjects_Less h"
  for h :: "'c unstructured heap"
  unfolding SortableObjects_Less_def
  by (rule sort_interface_key) (rule metadatas.sort_interface_axioms [unfolded SortableMetadatas_Less_def])

interpretation reversed: sort_interface "sort_Reverse (SortableObjects_Less h)"
  for h :: "'c unstructured heap"
  by (rule sort_interface_Reverse) (rule objects.sort_interface_axioms)

text \<open>With it the metadata are a linear order, and the library's facts on one apply to them.\<close>

instantiation ObjectMetadata :: linorder
begin

definition less_ObjectMetadata :: "ObjectMetadata \<Rightarrow> ObjectMetadata \<Rightarrow> bool" where
  "less_ObjectMetadata i j = less_metadata i j"

definition less_eq_ObjectMetadata :: "ObjectMetadata \<Rightarrow> ObjectMetadata \<Rightarrow> bool" where
  "less_eq_ObjectMetadata i j \<longleftrightarrow> sort_tuple i \<le> sort_tuple j"

instance
  by standard (auto simp: less_ObjectMetadata_def less_eq_ObjectMetadata_def
      less_metadata_tuple less_le_not_le dest: antisym iff: sort_tuple_inject)

end

text \<open>
  The order of the resources is a strict total order on their metadata, so the order in
  which two different resources are applied never depends on how they were listed.
\<close>

lemma less_metadata_total_order:
  "\<not> less_metadata a a \<and>
   (less_metadata a b \<longrightarrow> less_metadata b c \<longrightarrow> less_metadata a c) \<and>
   (a \<noteq> b \<longrightarrow> less_metadata a b \<noteq> less_metadata b a)"
proof (intro conjI impI)
  show "\<not> less_metadata a a" by (rule metadatas.lt_irrefl [unfolded SortableMetadatas_Less_def])
  show "less_metadata a c" if "less_metadata a b" and "less_metadata b c"
    using that by (rule metadatas.lt_trans [unfolded SortableMetadatas_Less_def])
  show "less_metadata a b \<noteq> less_metadata b a" if "a \<noteq> b"
  proof -
    have "sort_tuple a \<noteq> sort_tuple b" using that by (simp add: sort_tuple_inject)
    then have "sort_tuple a < sort_tuple b \<or> sort_tuple b < sort_tuple a" by (rule neqE) simp_all
    then show ?thesis unfolding less_metadata_tuple by (meson less_asym)
  qed
qed

text \<open>The index of the known kinds is their place in the list, counted from minus the length.\<close>

lemma distinct_orderList: "distinct orderList"
  by (simp add: orderList_def)

lemma length_orderList: "length orderList = 38"
  by (simp add: orderList_def)

lemma fold_update_enumerate_other:
  "x \<notin> set xs \<Longrightarrow>
   map_of (fold (\<lambda>(i, n) m. AList.update n (f i) m) (enumerate k xs) m0) x = map_of m0 x"
  by (induction xs arbitrary: k m0) (auto simp: update_conv)

lemma fold_update_enumerate_nth:
  assumes "distinct xs" and "i < length xs"
  shows "map_of (fold (\<lambda>(i, n) m. AList.update n (f i) m) (enumerate k xs) m0) (xs ! i) =
    Some (f (k + i))"
  using assms
proof (induction xs arbitrary: k m0 i)
  case (Cons y ys)
  then show ?case
    by (cases i) (auto simp: update_conv fold_update_enumerate_other)
qed simp

lemma default_index:
  assumes "i < length orderList"
  shows "lookup_zero 0 defaultGroupKindSortMap (orderList ! i) = int i - int (length orderList)"
  unfolding defaultGroupKindSortMap_def lookup_zero_def
  by (subst fold_update_enumerate_nth [OF distinct_orderList assms]) simp

lemma default_index_unknown:
  "gk \<notin> set orderList \<Longrightarrow> lookup_zero 0 defaultGroupKindSortMap gk = 0"
  unfolding defaultGroupKindSortMap_def lookup_zero_def
  by (subst fold_update_enumerate_other) simp_all

text \<open>
  Known kinds come in the order of the list, before every unknown kind, and unknown
  kinds come by group and then by kind.
\<close>

lemma lessGK_spec:
  "(i < length orderList \<longrightarrow> j < length orderList \<longrightarrow>
      lessGK (orderList ! i) (orderList ! j) = (i < j)) \<and>
   (i < length orderList \<longrightarrow> gk \<notin> set orderList \<longrightarrow>
      lessGK (orderList ! i) gk \<and> \<not> lessGK gk (orderList ! i)) \<and>
   (gk \<notin> set orderList \<longrightarrow> gk' \<notin> set orderList \<longrightarrow>
      lessGK gk gk' = (gk_group gk < gk_group gk' \<or>
        gk_group gk = gk_group gk' \<and> gk_kind gk < gk_kind gk'))"
proof (intro conjI impI)
  show "lessGK (orderList ! i) (orderList ! j) = (i < j)"
    if "i < length orderList" and "j < length orderList"
    using that by (cases "i = j") (simp_all add: lessGK_def default_index Let_def)
  show "lessGK (orderList ! i) gk" and "\<not> lessGK gk (orderList ! i)"
    if "i < length orderList" and "gk \<notin> set orderList"
    using that by (simp_all add: lessGK_def default_index default_index_unknown Let_def)
  show "lessGK gk gk' = (gk_group gk < gk_group gk' \<or>
      gk_group gk = gk_group gk' \<and> gk_kind gk < gk_kind gk')"
    if "gk \<notin> set orderList" and "gk' \<notin> set orderList"
    unfolding lessGK_def default_index_unknown [OF that(1)] default_index_unknown [OF that(2)] Let_def
    by auto
qed

text \<open>
  the list spells the kind of daemon sets \<open>Daemonset\<close>; the kind of the Kubernetes API
  is \<open>DaemonSet\<close>, which therefore counts as unknown and is applied after everything the
  list names, webhook configurations included, although the list means to have it beside
  the other workloads.
\<close>

theorem daemonset_sorted_last:
  "less_metadata (ObjectMetadata n ns ''admissionregistration.k8s.io'' ''ValidatingWebhookConfiguration'')
     (ObjectMetadata n' ns' ''apps'' ''DaemonSet'') \<and>
   less_metadata (ObjectMetadata n' ns' ''apps'' ''Daemonset'') (ObjectMetadata n ns '''' ''Service'')"
proof -
  have known: "orderList ! 37 =
      GroupKind ''admissionregistration.k8s.io'' ''ValidatingWebhookConfiguration''"
    "orderList ! 21 = GroupKind ''apps'' ''Daemonset''" "orderList ! 25 = GroupKind '''' ''Service''"
    and unknown: "GroupKind ''apps'' ''DaemonSet'' \<notin> set orderList"
    by (simp_all add: orderList_def)
  have "lessGK (orderList ! 37) (GroupKind ''apps'' ''DaemonSet'')"
    and "lessGK (orderList ! 21) (orderList ! 25)"
    using unknown by (simp_all add: lessGK_def default_index default_index_unknown length_orderList)
  then show ?thesis by (simp add: less_metadata_def known)
qed

end
