(* ===== verification/Resource_Graph.thy ===== *)
theory Resource_Graph
  imports Resource_Kinds Resource_Sort
begin

text \<open>
  \<open>pkg/resource/graph.go\<close>: the graph of the dependencies between the objects of a run and
  its layers. Vertices are pointers; the heap gives the object behind each one.
\<close>

subsection \<open>The graph\<close>

record DependencyGraph =
  edges :: "(ref, ref list) gomap"

definition vertices :: "DependencyGraph \<Rightarrow> ref set" where
  "vertices g = fst ` set (edges g)"

definition targets :: "DependencyGraph \<Rightarrow> ref \<Rightarrow> ref list" where
  "targets g v = lookup_zero [] (edges g) v"

text \<open>The relation the graph stands for: \<open>(v, d)\<close> when \<open>v\<close> depends on \<open>d\<close>.\<close>

definition dep_rel :: "DependencyGraph \<Rightarrow> (ref \<times> ref) set" where
  "dep_rel g = {(v, d). d \<in> set (targets g v)}"

definition addVertex :: "DependencyGraph \<Rightarrow> ref \<Rightarrow> DependencyGraph" where
  "addVertex g obj =
     (if \<not> has_key (edges g) obj then g\<lparr>edges := AList.update obj [] (edges g)\<rparr> else g)"

definition addEdge :: "DependencyGraph \<Rightarrow> ref \<Rightarrow> ref \<Rightarrow> DependencyGraph" where
  "addEdge g from to =
     (let g' = addVertex (addVertex g from) to
      in g'\<lparr>edges := AList.update from (List.insert to (targets g' from)) (edges g')\<rparr>)"

definition graph_wf :: "DependencyGraph \<Rightarrow> bool" where
  "graph_wf g \<longleftrightarrow> distinct (map fst (edges g)) \<and> (\<forall>(v, d) \<in> dep_rel g. v \<in> vertices g \<and> d \<in> vertices g)"

lemma vertices_addVertex [graph_simps]: "vertices (addVertex g v) = insert v (vertices g)"
  by (auto simp: vertices_def addVertex_def has_key_iff)

lemma targets_addVertex [graph_simps]: "targets (addVertex g v) = targets g"
  by (rule ext)
     (auto simp: targets_def addVertex_def lookup_zero_def has_key_def update_conv)

lemma dep_rel_addVertex [graph_simps]: "dep_rel (addVertex g v) = dep_rel g"
  by (simp add: dep_rel_def targets_addVertex)

lemma vertices_addEdge [graph_simps]:
  "vertices (addEdge g from to) = insert from (insert to (vertices g))"
proof -
  have "vertices (addEdge g from to) = insert from (vertices (addVertex (addVertex g from) to))"
    by (simp add: addEdge_def vertices_def Let_def)
  then show ?thesis by (auto simp: vertices_addVertex)
qed

lemma targets_addEdge [graph_simps]:
  "targets (addEdge g from to) =
     (targets g)(from := List.insert to (targets g from))"
proof -
  have "targets (addEdge g from to) v =
      (if v = from then List.insert to (targets (addVertex (addVertex g from) to) from)
       else targets (addVertex (addVertex g from) to) v)" for v
    by (simp add: addEdge_def targets_def lookup_zero_def update_conv Let_def)
  then show ?thesis by (auto simp: targets_addVertex)
qed

lemma dep_rel_addEdge [graph_simps]: "dep_rel (addEdge g from to) = insert (from, to) (dep_rel g)"
  by (auto simp: dep_rel_def targets_addEdge split: if_splits)

lemma addVertex_wf [intro]: "graph_wf g \<Longrightarrow> graph_wf (addVertex g v)"
  by (auto simp: graph_wf_def graph_simps) (simp add: addVertex_def distinct_update)

lemma addEdge_wf [intro]: "graph_wf g \<Longrightarrow> graph_wf (addEdge g from to)"
proof -
  assume wf: "graph_wf g"
  then have "distinct (map fst (edges (addVertex (addVertex g from) to)))"
    using addVertex_wf unfolding graph_wf_def by blast
  then have "distinct (map fst (edges (addEdge g from to)))"
    by (simp add: addEdge_def distinct_update Let_def)
  with wf show ?thesis by (auto simp: graph_wf_def graph_simps)
qed

subsection \<open>Layers\<close>

text \<open>
  \<open>SortedResourceGroups\<close> works on a clone of the map of the graph. The clone is shallow: its
  sets are the sets of the graph. So the loop has two states, the vertices that are left in
  the clone, and the graph, whose sets it shrinks.
\<close>

definition deleteVertex :: "ref list \<times> DependencyGraph \<Rightarrow> ref \<Rightarrow> ref list \<times> DependencyGraph" where
  "deleteVertex s resource =
     (let live = removeAll resource (fst s); g = snd s in
      (live,
       g\<lparr>edges := map (\<lambda>(vertex, vertexEdges).
           (vertex, if vertex \<in> set live then removeAll resource vertexEdges else vertexEdges))
         (edges g)\<rparr>))"

definition cyclicalDependencies ::
  "'c unstructured heap \<Rightarrow> DependencyGraph \<Rightarrow> ref list \<Rightarrow> Dependency list" where
  "cyclicalDependencies h g live =
     concat (map (\<lambda>from. map (\<lambda>to.
       Dependency (ObjectMetadataFromUnstructured (h from)) (ObjectMetadataFromUnstructured (h to)))
       (targets g from)) live)"

definition freeVertices :: "DependencyGraph \<Rightarrow> ref list \<Rightarrow> ref list" where
  "freeVertices g live = filter (\<lambda>vertex. targets g vertex = []) live"

lemma fst_foldl_deleteVertex:
  "fst (foldl deleteVertex (live, g) rs) = filter (\<lambda>v. v \<notin> set rs) live"
  by (induction rs arbitrary: live g) (auto simp: deleteVertex_def Let_def removeAll_filter_not_eq
      intro: filter_cong)

function groupsLoop ::
  "'c unstructured heap \<Rightarrow> DependencyGraph \<Rightarrow> ref list \<Rightarrow> ref list list \<Rightarrow>
   ref list list \<times> go_error option \<times> DependencyGraph" where
  "groupsLoop h g live groups =
     (if live = [] then (groups, None, g)
      else
        let grp = freeVertices g live in
        if grp = []
        then (groups, Some (CyclicDependencyError (cyclicalDependencies h g live)), g)
        else
          groupsLoop h
            (snd (foldl deleteVertex (live, g) grp))
            (fst (foldl deleteVertex (live, g) grp))
            (groups @ [sort_Sort (SortableObjects_Less h) grp]))"
  by pat_completeness auto
termination
proof (relation "measure (\<lambda>(h, g, live, groups). length live)", simp)
  fix h :: "'c unstructured heap" and g live groups grp
  assume "grp = freeVertices g live" and "grp \<noteq> []"
  moreover from this have "hd grp \<in> set grp" by simp
  ultimately obtain v where "v \<in> set grp" and "v \<in> set live"
    by (auto simp: freeVertices_def)
  then have "length (filter (\<lambda>v. v \<notin> set grp) live) < length live"
    by (intro length_filter_less) auto
  then show "((h, snd (foldl deleteVertex (live, g) grp),
      fst (foldl deleteVertex (live, g) grp),
      groups @ [sort_Sort (SortableObjects_Less h) grp]), (h, g, live, groups))
    \<in> measure (\<lambda>(h, g, live, groups). length live)"
    by (simp add: fst_foldl_deleteVertex)
qed

declare groupsLoop.simps [simp del]

definition SortedResourceGroups ::
  "'c unstructured heap \<Rightarrow> DependencyGraph \<Rightarrow> ref list list \<times> go_error option \<times> DependencyGraph" where
  "SortedResourceGroups h g = groupsLoop h g (map fst (edges g)) []"

subsection \<open>What a layering is\<close>

text \<open>
  The abstract specification: each layer holds exactly the vertices left whose dependencies
  are all in earlier layers.
\<close>

fun layered :: "(ref \<times> ref) set \<Rightarrow> ref set \<Rightarrow> ref list list \<Rightarrow> bool" where
  "layered R live [] \<longleftrightarrow> live = {}"
| "layered R live (g # gs) \<longleftrightarrow>
     g \<noteq> [] \<and> distinct g \<and> (\<forall>v. v \<in> set g \<longleftrightarrow> v \<in> live \<and> R `` {v} \<inter> live = {}) \<and>
     layered R (live - set g) gs"

lemma layered_tail: "layered R live (g # gs) \<Longrightarrow> layered R (live - set g) gs"
  by (simp only: layered.simps)

lemma layered_set: "layered R live gs \<Longrightarrow> set (concat gs) = live"
proof (induction gs arbitrary: live)
  case (Cons g gs)
  then have "set (concat gs) = live - set g" and "set g \<subseteq> live" by auto
  then show ?case by auto
qed simp

lemma layered_distinct: "layered R live gs \<Longrightarrow> distinct (concat gs)"
proof (induction gs arbitrary: live)
  case (Cons g gs)
  have "distinct (concat gs)" and "set (concat gs) = live - set g"
    using Cons.IH layered_set layered_tail [OF Cons.prems] by blast+
  moreover have "distinct g" using Cons.prems by simp
  ultimately show ?case by auto
qed simp

text \<open>A dependency of a vertex of a layer is in an earlier layer.\<close>

lemma layered_earlier:
  assumes "layered R live gs" and "i < length gs" and "v \<in> set (gs ! i)" and "(v, d) \<in> R"
    and "d \<in> live"
  shows "\<exists>j < i. d \<in> set (gs ! j)"
  using assms
proof (induction gs arbitrary: live i)
  case (Cons g gs)
  show ?case
  proof (cases i)
    case 0
    with Cons.prems show ?thesis by auto
  next
    case (Suc k)
    show ?thesis
    proof (cases "d \<in> set g")
      case True
      with Suc show ?thesis by (intro exI [of _ 0]) simp
    next
      case False
      with Cons.prems Suc have "\<exists>j < k. d \<in> set (gs ! j)"
        by (intro Cons.IH [OF layered_tail [OF Cons.prems(1)]]) simp_all
      then show ?thesis using Suc by (metis Suc_less_eq nth_Cons_Suc)
    qed
  qed
qed simp

text \<open>No layer could have come earlier.\<close>

lemma layered_tight:
  assumes "layered R live gs" and "Suc i < length gs" and "v \<in> set (gs ! Suc i)"
  shows "\<exists>d. (v, d) \<in> R \<and> d \<in> set (gs ! i)"
  using assms
proof (induction gs arbitrary: live i)
  case (Cons g gs)
  show ?case
  proof (cases i)
    case 0
    then obtain g' gs' where gs: "gs = g' # gs'" using Cons.prems by (cases gs) auto
    with Cons.prems 0 have "v \<in> live" "v \<notin> set g" "R `` {v} \<inter> (live - set g) = {}" by auto
    moreover from this have "R `` {v} \<inter> live \<noteq> {}" using Cons.prems(1) by auto
    ultimately show ?thesis using 0 by auto
  next
    case (Suc k)
    with Cons.prems show ?thesis
      using Cons.IH [OF layered_tail [OF Cons.prems(1)], of k] by simp
  qed
qed simp

lemma layered_acyclic:
  assumes "layered R live gs" and "R \<subseteq> live \<times> live"
  shows "acyclic R"
proof -
  define rank where "rank v = (LEAST i. i < length gs \<and> v \<in> set (gs ! i))" for v
  have level: "rank v < length gs \<and> v \<in> set (gs ! rank v)" if "v \<in> live" for v
  proof -
    from that layered_set [OF assms(1)] obtain i where "i < length gs \<and> v \<in> set (gs ! i)"
      by (fastforce simp: in_set_conv_nth)
    then show ?thesis unfolding rank_def by (rule LeastI)
  qed
  have "rank d < rank v" if "(v, d) \<in> R" for v d
  proof -
    from that assms(2) have "v \<in> live" "d \<in> live" by auto
    with layered_earlier [OF assms(1) _ _ that] level obtain j where
      "j < rank v" and "d \<in> set (gs ! j)" by blast
    moreover have "rank d \<le> j"
      unfolding rank_def using calculation level [OF \<open>v \<in> live\<close>] by (intro Least_le) auto
    ultimately show ?thesis by simp
  qed
  then have "R\<inverse> \<subseteq> measure rank" by auto
  then have "wf (R\<inverse>)" using wf_subset wf_measure by blast
  then show ?thesis using wf_acyclic acyclic_converse by metis
qed

text \<open>Vertices that keep each other waiting lie on or behind a cycle.\<close>

lemma stuck_cyclic:
  assumes "finite live" and "live \<noteq> {}" and "\<And>v. v \<in> live \<Longrightarrow> R `` {v} \<inter> live \<noteq> {}"
  shows "\<not> acyclic R"
proof
  let ?S = "R \<inter> live \<times> live"
  assume "acyclic R"
  then have "acyclic ?S" by (rule acyclic_subset) simp
  moreover have "finite ?S" using assms(1) by simp
  ultimately have wf: "wf (?S\<inverse>)"
    by (intro finite_acyclic_wf_converse)
  from assms(2) obtain u where u: "u \<in> live" by (auto simp only: ex_in_conv [symmetric])
  obtain v where v: "v \<in> live" and min: "\<And>d. (d, v) \<in> ?S\<inverse> \<Longrightarrow> d \<notin> live"
    using wfE_min [OF wf u] by (metis (no_types))
  from assms(3) [OF v] obtain d where "(v, d) \<in> R" and "d \<in> live" by auto
  with v min [of d] show False by simp
qed

subsection \<open>The loop builds the layers\<close>

lemma map_of_map_keyed:
  "map_of (map (\<lambda>(k, x). (k, f k x)) m) k = map_option (f k) (map_of m k)"
  by (induction m) auto

lemma fst_deleteVertex: "fst (deleteVertex s r) = removeAll r (fst s)"
  by (simp add: deleteVertex_def Let_def)

lemma targets_deleteVertex:
  "targets (snd (deleteVertex s r)) v =
     (if v \<in> set (fst s) \<and> v \<noteq> r then removeAll r (targets (snd s) v) else targets (snd s) v)"
  by (auto simp: deleteVertex_def targets_def lookup_zero_def map_of_map_keyed Let_def
      split: option.splits)

lemma keys_deleteVertex: "map fst (edges (snd (deleteVertex s r))) = map fst (edges (snd s))"
  by (simp add: deleteVertex_def Let_def split_def)

lemma keys_foldl_deleteVertex:
  "map fst (edges (snd (foldl deleteVertex s rs))) = map fst (edges (snd s))"
  by (induction rs arbitrary: s) (auto simp: keys_deleteVertex)

lemma targets_foldl_live:
  "v \<in> set (fst s) \<Longrightarrow> v \<notin> set rs \<Longrightarrow>
     targets (snd (foldl deleteVertex s rs)) v = filter (\<lambda>d. d \<notin> set rs) (targets (snd s) v)"
proof (induction rs arbitrary: s)
  case (Cons r rs)
  then have "v \<in> set (fst (deleteVertex s r))" by (simp add: fst_deleteVertex)
  with Cons have "targets (snd (foldl deleteVertex s (r # rs))) v =
      filter (\<lambda>d. d \<notin> set rs) (targets (snd (deleteVertex s r)) v)" by simp
  with Cons.prems show ?case
    by (simp add: targets_deleteVertex removeAll_filter_not_eq eq_commute conj_commute)
qed simp

lemma targets_foldl_shrink:
  "set (targets (snd (foldl deleteVertex s rs)) v) \<subseteq> set (targets (snd s) v)"
proof (induction rs arbitrary: s)
  case (Cons r rs)
  have "set (targets (snd (deleteVertex s r)) v) \<subseteq> set (targets (snd s) v)"
    by (auto simp: targets_deleteVertex)
  with Cons [of "deleteVertex s r"] show ?case by auto
qed simp

text \<open>
  The invariant of the loop: the set of a vertex that is left holds exactly its dependencies
  that are left.
\<close>

definition loop_inv :: "(ref \<times> ref) set \<Rightarrow> DependencyGraph \<Rightarrow> ref list \<Rightarrow> bool" where
  "loop_inv R g live \<longleftrightarrow>
     distinct live \<and> (\<forall>v \<in> set live. set (targets g v) = R `` {v} \<inter> set live)"

lemma freeVertices_set:
  assumes "loop_inv R g live"
  shows "set (freeVertices g live) = {v \<in> set live. R `` {v} \<inter> set live = {}}"
proof -
  have "targets g v = [] \<longleftrightarrow> R `` {v} \<inter> set live = {}" if "v \<in> set live" for v
    using assms that by (metis loop_inv_def set_empty)
  then show ?thesis by (auto simp: freeVertices_def)
qed

lemma loop_inv_step:
  assumes "loop_inv R g live" and "grp = freeVertices g live"
  shows "loop_inv R (snd (foldl deleteVertex (live, g) grp))
    (fst (foldl deleteVertex (live, g) grp))"
  using assms by (auto simp: loop_inv_def fst_foldl_deleteVertex targets_foldl_live)

lemma groupsLoop_spec:
  assumes "loop_inv R g live"
  shows "(\<exists>gs g'. groupsLoop h g live groups = (groups @ gs, None, g') \<and>
       layered R (set live) gs \<and> (\<forall>grp \<in> set gs. in_order (SortableObjects_Less h) grp)) \<or>
    (\<exists>gs g' stuck. groupsLoop h g live groups =
         (groups @ gs, Some (CyclicDependencyError (cyclicalDependencies h g' stuck)), g') \<and>
       stuck \<noteq> [] \<and> set stuck \<subseteq> set live \<and> loop_inv R g' stuck \<and>
       (\<forall>v \<in> set stuck. R `` {v} \<inter> set stuck \<noteq> {}))"
  using assms
proof (induction h g live groups rule: groupsLoop.induct)
  case (1 h g live groups)
  let ?group = "freeVertices g live"
  let ?next = "foldl deleteVertex (live, g) ?group"
  let ?sorted = "sort_Sort (SortableObjects_Less h) ?group"
  note free = freeVertices_set [OF "1.prems"]
  show ?case
  proof (cases "live = [] \<or> ?group = []")
    case True
    show ?thesis
    proof (cases "live = []")
      case False
      with True have "groupsLoop h g live groups =
          (groups @ [], Some (CyclicDependencyError (cyclicalDependencies h g live)), g)"
        by (subst groupsLoop.simps) simp
      moreover have "\<forall>v \<in> set live. R `` {v} \<inter> set live \<noteq> {}" using True False free by auto
      ultimately show ?thesis using False "1.prems" by blast
    qed (simp add: groupsLoop.simps)
  next
    case False
    have loop: "groupsLoop h g live groups =
        groupsLoop h (snd ?next) (fst ?next) (groups @ [?sorted])"
      using False by (subst groupsLoop.simps) (simp add: Let_def)
    have live: "set (fst ?next) = set live - set ?sorted"
      by (auto simp: fst_foldl_deleteVertex)
    have "distinct ?group"
      using "1.prems" by (simp add: loop_inv_def freeVertices_def)
    then have here: "layered R (set live) (?sorted # gs)" if "layered R (set (fst ?next)) gs" for gs
      using that False free live by simp
    from "1.IH" [OF _ refl _ loop_inv_step [OF "1.prems" refl]] False
    consider (ok) gs g' where "groupsLoop h g live groups = ((groups @ [?sorted]) @ gs, None, g')"
        "layered R (set (fst ?next)) gs" "\<forall>grp \<in> set gs. in_order (SortableObjects_Less h) grp"
      | (err) gs g' stuck where "groupsLoop h g live groups =
          ((groups @ [?sorted]) @ gs, Some (CyclicDependencyError (cyclicalDependencies h g' stuck)), g')"
        "stuck \<noteq> []" "set stuck \<subseteq> set (fst ?next)" "loop_inv R g' stuck"
        "\<forall>v \<in> set stuck. R `` {v} \<inter> set stuck \<noteq> {}"
      unfolding loop by blast
    then show ?thesis
    proof cases
      case ok
      with here [OF ok(2)] objects.sort_Sort_in_order [of h ?group] show ?thesis
        by (intro disjI1 exI [of _ "?sorted # gs"] exI [of _ g']) simp
    next
      case err
      with live show ?thesis
        by (intro disjI2 exI [of _ "?sorted # gs"] exI [of _ g'] exI [of _ stuck]) auto
    qed
  qed
qed

lemma loop_inv_start: "graph_wf g \<Longrightarrow> loop_inv (dep_rel g) g (map fst (edges g))"
  by (auto simp: loop_inv_def graph_wf_def dep_rel_def vertices_def)

lemma dep_rel_vertices: "graph_wf g \<Longrightarrow> dep_rel g \<subseteq> vertices g \<times> vertices g"
  by (auto simp: graph_wf_def)

lemma vertices_keys: "set (map fst (edges g)) = vertices g"
  by (simp add: vertices_def)

lemma SortedResourceGroups_cases:
  assumes "graph_wf g"
  obtains (sorted) gs g' where "SortedResourceGroups h g = (gs, None, g')"
      and "layered (dep_rel g) (vertices g) gs"
      and "\<forall>grp \<in> set gs. in_order (SortableObjects_Less h) grp"
      and "acyclic (dep_rel g)"
  | (cyclic) gs g' stuck where "SortedResourceGroups h g =
         (gs, Some (CyclicDependencyError (cyclicalDependencies h g' stuck)), g')"
      and "stuck \<noteq> []" and "set stuck \<subseteq> vertices g" and "loop_inv (dep_rel g) g' stuck"
      and "\<And>v. v \<in> set stuck \<Longrightarrow> dep_rel g `` {v} \<inter> set stuck \<noteq> {}"
      and "\<not> acyclic (dep_rel g)"
proof -
  from groupsLoop_spec [OF loop_inv_start [OF assms], of h "[]"]
  consider (ok) gs g' where "SortedResourceGroups h g = (gs, None, g')"
      "layered (dep_rel g) (vertices g) gs"
      "\<forall>grp \<in> set gs. in_order (SortableObjects_Less h) grp"
    | (err) gs g' stuck where "SortedResourceGroups h g =
         (gs, Some (CyclicDependencyError (cyclicalDependencies h g' stuck)), g')"
      "stuck \<noteq> []" "set stuck \<subseteq> vertices g" "loop_inv (dep_rel g) g' stuck"
      "\<forall>v \<in> set stuck. dep_rel g `` {v} \<inter> set stuck \<noteq> {}"
    unfolding SortedResourceGroups_def vertices_keys append_Nil by blast
  then show thesis
  proof cases
    case ok
    with layered_acyclic [OF ok(2) dep_rel_vertices [OF assms]] sorted show thesis by blast
  next
    case err
    then have "\<not> acyclic (dep_rel g)" by (intro stuck_cyclic [of "set stuck"]) auto
    with err cyclic show thesis by blast
  qed
qed

lemma graph_wf_empty: "graph_wf \<lparr>edges = []\<rparr>"
  by (simp add: graph_wf_def dep_rel_def targets_def lookup_zero_def)

definition example_graph :: DependencyGraph where
  "example_graph = addEdge (addEdge \<lparr>edges = []\<rparr> 1 0) 2 1"

lemma example_graph_wf: "graph_wf example_graph"
  by (simp add: example_graph_def graph_wf_empty addEdge_wf)

lemma SortedResourceGroups_None:
  assumes "graph_wf g" and "SortedResourceGroups h g = (gs, None, g')"
  shows "layered (dep_rel g) (vertices g) gs"
    and "\<forall>grp \<in> set gs. in_order (SortableObjects_Less h) grp"
  using assms(2) SortedResourceGroups_cases [OF assms(1), of h] by force+

lemma cyclical_are_edges:
  assumes "loop_inv R g' stuck" and "stuck \<noteq> []"
    and "\<And>v. v \<in> set stuck \<Longrightarrow> R `` {v} \<inter> set stuck \<noteq> {}"
  shows "cyclicalDependencies h g' stuck \<noteq> [] \<and>
    (\<forall>d \<in> set (cyclicalDependencies h g' stuck). \<exists>v w. (v, w) \<in> R \<and>
       d = Dependency (ObjectMetadataFromUnstructured (h v)) (ObjectMetadataFromUnstructured (h w)))"
proof
  have t: "set (targets g' v) = R `` {v} \<inter> set stuck" if "v \<in> set stuck" for v
    using assms(1) that by (simp add: loop_inv_def)
  then show "\<forall>d \<in> set (cyclicalDependencies h g' stuck). \<exists>v w. (v, w) \<in> R \<and>
      d = Dependency (ObjectMetadataFromUnstructured (h v)) (ObjectMetadataFromUnstructured (h w))"
    by (auto simp: cyclicalDependencies_def)
  have hd: "hd stuck \<in> set stuck" using assms(2) by simp
  with assms(3) t have "targets g' (hd stuck) \<noteq> []" by (metis set_empty)
  with hd show "cyclicalDependencies h g' stuck \<noteq> []"
    by (auto simp: cyclicalDependencies_def)
qed

lemma SortedResourceGroups_layers:
  assumes "graph_wf g" and "SortedResourceGroups h g = (gs, None, g')"
  shows "distinct (concat gs) \<and> set (concat gs) = vertices g \<and>
    (\<forall>i < length gs. \<forall>v \<in> set (gs ! i). \<forall>d. (v, d) \<in> dep_rel g \<longrightarrow> (\<exists>j < i. d \<in> set (gs ! j))) \<and>
    (\<forall>i. Suc i < length gs \<longrightarrow> (\<forall>v \<in> set (gs ! Suc i). \<exists>d \<in> set (gs ! i). (v, d) \<in> dep_rel g)) \<and>
    (\<forall>grp \<in> set gs. in_order (SortableObjects_Less h) grp)"
proof (intro conjI)
  note l = SortedResourceGroups_None(1) [OF assms]
  show "distinct (concat gs)" by (rule layered_distinct [OF l])
  show "set (concat gs) = vertices g" by (rule layered_set [OF l])
  show "\<forall>i < length gs. \<forall>v \<in> set (gs ! i). \<forall>d. (v, d) \<in> dep_rel g \<longrightarrow> (\<exists>j < i. d \<in> set (gs ! j))"
    using layered_earlier [OF l] dep_rel_vertices [OF assms(1)] by blast
  show "\<forall>i. Suc i < length gs \<longrightarrow> (\<forall>v \<in> set (gs ! Suc i). \<exists>d \<in> set (gs ! i). (v, d) \<in> dep_rel g)"
    using layered_tight [OF l] by blast
  show "\<forall>grp \<in> set gs. in_order (SortableObjects_Less h) grp"
    by (rule SortedResourceGroups_None(2) [OF assms])
qed

text \<open>
  C1: on a graph without cycles the groups partition the objects, every object comes in a
  later group than everything it depends on, no object could have come in an earlier group,
  and every group is in the order of the kinds.
\<close>

theorem groups_respect_dependencies:
  assumes "graph_wf g" and "SortedResourceGroups h g = (gs, None, g')"
  shows "distinct (concat gs) \<and> set (concat gs) = vertices g \<and>
    (\<forall>i < length gs. \<forall>v \<in> set (gs ! i). \<forall>d. (v, d) \<in> dep_rel g \<longrightarrow> (\<exists>j < i. d \<in> set (gs ! j))) \<and>
    (\<forall>i. Suc i < length gs \<longrightarrow> (\<forall>v \<in> set (gs ! Suc i). \<exists>d \<in> set (gs ! i). (v, d) \<in> dep_rel g)) \<and>
    (\<forall>grp \<in> set gs. in_order (SortableObjects_Less h) grp)"
  by (rule SortedResourceGroups_layers [OF assms])

text \<open>
  C15: the sort fails exactly when the dependencies have a cycle, and then the error names
  dependencies that exist, at least one of them.
\<close>

theorem groups_fail_iff_cyclic:
  assumes "graph_wf g"
  shows "(fst (snd (SortedResourceGroups h g)) = None \<longleftrightarrow> acyclic (dep_rel g)) \<and>
    (\<forall>err. fst (snd (SortedResourceGroups h g)) = Some err \<longrightarrow>
      (\<exists>ds. err = CyclicDependencyError ds \<and> ds \<noteq> [] \<and>
        (\<forall>d \<in> set ds. \<exists>v w. (v, w) \<in> dep_rel g \<and>
           d = Dependency (ObjectMetadataFromUnstructured (h v)) (ObjectMetadataFromUnstructured (h w)))))"
proof (rule SortedResourceGroups_cases [OF assms, of h])
  fix gs g' stuck
  assume "SortedResourceGroups h g =
      (gs, Some (CyclicDependencyError (cyclicalDependencies h g' stuck)), g')"
    and "\<not> acyclic (dep_rel g)" and "stuck \<noteq> []" and "loop_inv (dep_rel g) g' stuck"
    and "\<And>v. v \<in> set stuck \<Longrightarrow> dep_rel g `` {v} \<inter> set stuck \<noteq> {}"
  then show ?thesis
    using cyclical_are_edges [of "dep_rel g" g' stuck h] by simp
qed simp

subsection \<open>The sort consumes the graph\<close>

lemma groupsLoop_consumes:
  assumes "groupsLoop h g live groups = (gs, None, g')" and "distinct live"
  shows "map fst (edges g') = map fst (edges g) \<and>
    (\<forall>v. set (targets g' v) \<subseteq> set (targets g v)) \<and> (\<forall>v \<in> set live. targets g' v = [])"
  using assms
proof (induction h g live groups rule: groupsLoop.induct)
  case (1 h g live groups)
  let ?group = "freeVertices g live"
  let ?next = "foldl deleteVertex (live, g) ?group"
  show ?case
  proof (cases "live = [] \<or> ?group = []")
    case True
    with "1.prems" show ?thesis by (auto simp: groupsLoop.simps [of h g live groups] split: if_splits)
  next
    case False
    with "1.prems"(1) have "groupsLoop h (snd ?next) (fst ?next)
        (groups @ [sort_Sort (SortableObjects_Less h) ?group]) = (gs, None, g')"
      by (subst (asm) groupsLoop.simps) (simp add: Let_def)
    moreover have "distinct (fst ?next)"
      using "1.prems"(2) by (simp add: fst_foldl_deleteVertex)
    ultimately have IH: "map fst (edges g') = map fst (edges (snd ?next))"
        "\<And>v. set (targets g' v) \<subseteq> set (targets (snd ?next) v)"
        "\<And>v. v \<in> set (fst ?next) \<Longrightarrow> targets g' v = []"
      using "1.IH" [OF _ refl] False by blast+
    have sub: "set (targets g' v) \<subseteq> set (targets g v)" for v
      using IH(2) [of v] targets_foldl_shrink [of "(live, g)" ?group v] by auto
    have "targets g' v = []" if "v \<in> set live" for v
    proof (cases "v \<in> set ?group")
      case True
      with sub [of v] show ?thesis by (simp add: freeVertices_def)
    next
      case False
      with that IH(3) show ?thesis by (simp add: fst_foldl_deleteVertex)
    qed
    with IH(1) sub show ?thesis by (simp add: keys_foldl_deleteVertex)
  qed
qed

text \<open>
  C40: the clone of the edges is shallow, so a sort that succeeds leaves the graph with the
  same vertices and no dependency at all; sorting the same graph again puts everything in
  one group.
\<close>

theorem sort_consumes_graph:
  assumes "graph_wf g" and "vertices g \<noteq> {}" and "SortedResourceGroups h g = (gs, None, g')"
  shows "dep_rel g' = {} \<and> vertices g' = vertices g \<and>
    fst (SortedResourceGroups h g') = [sort_Sort (SortableObjects_Less h) (map fst (edges g))]"
proof -
  have "distinct (map fst (edges g))" using assms(1) by (simp add: graph_wf_def)
  with groupsLoop_consumes assms(3)
  have keys: "map fst (edges g') = map fst (edges g)"
    and sub: "\<And>v. set (targets g' v) \<subseteq> set (targets g v)"
    and none: "\<And>v. v \<in> vertices g \<Longrightarrow> targets g' v = []"
    unfolding SortedResourceGroups_def vertices_keys [symmetric] by blast+
  have "targets g' v = []" if "v \<notin> vertices g" for v
  proof -
    have "dep_rel g `` {v} = {}" using that dep_rel_vertices [OF assms(1)] by blast
    then have "set (targets g v) = {}" by (simp add: dep_rel_def Image_def)
    with sub [of v] show ?thesis by simp
  qed
  with none have empty: "targets g' v = []" for v by blast
  have nonempty: "edges g \<noteq> []" using assms(2) by (auto simp: vertices_def)
  have free: "freeVertices g' (map fst (edges g)) = map fst (edges g)"
    by (simp add: freeVertices_def empty)
  have "fst (SortedResourceGroups h g') = [sort_Sort (SortableObjects_Less h) (map fst (edges g))]"
    unfolding SortedResourceGroups_def keys
    by (subst groupsLoop.simps, subst groupsLoop.simps)
       (simp add: free nonempty fst_foldl_deleteVertex Let_def)
  with empty keys show ?thesis
    by (simp add: dep_rel_def vertices_keys [symmetric])
qed

subsection \<open>Witnesses\<close>

definition example_heap :: "unit unstructured heap" where
  "example_heap r =
     example_object (GroupVersionKind '''' ''v1'' ''ConfigMap'') [char_of (97 + r)] ''ns''"

lemma example_graph_sorted:
  "SortedResourceGroups example_heap example_graph =
     ([[0], [1], [2]], None, \<lparr>edges = [(1, []), (0, []), (2, [])]\<rparr>)"
  by code_simp

lemma example_cycle:
  "SortedResourceGroups example_heap (addEdge (addEdge \<lparr>edges = []\<rparr> 1 0) 0 1) =
     ([], Some (CyclicDependencyError
        [Dependency (ObjectMetadata ''b'' ''ns'' '''' ''ConfigMap'') (ObjectMetadata ''a'' ''ns'' '''' ''ConfigMap''),
         Dependency (ObjectMetadata ''a'' ''ns'' '''' ''ConfigMap'') (ObjectMetadata ''b'' ''ns'' '''' ''ConfigMap'')]),
      \<lparr>edges = [(1, [0]), (0, [1])]\<rparr>)"
  by code_simp

theorem groups_respect_dependencies_witness:
  "distinct (concat [[0], [1], [2::ref]]) \<and> set (concat [[0], [1], [2]]) = vertices example_graph"
  using groups_respect_dependencies [OF example_graph_wf example_graph_sorted] by blast

theorem groups_fail_iff_cyclic_witness:
  "\<not> acyclic (dep_rel (addEdge (addEdge \<lparr>edges = []\<rparr> 1 0) 0 1))"
proof -
  have "graph_wf (addEdge (addEdge \<lparr>edges = []\<rparr> 1 0) 0 1)"
    by (intro addEdge_wf graph_wf_empty)
  from groups_fail_iff_cyclic [OF this, of example_heap] example_cycle show ?thesis by simp
qed

theorem sort_consumes_graph_witness:
  "fst (SortedResourceGroups example_heap \<lparr>edges = [(1, []), (0, []), (2, [])]\<rparr>) =
     [sort_Sort (SortableObjects_Less example_heap) (map fst (edges example_graph))]"
proof -
  have "vertices example_graph \<noteq> {}" by (simp add: example_graph_def vertices_addEdge)
  from sort_consumes_graph [OF example_graph_wf this example_graph_sorted] show ?thesis by simp
qed

end
