(* ===== verification/Graph_Builder.thy ===== *)
theory Graph_Builder
  imports Resource_Graph
begin

text \<open>
  \<open>NewDependencyGraph\<close> and \<open>dependendenciesForObj\<close> of \<open>pkg/resource/graph.go\<close>: which
  dependencies a list of objects has. Two passes: the first collects the objects others may
  depend on, the second adds the edges.
\<close>

subsection \<open>The two passes\<close>

record collected =
  c_graph :: DependencyGraph
  c_crds :: "(GroupKind, ref) gomap"
  c_namespaces :: "(string, ref) gomap"
  c_webhooks :: "(ObjectMetadata, ref list) gomap"
  c_lookup :: "(ObjectMetadata, ref) gomap"

definition collect_start :: collected where
  "collect_start = \<lparr>c_graph = \<lparr>edges = []\<rparr>, c_crds = [], c_namespaces = [], c_webhooks = [],
     c_lookup = []\<rparr>"

definition add_webhook :: "ref \<Rightarrow> (ObjectMetadata, ref list) gomap \<Rightarrow> ObjectMetadata \<Rightarrow> (ObjectMetadata, ref list) gomap" where
  "add_webhook obj webhooks svc =
     AList.update svc (lookup_zero [] webhooks svc @ [obj]) webhooks"

definition collect_step :: "'c converter \<Rightarrow> 'c unstructured heap \<Rightarrow> collected \<Rightarrow> ref \<Rightarrow> collected exec" where
  "collect_step lib h s obj =
     (let s = s\<lparr>c_graph := addVertex (c_graph s) obj,
                c_lookup := AList.update (ObjectMetadataFromUnstructured (h obj)) obj (c_lookup s)\<rparr>
      in if IsCRD (h obj) then
           (case toCRD lib (h obj) of
              Inl err \<Rightarrow> Done s
            | Inr typedCRD \<Rightarrow>
                Done (s\<lparr>c_crds := AList.update (GroupKind (crdGroup typedCRD) (crdKind typedCRD)) obj (c_crds s)\<rparr>))
         else if IsNamespace (h obj) then
           Done (s\<lparr>c_namespaces := AList.update (objName (h obj)) obj (c_namespaces s)\<rparr>)
         else if IsRegistrationWebhook (h obj) then
           bind_exec (servicesMetadataFromWebhook lib (h obj))
             (\<lambda>svcs. Done (s\<lparr>c_webhooks := foldl (add_webhook obj) (c_webhooks s) svcs\<rparr>))
         else Done s)"

fun collect :: "'c converter \<Rightarrow> 'c unstructured heap \<Rightarrow> collected \<Rightarrow> ref list \<Rightarrow> collected exec" where
  "collect lib h s [] = Done s"
| "collect lib h s (obj # objs) =
     bind_exec (collect_step lib h s obj) (\<lambda>s'. collect lib h s' objs)"

text \<open>The dependencies the annotation names, looked up among the objects of the run.\<close>

fun explicitLoop ::
  "ObjectMetadata \<Rightarrow> (ObjectMetadata, ref) gomap \<Rightarrow> ref list \<Rightarrow> go_error list \<Rightarrow>
   ObjectMetadata list \<Rightarrow> ref list \<times> go_error list" where
  "explicitLoop self lookup deps errors [] = (deps, errors)"
| "explicitLoop self lookup deps errors (dependencyMeta # metas) =
     (case map_of lookup dependencyMeta of
        Some depObj \<Rightarrow> explicitLoop self lookup (deps @ [depObj]) errors metas
      | None \<Rightarrow> explicitLoop self lookup deps
          (errors @ [ExternalDependencyError (Dependency self dependencyMeta)]) metas)"

definition dependendenciesForObj ::
  "'c unstructured heap \<Rightarrow> ref \<Rightarrow> (ObjectMetadata, ref) gomap \<Rightarrow> ref list \<times> go_error list" where
  "dependendenciesForObj h obj lookup =
     (let (dependencies, err) = ObjectExplicitDependencies (h obj)
      in explicitLoop (ObjectMetadataFromUnstructured (h obj)) lookup []
           (case err of None \<Rightarrow> [] | Some e \<Rightarrow> [e]) dependencies)"

definition link_step ::
  "'c unstructured heap \<Rightarrow> collected \<Rightarrow> DependencyGraph \<times> go_error list \<Rightarrow> ObjectMetadata \<times> ref \<Rightarrow>
   DependencyGraph \<times> go_error list" where
  "link_step h s acc entry =
     (let (objMeta, obj) = entry;
          g = fst acc;
          g = (case map_of (c_crds s) (GroupKind (Group objMeta) (Kind objMeta)) of
                 Some crd \<Rightarrow> addEdge g obj crd | None \<Rightarrow> g);
          g = (case map_of (c_namespaces s) (Namespace objMeta) of
                 Some ns \<Rightarrow> addEdge g obj ns | None \<Rightarrow> g);
          g = (case map_of (c_webhooks s) objMeta of
                 Some webhooks \<Rightarrow> foldl (\<lambda>g webhook. addEdge g webhook obj) g webhooks | None \<Rightarrow> g);
          (dependencies, errors) = dependendenciesForObj h obj (c_lookup s)
      in (foldl (\<lambda>g dep. addEdge g obj dep) g dependencies, snd acc @ errors))"

definition NewDependencyGraph ::
  "'c converter \<Rightarrow> 'c unstructured heap \<Rightarrow> ref list \<Rightarrow> (go_error + DependencyGraph) exec" where
  "NewDependencyGraph lib h objs =
     (if objs = [] then Done (Inr \<lparr>edges = []\<rparr>)
      else bind_exec (collect lib h collect_start objs)
        (\<lambda>s. let (graph, accumulatedErrors) = foldl (link_step h s) (c_graph s, []) (c_lookup s)
              in if accumulatedErrors \<noteq> [] then Done (Inl (Aggregate accumulatedErrors))
                 else Done (Inr graph)))"

subsection \<open>What the first pass collects\<close>

definition last_where :: "('a \<Rightarrow> bool) \<Rightarrow> 'a list \<Rightarrow> 'a option" where
  "last_where P xs = find P (rev xs)"

lemma last_where_append [simp]:
  "last_where P [] = None"
  "last_where P (xs @ [x]) = (if P x then Some x else last_where P xs)"
  by (simp_all add: last_where_def)

lemma last_where_Some: "last_where P xs = Some x \<Longrightarrow> x \<in> set xs \<and> P x"
  unfolding last_where_def by (metis find_Some_iff nth_mem set_rev)

lemma last_where_None: "last_where P xs = None \<longleftrightarrow> (\<forall>x \<in> set xs. \<not> P x)"
  by (auto simp: last_where_def find_None_iff)

text \<open>Looking for an element that is the only one with a property finds it.\<close>

lemma last_where_unique:
  assumes "x \<in> set xs" and "P x" and "\<And>y. y \<in> set xs \<Longrightarrow> P y \<Longrightarrow> y = x"
  shows "last_where P xs = Some x"
proof (cases "last_where P xs")
  case None
  with assms(1,2) show ?thesis by (simp add: last_where_None)
next
  case (Some y)
  with assms(3) last_where_Some [OF Some] show ?thesis by blast
qed

definition with_metadata :: "'c unstructured heap \<Rightarrow> ObjectMetadata \<Rightarrow> ref \<Rightarrow> bool" where
  "with_metadata h m r \<longleftrightarrow> ObjectMetadataFromUnstructured (h r) = m"

definition defines_kind :: "'c converter \<Rightarrow> 'c unstructured heap \<Rightarrow> GroupKind \<Rightarrow> ref \<Rightarrow> bool" where
  "defines_kind lib h gk r \<longleftrightarrow> IsCRD (h r) \<and>
     (case toCRD lib (h r) of Inl err \<Rightarrow> False
      | Inr crd \<Rightarrow> GroupKind (crdGroup crd) (crdKind crd) = gk)"

definition is_namespace :: "'c unstructured heap \<Rightarrow> string \<Rightarrow> ref \<Rightarrow> bool" where
  "is_namespace h ns r \<longleftrightarrow> IsNamespace (h r) \<and> objName (h r) = ns"

definition calls_service :: "'c converter \<Rightarrow> 'c unstructured heap \<Rightarrow> ObjectMetadata \<Rightarrow> ref \<Rightarrow> bool" where
  "calls_service lib h svc r \<longleftrightarrow> IsRegistrationWebhook (h r) \<and>
     (case servicesMetadataFromWebhook lib (h r) of Panic \<Rightarrow> False | Done svcs \<Rightarrow> svc \<in> set svcs)"

lemma kinds_apart:
  "IsCRD obj \<Longrightarrow> \<not> IsNamespace obj" "IsCRD obj \<Longrightarrow> \<not> IsRegistrationWebhook obj"
  "IsNamespace obj \<Longrightarrow> \<not> IsRegistrationWebhook obj"
  by (auto simp: IsCRD_def IsNamespace_def IsRegistrationWebhook_def crdGK_def namespaceGK_def
      validatingGK_def mutatingGK_def)

lemma add_webhooks:
  "set (lookup_zero [] (foldl (add_webhook obj) ws svcs) svc) =
     (if svc \<in> set svcs then {obj} else {}) \<union> set (lookup_zero [] ws svc)"
proof (induction svcs arbitrary: ws)
  case (Cons s svcs)
  have "set (lookup_zero [] (add_webhook obj ws s) svc) =
      (if svc = s then {obj} else {}) \<union> set (lookup_zero [] ws svc)"
    by (auto simp: add_webhook_def lookup_zero_def update_conv)
  with Cons show ?case by auto
qed simp

text \<open>The invariant of the first pass over the objects seen so far.\<close>

definition collected_from ::
  "'c converter \<Rightarrow> 'c unstructured heap \<Rightarrow> ref list \<Rightarrow> collected \<Rightarrow> bool" where
  "collected_from lib h seen s \<longleftrightarrow>
     graph_wf (c_graph s) \<and> vertices (c_graph s) = set seen \<and> dep_rel (c_graph s) = {} \<and>
     (\<forall>gk. map_of (c_crds s) gk = last_where (defines_kind lib h gk) seen) \<and>
     (\<forall>ns. map_of (c_namespaces s) ns = last_where (is_namespace h ns) seen) \<and>
     (\<forall>svc. set (lookup_zero [] (c_webhooks s) svc) = {r \<in> set seen. calls_service lib h svc r}) \<and>
     (\<forall>m. map_of (c_lookup s) m = last_where (with_metadata h m) seen) \<and>
     distinct (map fst (c_lookup s))"

lemma collected_from_start: "collected_from lib h [] collect_start"
  by (auto simp: collected_from_def collect_start_def graph_wf_empty vertices_def dep_rel_def
      targets_def lookup_zero_def)

lemma collect_step_collected:
  assumes "collected_from lib h seen s" and "collect_step lib h s obj = Done s'"
  shows "collected_from lib h (seen @ [obj]) s'"
proof -
  let ?s = "s\<lparr>c_graph := addVertex (c_graph s) obj,
    c_lookup := AList.update (ObjectMetadataFromUnstructured (h obj)) obj (c_lookup s)\<rparr>"
  note inv = assms(1) [unfolded collected_from_def]
  have g: "graph_wf (c_graph ?s) \<and> vertices (c_graph ?s) = set (seen @ [obj]) \<and>
      dep_rel (c_graph ?s) = {}"
    using inv by (auto simp: graph_simps)
  have l: "\<forall>m. map_of (c_lookup ?s) m = last_where (with_metadata h m) (seen @ [obj])"
      "distinct (map fst (c_lookup ?s))"
    using inv by (auto simp: update_conv with_metadata_def distinct_update)
  consider (crd) "IsCRD (h obj)" | (ns) "\<not> IsCRD (h obj)" "IsNamespace (h obj)"
    | (hook) "\<not> IsCRD (h obj)" "\<not> IsNamespace (h obj)" "IsRegistrationWebhook (h obj)"
    | (other) "\<not> IsCRD (h obj)" "\<not> IsNamespace (h obj)" "\<not> IsRegistrationWebhook (h obj)" by blast
  then show ?thesis
  proof cases
    case crd
    with inv g l assms(2) kinds_apart [of "h obj"] show ?thesis
      by (auto simp: collect_step_def collected_from_def Let_def defines_kind_def is_namespace_def
          calls_service_def update_conv split: sum.splits)
  next
    case ns
    with inv g l assms(2) kinds_apart [of "h obj"] show ?thesis
      by (auto simp: collect_step_def collected_from_def Let_def defines_kind_def is_namespace_def
          calls_service_def update_conv)
  next
    case hook
    then obtain svcs where "servicesMetadataFromWebhook lib (h obj) = Done svcs"
      and "s' = ?s\<lparr>c_webhooks := foldl (add_webhook obj) (c_webhooks s) svcs\<rparr>"
      using assms(2) by (cases "servicesMetadataFromWebhook lib (h obj)")
        (auto simp: collect_step_def Let_def)
    with hook inv g l show ?thesis
      by (auto simp: collected_from_def defines_kind_def is_namespace_def calls_service_def
          add_webhooks)
  next
    case other
    with inv g l assms(2) show ?thesis
      by (auto simp: collect_step_def collected_from_def Let_def defines_kind_def is_namespace_def
          calls_service_def)
  qed
qed

lemma collect_collected:
  assumes "collected_from lib h seen s" and "collect lib h s objs = Done s'"
  shows "collected_from lib h (seen @ objs) s'"
  using assms
proof (induction objs arbitrary: seen s)
  case (Cons obj objs)
  then obtain t where "collect_step lib h s obj = Done t" and "collect lib h t objs = Done s'"
    by (cases "collect_step lib h s obj") auto
  with Cons.IH [OF collect_step_collected [OF Cons.prems(1)]] show ?case by simp
qed simp

lemma collect_Panic:
  "collect lib h s objs = Panic \<longleftrightarrow>
     (\<exists>r \<in> set objs. IsRegistrationWebhook (h r) \<and> servicesMetadataFromWebhook lib (h r) = Panic)"
proof (induction objs arbitrary: s)
  case (Cons obj objs)
  have "collect_step lib h s obj = Panic \<longleftrightarrow>
      IsRegistrationWebhook (h obj) \<and> servicesMetadataFromWebhook lib (h obj) = Panic"
    using kinds_apart [of "h obj"]
    by (cases "servicesMetadataFromWebhook lib (h obj)")
       (auto simp: collect_step_def Let_def split: sum.splits)
  with Cons show ?case by (cases "collect_step lib h s obj") auto
qed simp

subsection \<open>What the second pass adds\<close>

lemma Field_pairs: "Field ({a} \<times> B) = (if B = {} then {} else insert a B)"
  "Field (A \<times> {b}) = (if A = {} then {} else insert b A)"
  by (auto simp: Field_def)

lemma addEdges_from:
  "dep_rel (foldl (\<lambda>g d. addEdge g obj d) g ds) = {obj} \<times> set ds \<union> dep_rel g"
  "vertices (foldl (\<lambda>g d. addEdge g obj d) g ds) = Field ({obj} \<times> set ds) \<union> vertices g"
  "graph_wf g \<Longrightarrow> graph_wf (foldl (\<lambda>g d. addEdge g obj d) g ds)"
proof -
  show "dep_rel (foldl (\<lambda>g d. addEdge g obj d) g ds) = {obj} \<times> set ds \<union> dep_rel g"
    by (induction ds arbitrary: g) (auto simp: dep_rel_addEdge)
  show "vertices (foldl (\<lambda>g d. addEdge g obj d) g ds) = Field ({obj} \<times> set ds) \<union> vertices g"
    by (induction ds arbitrary: g) (auto simp: vertices_addEdge Field_pairs)
  show "graph_wf g \<Longrightarrow> graph_wf (foldl (\<lambda>g d. addEdge g obj d) g ds)"
    by (induction ds arbitrary: g) auto
qed

lemma addEdges_to:
  "dep_rel (foldl (\<lambda>g w. addEdge g w obj) g ws) = set ws \<times> {obj} \<union> dep_rel g"
  "vertices (foldl (\<lambda>g w. addEdge g w obj) g ws) = Field (set ws \<times> {obj}) \<union> vertices g"
  "graph_wf g \<Longrightarrow> graph_wf (foldl (\<lambda>g w. addEdge g w obj) g ws)"
proof -
  show "dep_rel (foldl (\<lambda>g w. addEdge g w obj) g ws) = set ws \<times> {obj} \<union> dep_rel g"
    by (induction ws arbitrary: g) (auto simp: dep_rel_addEdge)
  show "vertices (foldl (\<lambda>g w. addEdge g w obj) g ws) = Field (set ws \<times> {obj}) \<union> vertices g"
    by (induction ws arbitrary: g) (auto simp: vertices_addEdge Field_pairs)
  show "graph_wf g \<Longrightarrow> graph_wf (foldl (\<lambda>g w. addEdge g w obj) g ws)"
    by (induction ws arbitrary: g) auto
qed

text \<open>The edges one entry of the lookup table adds.\<close>

definition entry_edges :: "'c unstructured heap \<Rightarrow> collected \<Rightarrow> ObjectMetadata \<times> ref \<Rightarrow> (ref \<times> ref) set" where
  "entry_edges h s entry =
     (let (m, obj) = entry in
      {obj} \<times> set_option (map_of (c_crds s) (GroupKind (Group m) (Kind m))) \<union>
      {obj} \<times> set_option (map_of (c_namespaces s) (Namespace m)) \<union>
      set (lookup_zero [] (c_webhooks s) m) \<times> {obj} \<union>
      {obj} \<times> set (fst (dependendenciesForObj h obj (c_lookup s))))"

lemma link_step_edges:
  "dep_rel (fst (link_step h s acc entry)) = entry_edges h s entry \<union> dep_rel (fst acc)"
  by (cases entry)
     (auto simp: link_step_def entry_edges_def lookup_zero_def addEdges_from addEdges_to
        dep_rel_addEdge Let_def split: option.splits prod.splits)

lemma link_step_wf: "graph_wf (fst acc) \<Longrightarrow> graph_wf (fst (link_step h s acc entry))"
  by (cases entry)
     (auto simp: link_step_def Let_def split: option.splits prod.splits
        intro!: addEdges_from(3) addEdges_to(3))

lemma link_step_errors:
  "snd (link_step h s acc (m, obj)) = snd acc @ snd (dependendenciesForObj h obj (c_lookup s))"
  by (auto simp: link_step_def Let_def split: option.splits prod.splits)

lemma link_step_vertices:
  "vertices (fst (link_step h s acc entry)) = Field (entry_edges h s entry) \<union> vertices (fst acc)"
  by (cases entry)
     (auto simp: link_step_def entry_edges_def lookup_zero_def addEdges_from addEdges_to
        vertices_addEdge Field_pairs Let_def split: option.splits prod.splits if_splits)

lemma link_all:
  "dep_rel (fst (foldl (link_step h s) acc es)) = \<Union> (entry_edges h s ` set es) \<union> dep_rel (fst acc)"
  "vertices (fst (foldl (link_step h s) acc es)) =
     \<Union> ((\<lambda>e. Field (entry_edges h s e)) ` set es) \<union> vertices (fst acc)"
  "graph_wf (fst acc) \<Longrightarrow> graph_wf (fst (foldl (link_step h s) acc es))"
  "snd (foldl (link_step h s) acc es) =
     snd acc @ concat (map (\<lambda>e. snd (dependendenciesForObj h (snd e) (c_lookup s))) es)"
proof -
  show "dep_rel (fst (foldl (link_step h s) acc es)) =
      \<Union> (entry_edges h s ` set es) \<union> dep_rel (fst acc)"
    by (induction es arbitrary: acc) (auto simp: link_step_edges)
  show "vertices (fst (foldl (link_step h s) acc es)) =
      \<Union> ((\<lambda>e. Field (entry_edges h s e)) ` set es) \<union> vertices (fst acc)"
    by (induction es arbitrary: acc) (auto simp: link_step_vertices)
  show "graph_wf (fst acc) \<Longrightarrow> graph_wf (fst (foldl (link_step h s) acc es))"
    by (induction es arbitrary: acc) (auto simp: link_step_wf)
  show "snd (foldl (link_step h s) acc es) =
      snd acc @ concat (map (\<lambda>e. snd (dependendenciesForObj h (snd e) (c_lookup s))) es)"
    by (induction es arbitrary: acc) (auto simp: link_step_errors)
qed

text \<open>The pass does not depend on the order in which the lookup table is iterated.\<close>

lemma explicitLoop_spec:
  "explicitLoop self lookup deps errors metas =
     (deps @ List.map_filter (map_of lookup) metas,
      errors @ map (\<lambda>m. ExternalDependencyError (Dependency self m))
        (filter (\<lambda>m. map_of lookup m = None) metas))"
  by (induction metas arbitrary: deps errors)
     (auto simp: List.map_filter_def split: option.splits)

lemma dependendenciesForObj_set:
  "set (fst (dependendenciesForObj h obj lookup)) =
     {d. \<exists>m \<in> set (fst (ObjectExplicitDependencies (h obj))). map_of lookup m = Some d}"
  by (force simp: dependendenciesForObj_def explicitLoop_spec List.map_filter_def
      split: prod.splits option.splits)

lemma dependendenciesForObj_errors:
  "snd (dependendenciesForObj h obj lookup) = [] \<longleftrightarrow>
     snd (ObjectExplicitDependencies (h obj)) = None \<and>
     (\<forall>m \<in> set (fst (ObjectExplicitDependencies (h obj))). map_of lookup m \<noteq> None)"
  by (auto simp: dependendenciesForObj_def explicitLoop_spec filter_empty_conv
      split: prod.splits option.splits)

subsection \<open>Which dependencies the graph has\<close>

text \<open>
  Of several objects with the same metadata only the last one is looked at; \<open>current\<close> says
  that an object is that one.
\<close>

definition current :: "'c unstructured heap \<Rightarrow> ref list \<Rightarrow> ref \<Rightarrow> bool" where
  "current h objs r \<longleftrightarrow>
     last_where (with_metadata h (ObjectMetadataFromUnstructured (h r))) objs = Some r"

text \<open>
  The specification: an object depends on the definition of its kind, on its namespace, on
  the objects its annotation names, and, for a webhook configuration, on the services it
  calls.
\<close>

definition depends :: "'c converter \<Rightarrow> 'c unstructured heap \<Rightarrow> ref list \<Rightarrow> ref \<Rightarrow> ref \<Rightarrow> bool" where
  "depends lib h objs from to \<longleftrightarrow>
     current h objs from \<and>
       (last_where (defines_kind lib h (objGK (h from))) objs = Some to \<or>
        last_where (is_namespace h (objNamespace (h from))) objs = Some to \<or>
        (\<exists>m \<in> set (fst (ObjectExplicitDependencies (h from))). last_where (with_metadata h m) objs = Some to)) \<or>
     current h objs to \<and> from \<in> set objs \<and>
       calls_service lib h (ObjectMetadataFromUnstructured (h to)) from"

text \<open>An annotation that cannot be read, or that names an object that is not in the run.\<close>

definition bad_annotation :: "'c unstructured heap \<Rightarrow> ref list \<Rightarrow> ref \<Rightarrow> bool" where
  "bad_annotation h objs r \<longleftrightarrow>
     snd (ObjectExplicitDependencies (h r)) \<noteq> None \<or>
     (\<exists>m \<in> set (fst (ObjectExplicitDependencies (h r))). \<forall>o' \<in> set objs. \<not> with_metadata h m o')"

lemma lookup_entries:
  assumes "collected_from lib h objs s"
  shows "(m, r) \<in> set (c_lookup s) \<longleftrightarrow> current h objs r \<and> m = ObjectMetadataFromUnstructured (h r)"
proof -
  have "(m, r) \<in> set (c_lookup s) \<longleftrightarrow> last_where (with_metadata h m) objs = Some r"
    using assms by (metis collected_from_def map_of_eq_Some_iff)
  then show ?thesis
    unfolding current_def using last_where_Some with_metadata_def by metis
qed

lemma current_mem: "current h objs r \<Longrightarrow> r \<in> set objs"
  unfolding current_def using last_where_Some by metis

lemma entry_edges_depends:
  assumes "collected_from lib h objs s"
  shows "\<Union> (entry_edges h s ` set (c_lookup s)) = {(from, to). depends lib h objs from to}"
    (is "?L = ?R")
proof -
  have gk: "GroupKind (Group (ObjectMetadataFromUnstructured (h r)))
      (Kind (ObjectMetadataFromUnstructured (h r))) = objGK (h r)" for r
    by simp
  have entry: "entry_edges h s (ObjectMetadataFromUnstructured (h r), r) =
      {(r, d) |d. last_where (defines_kind lib h (objGK (h r))) objs = Some d \<or>
         last_where (is_namespace h (objNamespace (h r))) objs = Some d \<or>
         (\<exists>m \<in> set (fst (ObjectExplicitDependencies (h r))). last_where (with_metadata h m) objs = Some d)} \<union>
      {(w, r) |w. w \<in> set objs \<and> calls_service lib h (ObjectMetadataFromUnstructured (h r)) w}" for r
    using assms
    by (auto simp: entry_edges_def collected_from_def dependendenciesForObj_set gk)
  have "?L = (\<Union>r \<in> {r. current h objs r}. entry_edges h s (ObjectMetadataFromUnstructured (h r), r))"
    using lookup_entries [OF assms] by force
  also have "\<dots> = ?R"
    unfolding entry depends_def by blast
  finally show ?thesis .
qed

lemma depends_mem:
  assumes "depends lib h objs from to"
  shows "from \<in> set objs \<and> to \<in> set objs"
  using assms current_mem [of h objs] last_where_Some [of _ objs to]
  by (auto simp: depends_def)

lemma link_errors:
  assumes "collected_from lib h objs s"
  shows "concat (map (\<lambda>e. snd (dependendenciesForObj h (snd e) (c_lookup s))) (c_lookup s)) = [] \<longleftrightarrow>
    \<not> (\<exists>r. current h objs r \<and> bad_annotation h objs r)"
proof -
  have bad: "snd (dependendenciesForObj h r (c_lookup s)) = [] \<longleftrightarrow> \<not> bad_annotation h objs r" for r
    using assms by (auto simp: dependendenciesForObj_errors bad_annotation_def collected_from_def
        last_where_None)
  have "concat (map (\<lambda>e. snd (dependendenciesForObj h (snd e) (c_lookup s))) (c_lookup s)) = [] \<longleftrightarrow>
      (\<forall>e \<in> set (c_lookup s). \<not> bad_annotation h objs (snd e))"
    by (simp add: bad)
  also have "\<dots> \<longleftrightarrow> \<not> (\<exists>r. current h objs r \<and> bad_annotation h objs r)"
    using lookup_entries [OF assms] by force
  finally show ?thesis .
qed

lemma NewDependencyGraph_cases:
  obtains (empty) "objs = []" and "NewDependencyGraph lib h objs = Done (Inr \<lparr>edges = []\<rparr>)"
  | (panic) "collect lib h collect_start objs = Panic" and "NewDependencyGraph lib h objs = Panic"
  | (built) s g errs where "objs \<noteq> []" and "collected_from lib h objs s"
      and "collect lib h collect_start objs = Done s"
      and "NewDependencyGraph lib h objs =
        Done (if errs \<noteq> [] then Inl (Aggregate errs) else Inr g)"
      and "graph_wf g" and "vertices g = set objs"
      and "dep_rel g = {(from, to). depends lib h objs from to}"
      and "errs = [] \<longleftrightarrow> \<not> (\<exists>r. current h objs r \<and> bad_annotation h objs r)"
proof (cases "objs = [] \<or> collect lib h collect_start objs = Panic")
  case True
  show thesis
  proof (cases "objs = []")
    case True
    then show thesis by (intro empty) (simp_all add: NewDependencyGraph_def)
  next
    case False
    with \<open>objs = [] \<or> _\<close> show thesis by (intro panic) (simp_all add: NewDependencyGraph_def)
  qed
next
  case False
  then obtain s where s: "collect lib h collect_start objs = Done s"
    by (cases "collect lib h collect_start objs") auto
  from collect_collected [OF collected_from_start s] have inv: "collected_from lib h objs s" by simp
  let ?r = "foldl (link_step h s) (c_graph s, []) (c_lookup s)"
  have start: "graph_wf (c_graph s)" "vertices (c_graph s) = set objs" "dep_rel (c_graph s) = {}"
    using inv by (auto simp: collected_from_def)
  note all = link_all [where h = h and s = s and acc = "(c_graph s, [])" and es = "c_lookup s"]
  have rel: "dep_rel (fst ?r) = {(from, to). depends lib h objs from to}"
    using all(1) entry_edges_depends [OF inv] start by simp
  have "\<Union> ((\<lambda>e. Field (entry_edges h s e)) ` set (c_lookup s)) =
      Field {(from, to). depends lib h objs from to}"
    unfolding entry_edges_depends [OF inv, symmetric] by (auto simp: Field_def)
  then have "vertices (fst ?r) = set objs"
    using all(2) depends_mem [of lib h objs] start by (auto simp: Field_def)
  moreover have "NewDependencyGraph lib h objs =
      Done (if snd ?r \<noteq> [] then Inl (Aggregate (snd ?r)) else Inr (fst ?r))"
    using False s by (simp add: NewDependencyGraph_def split: prod.splits)
  moreover have "graph_wf (fst ?r)" using all(3) start by simp
  moreover have "snd ?r = [] \<longleftrightarrow> \<not> (\<exists>r. current h objs r \<and> bad_annotation h objs r)"
    using all(4) link_errors [OF inv] by simp
  ultimately show thesis using False inv s rel built by blast
qed

lemma depends_Nil: "\<not> depends lib h [] from to"
  using depends_mem [of lib h "[]" "from" to] by auto

lemma NewDependencyGraph_Inr:
  assumes "NewDependencyGraph lib h objs = Done (Inr g)"
  shows "graph_wf g \<and> vertices g = set objs \<and> dep_rel g = {(from, to). depends lib h objs from to}"
proof (rule NewDependencyGraph_cases [of objs lib h])
  assume "objs = []" and "NewDependencyGraph lib h objs = Done (Inr \<lparr>edges = []\<rparr>)"
  with assms show ?thesis
    by (simp add: graph_wf_empty vertices_def depends_Nil dep_rel_def targets_def lookup_zero_def)
qed (use assms in \<open>auto split: if_splits\<close>)

text \<open>
  C14: when the graph is built its vertices are the objects of the run and its edges are
  exactly the dependencies of the specification: on the definition of the kind, on the
  namespace, on what the annotation names, and of webhook configurations on their services.
\<close>

theorem graph_edges_spec:
  assumes "NewDependencyGraph lib h objs = Done (Inr g)"
  shows "graph_wf g \<and> vertices g = set objs \<and>
    (\<forall>from to. (from, to) \<in> dep_rel g \<longleftrightarrow> depends lib h objs from to)"
  using NewDependencyGraph_Inr [OF assms] by simp



definition group_index :: "ref list list \<Rightarrow> ref \<Rightarrow> nat" where
  "group_index gs r = length (takeWhile (\<lambda>g. r \<notin> set g) gs)"

lemma group_index_nth:
  assumes "distinct (concat gs)" and "i < length gs" and "r \<in> set (gs ! i)"
  shows "group_index gs r = i"
  using assms
proof (induction gs arbitrary: i)
  case (Cons g gs)
  show ?case
  proof (cases i)
    case 0
    with Cons.prems show ?thesis by (simp add: group_index_def)
  next
    case (Suc k)
    with Cons.prems have "r \<in> set (concat gs)" by auto
    with Cons.prems have "r \<notin> set g" by auto
    with Cons Suc show ?thesis by (simp add: group_index_def)
  qed
qed simp

lemma groups_order:
  assumes "graph_wf g" and "SortedResourceGroups h g = (gs, None, g')" and "(v, d) \<in> dep_rel g"
  shows "group_index gs d < group_index gs v"
proof -
  note r = SortedResourceGroups_layers [OF assms(1,2)]
  have "v \<in> set (concat gs)" using r dep_rel_vertices [OF assms(1)] assms(3) by auto
  then obtain i where i: "i < length gs" "v \<in> set (gs ! i)"
    by (metis concat_eq_Nil_conv in_set_conv_nth length_greater_0_conv set_concat UN_E)
  with r assms(3) obtain j where j: "j < i" "d \<in> set (gs ! j)" by blast
  have "distinct (concat gs)" using r by blast
  from group_index_nth [OF this i] group_index_nth [OF this _ j(2)] i j show ?thesis by simp
qed

text \<open>
  C16: the groups of a run put every object after its namespace and after the definition of
  its kind, when these are among the objects and no two objects have the same metadata.
\<close>

theorem groups_after_namespace_and_crd:
  assumes "inj_on (\<lambda>r. ObjectMetadataFromUnstructured (h r)) (set objs)"
    and "NewDependencyGraph lib h objs = Done (Inr g)"
    and "SortedResourceGroups h g = (gs, None, g')"
    and "obj \<in> set objs" and "dep \<in> set objs"
    and "is_namespace h (objNamespace (h obj)) dep \<and>
           (\<forall>o' \<in> set objs. is_namespace h (objNamespace (h obj)) o' \<longrightarrow> o' = dep) \<or>
         defines_kind lib h (objGK (h obj)) dep \<and>
           (\<forall>o' \<in> set objs. defines_kind lib h (objGK (h obj)) o' \<longrightarrow> o' = dep)"
  shows "group_index gs dep < group_index gs obj"
proof -
  have "current h objs obj"
    unfolding current_def using assms(1,4)
    by (intro last_where_unique) (auto simp: with_metadata_def inj_on_def)
  moreover have "last_where (is_namespace h (objNamespace (h obj))) objs = Some dep \<or>
      last_where (defines_kind lib h (objGK (h obj))) objs = Some dep"
    using assms(5,6) last_where_unique [of dep objs] by blast
  ultimately have "depends lib h objs obj dep" by (auto simp: depends_def)
  with NewDependencyGraph_Inr [OF assms(2)] groups_order [OF _ assms(3)] show ?thesis by blast
qed

subsection \<open>Witnesses\<close>

definition run_heap :: "unit unstructured heap" where
  "run_heap r =
     (if r = 0 then example_object (GroupVersionKind '''' ''v1'' ''ConfigMap'') ''cm'' ''ns''
      else example_object (GroupVersionKind '''' ''v1'' ''Namespace'') ''ns'' [])"

lemma run_graph:
  "NewDependencyGraph no_conversion run_heap [0, 1] = Done (Inr \<lparr>edges = [(0, [1]), (1, [])]\<rparr>)"
  by code_simp

lemma run_groups:
  "SortedResourceGroups run_heap \<lparr>edges = [(0, [1]), (1, [])]\<rparr> =
     ([[1], [0]], None, \<lparr>edges = [(0, []), (1, [])]\<rparr>)"
  by code_simp

theorem graph_edges_spec_witness:
  "depends no_conversion run_heap [0, 1] 0 1 \<and> \<not> depends no_conversion run_heap [0, 1] 1 0"
proof -
  have "depends no_conversion run_heap [0, 1] from to \<longleftrightarrow>
      (from, to) \<in> dep_rel \<lparr>edges = [(0, [1]), (1, [])]\<rparr>" for "from" to
    using graph_edges_spec [OF run_graph] by simp
  then show ?thesis by (simp add: dep_rel_def targets_def lookup_zero_def)
qed

theorem groups_after_namespace_and_crd_witness:
  "group_index [[1], [0]] 1 < group_index [[1], [0::ref]] 0"
proof (rule groups_after_namespace_and_crd [OF _ run_graph run_groups])
  show "inj_on (\<lambda>r. ObjectMetadataFromUnstructured (run_heap r)) (set [0, 1])"
    by (auto simp: inj_on_def run_heap_def example_object_def ObjectMetadataFromUnstructured_def)
qed (simp_all add: is_namespace_def run_heap_def example_object_def IsNamespace_def objGK_def
    groupKind_def namespaceGK_def)


end
