(* ===== verification/Queue_Builder.thy ===== *)
theory Queue_Builder
  imports Task_Wait Graph_Builder
begin

text \<open>
  \<open>pkg/client/queuebuilder.go\<close>: the tasks of a run, in the order in which the runner takes
  them. A task is a value of \<open>Task\<close>; the queue is the list of its tasks, and is closed behind
  them.
\<close>

subsection \<open>The queue\<close>

datatype ('c, 'w) Task =
    Apply "('c, 'w) ApplyTask" | Wait "ref list" | Prune PruneTask | InventoryTask (invDryRun: bool)

record QueueOptions =
  optWait :: bool
  optionDryRun :: bool
  optPrune :: bool
  optionFieldManager :: string

record ('c, 'w) QueueBuilder =
  objects :: "ref list"
  pruneObjects :: "ref list"
  queueFilters :: "('c, 'w) filter_fn list"
  queueInfoFetcher :: "('c, 'w process) InfoFetcher"

definition WithObjects :: "ref list \<Rightarrow> ('c, 'w) QueueBuilder \<Rightarrow> ('c, 'w) QueueBuilder" where
  "WithObjects objs b = b \<lparr> objects := objs \<rparr>"

definition WithPruneObjects :: "ref list \<Rightarrow> ('c, 'w) QueueBuilder \<Rightarrow> ('c, 'w) QueueBuilder" where
  "WithPruneObjects objs b = b \<lparr> pruneObjects := objs \<rparr>"

definition groupTasks :: "('c, 'w) QueueBuilder \<Rightarrow> QueueOptions \<Rightarrow> ref list \<Rightarrow> ('c, 'w) Task list" where
  "groupTasks b options grp =
     Apply \<lparr> applyDryRun = optionDryRun options, applyFieldManager = optionFieldManager options,
       applyObjects = grp, applyFilters = queueFilters b, applyInfoFetcher = queueInfoFetcher b \<rparr> #
     (if \<not> optionDryRun options \<and> optWait options then [Wait grp] else [])"

definition pruneTasks :: "'c unstructured heap \<Rightarrow> ('c, 'w) QueueBuilder \<Rightarrow> QueueOptions \<Rightarrow> ('c, 'w) Task list" where
  "pruneTasks h b options =
     (if optPrune options \<and> length (pruneObjects b) > 0
      then [Prune \<lparr> pruneDryRun = optionDryRun options, pruneFieldManager = optionFieldManager options,
        pruneTaskObjects = sort_Sort (sort_Reverse (SortableObjects_Less h)) (pruneObjects b) \<rparr>]
      else [])"

definition Build ::
  "'c converter \<Rightarrow> 'c unstructured heap \<Rightarrow> ('c, 'w) QueueBuilder \<Rightarrow> QueueOptions \<Rightarrow>
     (go_error + ('c, 'w) Task list) exec" where
  "Build lib h b options =
     bind_exec
       (if length (objects b) > 0 then
          bind_exec (NewDependencyGraph lib h (objects b)) (\<lambda>r.
            case r of
              Inl err \<Rightarrow> Done (Inl err)
            | Inr graph \<Rightarrow>
                (case SortedResourceGroups h graph of
                   (gs, Some err, g') \<Rightarrow> Done (Inl err)
                 | (gs, None, g') \<Rightarrow> Done (Inr (concat (map (groupTasks b options) gs)))))
        else Done (Inr []))
       (\<lambda>r. case r of
          Inl err \<Rightarrow> Done (Inl err)
        | Inr tasks \<Rightarrow> Done (Inr (tasks @ pruneTasks h b options @ [InventoryTask (optionDryRun options)])))"

subsection \<open>The order of the tasks\<close>

lemma Build_cases:
  assumes "Build lib h b options = Done (Inr tasks)"
  obtains gs where "tasks = concat (map (groupTasks b options) gs) @ pruneTasks h b options @ [InventoryTask (optionDryRun options)]"
    and "objects b = [] \<Longrightarrow> gs = []"
    and "objects b \<noteq> [] \<Longrightarrow> \<exists>g g'. NewDependencyGraph lib h (objects b) = Done (Inr g) \<and>
           SortedResourceGroups h g = (gs, None, g')"
proof (cases "objects b = []")
  case True
  then show ?thesis using assms that [of "[]"] by (simp add: Build_def)
next
  case False
  obtain r where r: "NewDependencyGraph lib h (objects b) = Done r"
    using assms False by (cases "NewDependencyGraph lib h (objects b)") (auto simp: Build_def)
  obtain g where g: "r = Inr g" using assms False r by (cases r) (auto simp: Build_def)
  obtain gs err g' where sorted: "SortedResourceGroups h g = (gs, err, g')" by (rule prod_cases3)
  have "err = None" using assms False r g sorted by (cases err) (auto simp: Build_def)
  with False r g sorted assms show ?thesis by (intro that [of gs]) (auto simp: Build_def)
qed

text \<open>The objects that a task applies, and those it waits for.\<close>

fun applies :: "('c, 'w) Task \<Rightarrow> ref list" where
  "applies (Apply t) = applyObjects t"
| "applies _ = []"

fun waits_for :: "('c, 'w) Task \<Rightarrow> ref list" where
  "waits_for (Wait objs) = objs"
| "waits_for _ = []"

lemma groups_split:
  assumes "distinct (concat gs)" and "dep \<in> set (concat gs)" and "obj \<in> set (concat gs)"
    and "group_index gs dep < group_index gs obj"
  obtains gs1 g1 gs2 g2 gs3 where "gs = gs1 @ g1 # gs2 @ g2 # gs3" and "dep \<in> set g1" and "obj \<in> set g2"
proof -
  obtain i where i: "i < length gs" "dep \<in> set (gs ! i)"
    using assms(2) by (auto simp: in_set_conv_nth) (metis nth_mem)
  obtain j where j: "j < length gs" "obj \<in> set (gs ! j)"
    using assms(3) by (auto simp: in_set_conv_nth) (metis nth_mem)
  have "i < j" using group_index_nth [OF assms(1) i] group_index_nth [OF assms(1) j] assms(4) by simp
  have "gs = take i gs @ gs ! i # drop (Suc i) gs" using i(1) by (rule id_take_nth_drop)
  moreover have "drop (Suc i) gs = take (j - Suc i) (drop (Suc i) gs) @ gs ! j # drop (Suc j) gs"
    using id_take_nth_drop [of "j - Suc i" "drop (Suc i) gs"] \<open>i < j\<close> j(1) by simp
  ultimately show ?thesis using that i(2) j(2) by metis
qed

text \<open>
  The groups behind a queue: a partition of the objects in which every dependency is in an
  earlier group.
\<close>

lemma Build_groups:
  assumes "Build lib h b options = Done (Inr tasks)"
  obtains gs where "tasks = concat (map (groupTasks b options) gs) @ pruneTasks h b options @ [InventoryTask (optionDryRun options)]"
    and "distinct (concat gs)" and "set (concat gs) = set (objects b)"
    and "\<And>obj dep. depends lib h (objects b) obj dep \<Longrightarrow>
      obj \<in> set (concat gs) \<and> dep \<in> set (concat gs) \<and> group_index gs dep < group_index gs obj"
proof (rule Build_cases [OF assms])
  fix gs
  assume tasks: "tasks = concat (map (groupTasks b options) gs) @ pruneTasks h b options @ [InventoryTask (optionDryRun options)]"
    and empty: "objects b = [] \<Longrightarrow> gs = []"
    and groups: "objects b \<noteq> [] \<Longrightarrow> \<exists>g g'. NewDependencyGraph lib h (objects b) = Done (Inr g) \<and>
           SortedResourceGroups h g = (gs, None, g')"
  show thesis
  proof (cases "objects b = []")
    case True
    then show thesis using tasks empty depends_Nil [of lib h] by (intro that [of gs]) auto
  next
    case False
    with groups obtain g g' where g: "NewDependencyGraph lib h (objects b) = Done (Inr g)"
      "SortedResourceGroups h g = (gs, None, g')" by blast
    from NewDependencyGraph_Inr [OF g(1)] have wf: "graph_wf g" and objs: "vertices g = set (objects b)"
      and edges: "dep_rel g = {(from, to). depends lib h (objects b) from to}" by blast+
    from SortedResourceGroups_layers [OF wf g(2)] have layers: "distinct (concat gs)" "set (concat gs) = vertices g"
      by blast+
    show thesis
    proof (rule that [OF tasks layers(1)])
      show "set (concat gs) = set (objects b)" by (simp only: layers(2) objs)
      fix obj dep
      assume "depends lib h (objects b) obj dep"
      then have edge: "(obj, dep) \<in> dep_rel g" by (simp add: edges)
      then show "obj \<in> set (concat gs) \<and> dep \<in> set (concat gs) \<and> group_index gs dep < group_index gs obj"
        using dep_rel_vertices [OF wf] layers(2) groups_order [OF wf g(2) edge] by blast
    qed
  qed
qed

lemma group_applies: "concat (map applies (concat (map (groupTasks b options) gs))) = concat gs"
  by (induction gs) (auto simp: groupTasks_def)

lemma prune_applies: "concat (map applies (pruneTasks h b options @ [InventoryTask dry])) = []"
  by (simp add: pruneTasks_def)

lemma group_tasks_kinds: "t \<in> set (concat (map (groupTasks b options) gs)) \<Longrightarrow> t \<noteq> Prune p \<and> t \<noteq> InventoryTask dry"
  by (auto simp: groupTasks_def)

lemma Build_applies:
  assumes "Build lib h b options = Done (Inr tasks)"
  shows "distinct (concat (map applies tasks)) \<and> set (concat (map applies tasks)) = set (objects b)"
proof (rule Build_groups [OF assms])
  fix gs
  assume tasks: "tasks = concat (map (groupTasks b options) gs) @ pruneTasks h b options @ [InventoryTask (optionDryRun options)]"
    and gs: "distinct (concat gs)" "set (concat gs) = set (objects b)"
  have "concat (map applies tasks) = concat gs"
    unfolding tasks map_append concat_append group_applies using prune_applies [of h b options] by simp
  then show ?thesis using gs by simp
qed

lemma Build_prunes:
  assumes "Build lib h b options = Done (Inr tasks)"
  shows "\<exists>ts. tasks = ts @ pruneTasks h b options @ [InventoryTask (optionDryRun options)] \<and>
      (\<forall>t \<in> set ts. \<forall>p dry. t \<noteq> Prune p \<and> t \<noteq> InventoryTask dry)"
proof (rule Build_groups [OF assms])
  fix gs
  assume tasks: "tasks = concat (map (groupTasks b options) gs) @ pruneTasks h b options @ [InventoryTask (optionDryRun options)]"
  have "\<forall>t \<in> set (concat (map (groupTasks b options) gs)). \<forall>p dry. t \<noteq> Prune p \<and> t \<noteq> InventoryTask dry"
    by (intro ballI allI) (rule group_tasks_kinds)
  with tasks show ?thesis by metis
qed

text \<open>The objects that a task deletes.\<close>

fun prunes :: "('c, 'w) Task \<Rightarrow> ref list" where
  "prunes (Prune p) = pruneTaskObjects p"
| "prunes _ = []"

lemma Build_pruned:
  assumes "Build lib h b options = Done (Inr tasks)" and "optPrune options"
  shows "set (concat (map prunes tasks)) = set (pruneObjects b)"
proof -
  obtain ts where ts: "tasks = ts @ pruneTasks h b options @ [InventoryTask (optionDryRun options)]"
    "\<forall>t \<in> set ts. \<forall>p dry. t \<noteq> Prune p \<and> t \<noteq> InventoryTask dry"
    using Build_prunes [OF assms(1)] by blast
  have "prunes t = []" if "t \<in> set ts" for t
    using ts(2) that by (cases t) auto
  then have "concat (map prunes ts) = []" by simp
  then show ?thesis using assms(2) by (simp add: ts(1) pruneTasks_def)
qed

text \<open>An object is applied behind a task that applies its dependency, and waits for it if the run waits.\<close>

lemma Build_order:
  assumes "Build lib h b options = Done (Inr tasks)" and "depends lib h (objects b) obj dep"
  shows "\<exists>ts1 t1 ts2 t2 ts3. tasks = ts1 @ t1 # ts2 @ t2 # ts3 \<and> dep \<in> set (applies t1) \<and> obj \<in> set (applies t2) \<and>
      (optWait options \<and> \<not> optionDryRun options \<longrightarrow> (\<exists>t \<in> set ts2. dep \<in> set (waits_for t)))"
proof (rule Build_groups [OF assms(1)])
  fix gs
  assume tasks: "tasks = concat (map (groupTasks b options) gs) @ pruneTasks h b options @ [InventoryTask (optionDryRun options)]"
    and dist: "distinct (concat gs)"
    and "\<And>obj dep. depends lib h (objects b) obj dep \<Longrightarrow>
      obj \<in> set (concat gs) \<and> dep \<in> set (concat gs) \<and> group_index gs dep < group_index gs obj"
  then have mem: "dep \<in> set (concat gs)" "obj \<in> set (concat gs)" "group_index gs dep < group_index gs obj"
    using assms(2) by blast+
  obtain gs1 g1 gs2 g2 gs3 where split: "gs = gs1 @ g1 # gs2 @ g2 # gs3" "dep \<in> set g1" "obj \<in> set g2"
    by (rule groups_split [OF dist mem])
  let ?w = "\<lambda>grp. (if \<not> optionDryRun options \<and> optWait options then [Wait grp] else []) :: ('a, 'b) Task list"
  have "\<exists>t. groupTasks b options grp = t # ?w grp \<and> applies t = grp" for grp
    by (simp add: groupTasks_def)
  then obtain t1 t2 where t: "groupTasks b options g1 = t1 # ?w g1" "applies t1 = g1"
    "groupTasks b options g2 = t2 # ?w g2" "applies t2 = g2"
    by metis
  have "tasks = concat (map (groupTasks b options) gs1) @ t1 # (?w g1 @ concat (map (groupTasks b options) gs2)) @ t2 #
      (?w g2 @ concat (map (groupTasks b options) gs3) @ pruneTasks h b options @ [InventoryTask (optionDryRun options)])"
    by (simp add: tasks split(1) t)
  moreover have "optWait options \<and> \<not> optionDryRun options \<longrightarrow>
      (\<exists>t \<in> set (?w g1 @ concat (map (groupTasks b options) gs2)). dep \<in> set (waits_for t))"
    using split(2) by auto
  ultimately show ?thesis using t split(2,3) by metis
qed

text \<open>
  C2: The queue of a run: every object of the run is applied by exactly one task and nothing else
  is; an object that depends on another is applied after it, and, in a run that waits, after a
  task that waits for it; then, where the run prunes and there is something to prune, one task
  deletes exactly these objects in the reversed order of the kinds; and the inventory is saved
  last.
\<close>

theorem queue_order:
  assumes "Build lib h b options = Done (Inr tasks)"
  shows "distinct (concat (map applies tasks)) \<and> set (concat (map applies tasks)) = set (objects b) \<and>
    (\<forall>obj dep. depends lib h (objects b) obj dep \<longrightarrow>
      (\<exists>ts1 t1 ts2 t2 ts3. tasks = ts1 @ t1 # ts2 @ t2 # ts3 \<and> dep \<in> set (applies t1) \<and> obj \<in> set (applies t2) \<and>
        (optWait options \<and> \<not> optionDryRun options \<longrightarrow> (\<exists>t \<in> set ts2. dep \<in> set (waits_for t))))) \<and>
    (\<exists>ts ps. tasks = ts @ ps @ [InventoryTask (optionDryRun options)] \<and>
      (\<forall>t \<in> set ts. \<forall>p dry. t \<noteq> Prune p \<and> t \<noteq> InventoryTask dry) \<and>
      (if optPrune options \<and> pruneObjects b \<noteq> []
       then \<exists>p. ps = [Prune p] \<and> mset (pruneTaskObjects p) = mset (pruneObjects b) \<and>
         pruneDryRun p = optionDryRun options \<and> in_order (sort_Reverse (SortableObjects_Less h)) (pruneTaskObjects p)
       else ps = []))"
proof -
  obtain ts where ts: "tasks = ts @ pruneTasks h b options @ [InventoryTask (optionDryRun options)]"
    "\<forall>t \<in> set ts. \<forall>p dry. t \<noteq> Prune p \<and> t \<noteq> InventoryTask dry"
    using Build_prunes [OF assms] by blast
  have "if optPrune options \<and> pruneObjects b \<noteq> []
      then \<exists>p. pruneTasks h b options = [Prune p] \<and> mset (pruneTaskObjects p) = mset (pruneObjects b) \<and>
        pruneDryRun p = optionDryRun options \<and> in_order (sort_Reverse (SortableObjects_Less h)) (pruneTaskObjects p)
      else pruneTasks h b options = []"
    by (simp add: pruneTasks_def reversed.sort_Sort_in_order)
  with ts show ?thesis using Build_applies [OF assms] Build_order [OF assms] by blast
qed

definition example_builder :: "(unit, nat) QueueBuilder" where
  "example_builder = \<lparr> objects = [0, 1], pruneObjects = [], queueFilters = [],
     queueInfoFetcher = (\<lambda>obj w. Inr (Info obj (cluster_mapping (objGK obj)))) \<rparr>"

definition example_options :: QueueOptions where
  "example_options = \<lparr> optWait = True, optionDryRun = False, optPrune = True, optionFieldManager = ''jpl'' \<rparr>"

lemma example_Build:
  "Build no_conversion run_heap example_builder example_options =
    Done (Inr (groupTasks example_builder example_options [1] @ groupTasks example_builder example_options [0] @
      [InventoryTask False]))"
  by (simp add: Build_def example_builder_def run_graph [unfolded One_nat_def]
      run_groups [unfolded One_nat_def] pruneTasks_def example_options_def)

theorem queue_order_witness:
  "\<exists>ts1 t1 ts2 t2 ts3. groupTasks example_builder example_options [1] @ groupTasks example_builder example_options [0] @
      [InventoryTask False] = ts1 @ t1 # ts2 @ t2 # ts3 \<and> 1 \<in> set (applies t1) \<and> 0 \<in> set (applies t2) \<and>
      (\<exists>t \<in> set ts2. 1 \<in> set (waits_for t))"
proof -
  have "depends no_conversion run_heap [0, 1] 0 1"
  proof -
    have "(0, 1) \<in> dep_rel \<lparr>edges = [(0, [1]), (1, [])]\<rparr>"
      by (simp add: dep_rel_def targets_def lookup_zero_def)
    with NewDependencyGraph_Inr [OF run_graph] show ?thesis by simp
  qed
  then have "depends no_conversion run_heap (objects example_builder) 0 1"
    by (simp add: example_builder_def)
  from queue_order [OF example_Build, THEN conjunct2, THEN conjunct2, THEN conjunct1, rule_format, OF this] show ?thesis
    by (simp only: example_options_def QueueOptions.simps simp_thms)
qed

end
