(* ===== verification/Task_Runner.thy ===== *)
theory Task_Runner
  imports Queue_Builder
begin

text \<open>
  \<open>pkg/runner/runner.go\<close>: the runner takes the tasks off their queue one after the other
  until the queue is closed and empty or the context of the run has ended. Its \<open>select\<close> picks
  freely between the two where both are ready, and the context can end at any moment, so that
  the runner is a step relation. What holds of every runner is proved in the locale
  \<open>task_runner\<close>, which is interpreted on the tasks of the model.
\<close>

subsection \<open>One task\<close>

text \<open>
  What the tasks of a run share: the libraries they call, the store of the inventory and the
  poller, which answers with the messages it sends and with whether it closes its channel.
\<close>

record ('c, 'b, 'm, 's, 'w) runtime =
  rtPrinters :: printers
  rtRest :: "('c, 'b, 'm, 'w) rest_lib"
  rtMapper :: "'w process rest_mapper"
  rtClient :: "('c, 'w process) dynamic_client"
  rtStore :: "('c, 's, 'w process) store_ops"
  rtPoller :: "'w process \<Rightarrow> ref list \<Rightarrow> Event list \<times> bool"

type_synonym ('c, 's, 'w) run_state = "'s RunnerState \<times> ('c, 'w process) world"

text \<open>Running a task; \<open>None\<close> stands for a wait that blocks for ever.\<close>

fun Task_Run ::
  "('c, 'b, 'm, 's, 'w) runtime \<Rightarrow> ('c, 'w) Task \<Rightarrow> ('c, 's, 'w) run_state \<Rightarrow> ('c, 's, 'w) run_state option" where
  "Task_Run rt (Apply t) (st, v) = Some (ApplyTask_Run (rtPrinters rt) (rtRest rt) RunnerState_ops t st v)"
| "Task_Run rt (Wait objs) (st, v) =
     (case WaitTask_Run (rtMapper rt) (rtPoller rt (remote v)) RunnerState_ops objs st v of
        (st', v', how) \<Rightarrow> if how = Some Blocked then None else Some (st', v'))"
| "Task_Run rt (Prune t) (st, v) = Some (PruneTask_Run (rtMapper rt) (rtClient rt) RunnerState_ops t st v)"
| "Task_Run rt (InventoryTask dry) (st, v) = Some (InventoryTask_Run (rtStore rt) dry st v)"

subsection \<open>The loop\<close>

text \<open>
  A configuration: the queue, the state, how the context ended, if it did, and the value that
  \<open>RunWithQueue\<close> returned, if it did.
\<close>

record ('task, 'st) runner =
  queue :: "'task list"
  state :: 'st
  ctxErr :: "go_error option"
  returned :: "go_error option option"

inductive runner_step ::
  "('task \<Rightarrow> 'st \<Rightarrow> 'st option) \<Rightarrow> ('task, 'st) runner \<Rightarrow> ('task, 'st) runner \<Rightarrow> bool"
  for run :: "'task \<Rightarrow> 'st \<Rightarrow> 'st option" where
  cancelled: "returned r = None \<Longrightarrow> ctxErr r = None \<Longrightarrow> runner_step run r (r \<lparr> ctxErr := Some err \<rparr>)"
| stop: "returned r = None \<Longrightarrow> ctxErr r = Some err \<Longrightarrow> runner_step run r (r \<lparr> returned := Some (Some err) \<rparr>)"
| closed: "returned r = None \<Longrightarrow> queue r = [] \<Longrightarrow> runner_step run r (r \<lparr> returned := Some None \<rparr>)"
| task: "returned r = None \<Longrightarrow> queue r = t # ts \<Longrightarrow> run t (state r) = Some st' \<Longrightarrow>
    runner_step run r (r \<lparr> queue := ts, state := st' \<rparr>)"

definition RunWithQueue :: "'st \<Rightarrow> 'task list \<Rightarrow> ('task, 'st) runner" where
  "RunWithQueue st ts = \<lparr> queue = ts, state = st, ctxErr = None, returned = None \<rparr>"

text \<open>Running a list of tasks in order.\<close>

fun run_tasks :: "('task \<Rightarrow> 'st \<Rightarrow> 'st option) \<Rightarrow> 'task list \<Rightarrow> 'st \<Rightarrow> 'st option" where
  "run_tasks run [] st = Some st"
| "run_tasks run (t # ts) st = (case run t st of None \<Rightarrow> None | Some st' \<Rightarrow> run_tasks run ts st')"

lemma run_tasks_append:
  "run_tasks run (ts @ us) st = (case run_tasks run ts st of None \<Rightarrow> None | Some st' \<Rightarrow> run_tasks run us st')"
  by (induction ts arbitrary: st) (auto split: option.splits)

lemma run_tasks_snoc:
  "run_tasks run ts st = Some st' \<Longrightarrow> run t st' = Some st'' \<Longrightarrow> run_tasks run (ts @ [t]) st = Some st''"
  by (simp add: run_tasks_append)

text \<open>
  A runner whose tasks keep an invariant: \<open>inv\<close> holds of the state in every configuration it
  reaches.
\<close>

locale task_runner =
  fixes run :: "'task \<Rightarrow> 'st \<Rightarrow> 'st option" and invariant :: "'st \<Rightarrow> bool"
  assumes run_invariant: "invariant st \<Longrightarrow> run t st = Some st' \<Longrightarrow> invariant st'"
begin

lemma run_tasks_invariant: "run_tasks run ts st = Some st' \<Longrightarrow> invariant st \<Longrightarrow> invariant st'"
  by (induction ts arbitrary: st) (auto split: option.splits intro: run_invariant)

lemma reachable_prefix:
  "(runner_step run)\<^sup>*\<^sup>* (RunWithQueue st ts) r \<Longrightarrow>
    \<exists>ran. ts = ran @ queue r \<and> run_tasks run ran st = Some (state r) \<and>
      (returned r = Some None \<longrightarrow> queue r = []) \<and>
      (\<forall>err. returned r = Some (Some err) \<longrightarrow> ctxErr r = Some err)"
proof (induction rule: rtranclp_induct)
  case base
  show ?case by (simp add: RunWithQueue_def)
next
  case (step r r')
  then obtain ran where ran: "ts = ran @ queue r" "run_tasks run ran st = Some (state r)" by blast
  from step(2) show ?case
  proof cases
    case (task t us st')
    then show ?thesis
      using ran run_tasks_snoc [OF ran(2) task(4)] by (intro exI [of _ "ran @ [t]"]) simp
  qed (use step ran in auto)
qed

lemma reachable_invariant:
  assumes "(runner_step run)\<^sup>*\<^sup>* (RunWithQueue st ts) r" and "invariant st"
  shows "invariant (state r)"
  using reachable_prefix [OF assms(1)] run_tasks_invariant assms(2) by blast

end

lemma completes:
  "run_tasks run ts st = Some st' \<Longrightarrow>
    (runner_step run)\<^sup>*\<^sup>* \<lparr> queue = ts, state = st, ctxErr = c, returned = None \<rparr>
      \<lparr> queue = [], state = st', ctxErr = c, returned = Some None \<rparr>"
proof (induction ts arbitrary: st)
  case Nil
  have "runner_step run \<lparr> queue = [], state = st, ctxErr = c, returned = None \<rparr>
      (\<lparr> queue = [], state = st, ctxErr = c, returned = None \<rparr> \<lparr> returned := Some None \<rparr>)"
    by (rule runner_step.closed) simp_all
  with Nil show ?case by auto
next
  case (Cons t ts)
  then obtain st1 where t: "run t st = Some st1" "run_tasks run ts st1 = Some st'"
    by (auto split: option.splits)
  have "runner_step run \<lparr> queue = t # ts, state = st, ctxErr = c, returned = None \<rparr>
      (\<lparr> queue = t # ts, state = st, ctxErr = c, returned = None \<rparr> \<lparr> queue := ts, state := st1 \<rparr>)"
    using t(1) by (intro runner_step.task) simp_all
  then have "runner_step run \<lparr> queue = t # ts, state = st, ctxErr = c, returned = None \<rparr>
      \<lparr> queue = ts, state = st1, ctxErr = c, returned = None \<rparr>" by simp
  from converse_rtranclp_into_rtranclp [of "runner_step run", OF this Cons.IH [OF t(2)]] show ?case .
qed

subsection \<open>The end of a run\<close>

text \<open>Every step takes a task off the queue, ends the context or returns.\<close>

definition steps_left :: "('task, 'st) runner \<Rightarrow> nat" where
  "steps_left r = length (queue r) + (if ctxErr r = None then 1 else 0) + (if returned r = None then 1 else 0)"

lemma runner_step_decreases: "runner_step run r r' \<Longrightarrow> steps_left r = Suc (steps_left r')"
  by (induction rule: runner_step.induct) (auto simp: steps_left_def)

lemma runner_steps_bound: "(runner_step run ^^ n) r r' \<Longrightarrow> steps_left r = n + steps_left r'"
proof (induction n arbitrary: r')
  case (Suc n)
  then obtain r1 where "(runner_step run ^^ n) r r1" "runner_step run r1 r'" by auto
  with Suc.IH runner_step_decreases show ?case by fastforce
qed simp

text \<open>
  C23: The loop of the runner terminates: whatever the scheduler and the context do, it makes at
  most two steps more than its queue has tasks, and while it has not returned it can go on
  without the help of its context, unless the task at the head of the queue blocks for ever.
\<close>

theorem run_terminates:
  assumes "(runner_step run ^^ n) (RunWithQueue st ts) r"
  shows "n \<le> length ts + 2 \<and>
    (returned r = None \<longrightarrow> (\<forall>t \<in> set (take 1 (queue r)). run t (state r) \<noteq> None) \<longrightarrow>
      (\<exists>r'. runner_step run r r' \<and> ctxErr r' = ctxErr r))"
proof (intro conjI impI)
  show "n \<le> length ts + 2"
    using runner_steps_bound [OF assms] by (simp add: steps_left_def RunWithQueue_def)
  assume running: "returned r = None" and ready: "\<forall>t \<in> set (take 1 (queue r)). run t (state r) \<noteq> None"
  show "\<exists>r'. runner_step run r r' \<and> ctxErr r' = ctxErr r"
  proof (cases "queue r")
    case Nil
    with running show ?thesis by (intro exI [of _ "r \<lparr> returned := Some None \<rparr>"]) (simp add: runner_step.closed)
  next
    case (Cons t ts')
    with ready obtain st' where "run t (state r) = Some st'" by auto
    with running Cons show ?thesis
      by (intro exI [of _ "r \<lparr> queue := ts', state := st' \<rparr>"]) (simp add: runner_step.task)
  qed
qed

theorem run_terminates_witness:
  "\<exists>r'. runner_step (\<lambda>(t :: nat) st. Some (st + t)) (RunWithQueue 0 [5]) r' \<and> ctxErr r' = None"
proof -
  have "(runner_step (\<lambda>(t :: nat) st. Some (st + t)) ^^ 0) (RunWithQueue 0 [5]) (RunWithQueue 0 [5])" by simp
  from run_terminates [OF this] show ?thesis by (simp add: RunWithQueue_def)
qed

subsection \<open>The tasks of a run\<close>

text \<open>The manager knows exactly the outcomes that the events reported.\<close>

definition recorded :: "('c, 's, 'w) run_state \<Rightarrow> bool" where
  "recorded s \<longleftrightarrow> manager_wf (manager (fst s)) \<and>
     (\<forall>obj. outcome (manager (fst s)) obj = log_outcome None (eventChannel (fst s)) obj)"

lemma recorded_send_all:
  assumes "recorded (st, v)"
  shows "recorded (send_all RunnerState_ops es st, v')"
  using assms by (simp add: recorded_def outcome_send_all runner_state.log_send_all)

lemma recorded_SendEvent: "recorded (st, v) \<Longrightarrow> recorded (SendEvent RunnerState_ops e st, v')"
  using recorded_send_all [of st v "[e]" v'] by simp

lemma recorded_world: "recorded (st, v) \<Longrightarrow> recorded (st, v')"
  by (simp add: recorded_def)

lemma SaveCurrentInventoryState_manager:
  "SaveCurrentInventoryState store h dry m w = (res, m', w') \<Longrightarrow>
    outcome m' = outcome m \<and> startingObjects m' = startingObjects m \<and> objectStatuses m' = objectStatuses m"
  by (auto simp: SaveCurrentInventoryState_def Let_def outcome_def split: prod.splits)

lemma recorded_manager:
  assumes "recorded (st, v)" and "objectStatuses m = objectStatuses (manager st)"
  shows "recorded (st \<lparr> manager := m \<rparr>, v)"
  using assms by (simp add: recorded_def manager_wf_def outcome_def)

text \<open>What a task does to the state, for every task but the one that saves the inventory.\<close>

lemma ApplyTask_Run_sends:
  "\<exists>es v'. apply_log (applyObjects t) es \<and> ApplyTask_Run pr lib ops t st v = (send_all ops es st, v')"
  unfolding ApplyTask_Run_def
  using ApplyLoop_log [of "applyObjects t" pr lib ops t v] by blast

lemma PruneTask_Run_sends:
  "\<exists>es v'. (\<forall>e \<in> set es. event_wf e \<and> evType e = TypePrune) \<and>
     PruneTask_Run mapper client ops t st v = (send_all ops es st, v')"
proof -
  let ?answers = "prune_answers mapper client (objHeap v) (pruneDryRun t) (pruneTaskObjects t) (remote v)"
  let ?es = "concat (map2 prune_events (pruneTaskObjects t) ?answers)"
  have "\<forall>e \<in> set ?es. event_wf e \<and> evType e = TypePrune"
    by (auto simp: prune_events_def split: option.splits if_splits)
  moreover have "fst (PruneTask_Run mapper client ops t st v) = send_all ops ?es st"
    by (simp add: PruneTask_Run_def PruneLoop_send_all)
  ultimately show ?thesis by (metis prod.collapse)
qed

lemma WaitTask_Run_sends:
  "WaitTask_Run mapper start ops objs st v = (st', v', how) \<Longrightarrow>
    \<exists>es. set es \<subseteq> set (fst (start (pollerObjects ops st objs))) \<and> st' = send_all ops es st"
proof (cases "pollerObjects ops st objs = []")
  case True
  moreover assume "WaitTask_Run mapper start ops objs st v = (st', v', how)"
  ultimately have "st' = send_all ops [] st" by (simp add: WaitTask_Run_def Let_def)
  then show ?thesis by (intro exI [of _ "[]"]) simp
next
  case False
  assume run: "WaitTask_Run mapper start ops objs st v = (st', v', how)"
  let ?watch = "watchedIds (objHeap v) (pollerObjects ops st objs)"
  obtain msgs closed where start: "start (pollerObjects ops st objs) = (msgs, closed)" by (rule prod.exhaust)
  have watch: "?watch \<noteq> []" using False watchedIds_set by (metis image_is_empty set_empty)
  have "st' = send_all ops (forwarded msgs ?watch) st"
    using run start False WaitLoop_state [OF watch, of ops closed msgs False st]
    by (auto simp: WaitTask_Run_def Let_def split: prod.splits)
  moreover have "set (forwarded msgs ?watch) \<subseteq> set msgs" using forwarded_watched by blast
  ultimately show ?thesis using start by (intro exI [of _ "forwarded msgs ?watch"]) simp
qed

lemma Task_Run_recorded:
  assumes "recorded s" and "Task_Run rt t s = Some s'"
  shows "recorded s'"
proof -
  obtain st v where s: "s = (st, v)" by (rule prod.exhaust)
  show ?thesis
  proof (cases t)
    case (Apply a)
    then show ?thesis
      using assms s ApplyTask_Run_sends [of a "rtPrinters rt" "rtRest rt" RunnerState_ops st v]
      by (auto intro: recorded_send_all)
  next
    case (Wait objs)
    obtain st' v' how where run: "WaitTask_Run (rtMapper rt) (rtPoller rt (remote v)) RunnerState_ops objs st v = (st', v', how)"
      by (rule prod_cases3)
    with Wait assms s WaitTask_Run_sends [OF run] show ?thesis
      by (auto split: if_splits intro: recorded_send_all)
  next
    case (Prune p)
    then show ?thesis
      using assms s PruneTask_Run_sends [of "rtMapper rt" "rtClient rt" RunnerState_ops p st v]
      by (auto intro: recorded_send_all)
  next
    case (InventoryTask dry)
    let ?st1 = "SendEvent RunnerState_ops (inventoryEvent EventPending None) st"
    obtain res m w where save: "SaveCurrentInventoryState (rtStore rt) (objHeap v) dry (manager ?st1) (remote v) = (res, m, w)"
      by (rule prod_cases3)
    have "recorded (?st1 \<lparr> manager := m \<rparr>, v)"
      using recorded_send_all [OF assms(1) [unfolded s], of "[inventoryEvent EventPending None]" v]
        SaveCurrentInventoryState_manager [OF save] by (intro recorded_manager) simp_all
    moreover have "s' = (SendEvent RunnerState_ops
        (inventoryEvent (if res = None then EventSuccessful else EventFailed) res) (?st1 \<lparr> manager := m \<rparr>),
        v \<lparr> remote := w \<rparr>)"
      using InventoryTask_Run_result [OF save] InventoryTask assms(2) s by simp
    ultimately show ?thesis by (simp only: recorded_SendEvent)
  qed
qed

lemma Task_Run_startingObjects:
  assumes "startingObjects (manager (fst s)) = tracked" and "Task_Run rt t s = Some s'"
  shows "startingObjects (manager (fst s')) = tracked"
proof -
  obtain st v where s: "s = (st, v)" by (rule prod.exhaust)
  show ?thesis
  proof (cases t)
    case (Apply a)
    then show ?thesis
      using assms s ApplyTask_Run_sends [of a "rtPrinters rt" "rtRest rt" RunnerState_ops st v] by auto
  next
    case (Wait objs)
    obtain st' v' how where run: "WaitTask_Run (rtMapper rt) (rtPoller rt (remote v)) RunnerState_ops objs st v = (st', v', how)"
      by (rule prod_cases3)
    with Wait assms s WaitTask_Run_sends [OF run] show ?thesis by (auto split: if_splits)
  next
    case (Prune p)
    then show ?thesis
      using assms s PruneTask_Run_sends [of "rtMapper rt" "rtClient rt" RunnerState_ops p st v] by auto
  next
    case (InventoryTask dry)
    let ?st1 = "SendEvent RunnerState_ops (inventoryEvent EventPending None) st"
    obtain res m w where save: "SaveCurrentInventoryState (rtStore rt) (objHeap v) dry (manager ?st1) (remote v) = (res, m, w)"
      by (rule prod_cases3)
    have "startingObjects m = tracked"
      using SaveCurrentInventoryState_manager [OF save] assms(1) s by simp
    moreover have s': "s' = InventoryTask_Run (rtStore rt) dry st v" using InventoryTask assms(2) s by simp
    ultimately show ?thesis unfolding s' InventoryTask_Run_result [OF save] by simp
  qed
qed

interpretation tracked:
  task_runner "Task_Run rt :: ('c, 'w) Task \<Rightarrow> ('c, 's, 'w) run_state \<Rightarrow> ('c, 's, 'w) run_state option"
    "\<lambda>s. startingObjects (manager (fst s)) = objs"
  for rt :: "('c, 'b, 'm, 's, 'w) runtime" and objs
  by unfold_locales (rule Task_Run_startingObjects)

interpretation tasks:
  task_runner "Task_Run rt :: ('c, 'w) Task \<Rightarrow> ('c, 's, 'w) run_state \<Rightarrow> ('c, 's, 'w) run_state option" recorded
  for rt :: "('c, 'b, 'm, 's, 'w) runtime"
  by unfold_locales (rule Task_Run_recorded)

text \<open>
  C12: Whatever the scheduler and the context do, the tasks a run has executed are a prefix of
  its queue, in order; it returns without an error only behind the last task, and with an error
  only the error of its context; and the manager knows of every object exactly the last outcome
  that the events reported.
\<close>

theorem run_is_a_prefix:
  assumes "(runner_step (Task_Run rt))\<^sup>*\<^sup>* (RunWithQueue s ts) r" and "recorded s"
  shows "(\<exists>ran. ts = ran @ queue r \<and> run_tasks (Task_Run rt) ran s = Some (state r)) \<and>
    (returned r = Some None \<longrightarrow> run_tasks (Task_Run rt) ts s = Some (state r)) \<and>
    (\<forall>err. returned r = Some (Some err) \<longrightarrow> ctxErr r = Some err) \<and>
    (\<forall>obj. outcome (manager (fst (state r))) obj = log_outcome None (eventChannel (fst (state r))) obj)"
  using tasks.reachable_prefix [OF assms(1)] tasks.reachable_invariant [OF assms] by (auto simp: recorded_def)

definition example_runtime :: "(unit, unit, unit, configMapStore, nat) runtime" where
  "example_runtime = \<lparr> rtPrinters = example_printers, rtRest = example_rest,
     rtMapper = \<lparr> map_kind = (\<lambda>w gk vs. Inr (cluster_mapping gk)), reset_mapper = (\<lambda>w. w) \<rparr>,
     rtClient = \<lparr> dyn_Get = (\<lambda>gvr ns n w. (Inl (ErrorNew ''no''), w)), dyn_Delete = (\<lambda>gvr ns n opts w. (None, w)) \<rparr>,
     rtStore = \<lparr> store_Load = (\<lambda>s w. (Inr [], w)), store_Save = (\<lambda>h dry s w. (None, w)),
       store_Delete = (\<lambda>dry s w. (None, w)), store_SetObjects = configMap_SetObjects \<rparr>,
     rtPoller = (\<lambda>w objs. (map (\<lambda>r. ready_message (metadata_of example_heap3 r)) objs, True)) \<rparr>"

definition example_start :: "(unit, configMapStore, nat) run_state" where
  "example_start = (\<lparr> eventChannel = [], manager = NewManager example_store [] \<rparr>, example_process_world)"

theorem run_is_a_prefix_witness:
  "\<exists>r. (runner_step (Task_Run example_runtime))\<^sup>*\<^sup>* (RunWithQueue example_start [InventoryTask True]) r \<and>
     returned r = Some None \<and> run_tasks (Task_Run example_runtime) [InventoryTask True] example_start = Some (state r)"
proof -
  have ran: "run_tasks (Task_Run example_runtime) [InventoryTask True] example_start =
      Some (InventoryTask_Run (rtStore example_runtime) True (fst example_start) (snd example_start))"
    by (simp add: example_start_def)
  have reach: "(runner_step (Task_Run example_runtime))\<^sup>*\<^sup>* (RunWithQueue example_start [InventoryTask True])
      \<lparr> queue = [], state = InventoryTask_Run (rtStore example_runtime) True (fst example_start) (snd example_start),
        ctxErr = None, returned = Some None \<rparr>"
    unfolding RunWithQueue_def by (rule completes [OF ran])
  have "recorded example_start"
    by (simp add: recorded_def example_start_def outcome_def NewManager_def log_outcome_def manager_wf_def)
  from run_is_a_prefix [OF reach this] reach show ?thesis by auto
qed

end
