(* ===== verification/Applier.thy ===== *)
theory Applier
  imports Task_Runner
begin

text \<open>
  \<open>pkg/client/applier.go\<close>: a run of the applier. It loads the objects of the inventory,
  generates and mutates the manifests, builds the queue of tasks and hands it to the runner.
  A generator and a mutator are the two functions of their interfaces; a generator may allocate
  objects, a mutator changes the object at its address.
\<close>

subsection \<open>Loading the inventory\<close>

fun loadLoop ::
  "(ObjectMetadata \<Rightarrow> ('c, 'w) world \<Rightarrow> (ref option \<times> go_error option) \<times> ('c, 'w) world) \<Rightarrow>
     ObjectMetadata list \<Rightarrow> ref list \<Rightarrow> ('c, 'w) world \<Rightarrow> (go_error + ref list) \<times> ('c, 'w) world" where
  "loadLoop get [] remoteObjects w = (Inr remoteObjects, w)"
| "loadLoop get (objID # ids) remoteObjects w =
     (case get objID w of
        ((obj, Some err), w') \<Rightarrow> (Inl err, w')
      | ((Some r, None), w') \<Rightarrow> loadLoop get ids (remoteObjects @ [r]) w'
      | ((None, None), w') \<Rightarrow> loadLoop get ids remoteObjects w')"

definition loadObjectsFromInventory ::
  "('c, 's, 'w) store_ops \<Rightarrow> 's \<Rightarrow>
     (ObjectMetadata \<Rightarrow> ('c, 'w) world \<Rightarrow> (ref option \<times> go_error option) \<times> ('c, 'w) world) \<Rightarrow>
     ('c, 'w) world \<Rightarrow> (go_error + ref list) \<times> ('c, 'w) world" where
  "loadObjectsFromInventory store inventory get w =
     (case store_Load store inventory (remote w) of
        (Inl err, w') \<Rightarrow> (Inl err, w \<lparr> remote := w' \<rparr>)
      | (Inr objIDs, w') \<Rightarrow> loadLoop get objIDs [] (w \<lparr> remote := w' \<rparr>))"

context RemoteResourceGetter
begin

lemma get_step:
  assumes "valid w" and "get ident w = (res, w')"
  shows "valid w'" and "nextRef w \<le> nextRef w'" and "\<And>r. r < nextRef w \<Longrightarrow> objHeap w' r = objHeap w r"
  using get_valid [OF assms] get_extends [OF assms] by auto

text \<open>
  The objects that are loaded are the tracked ones that exist: the getter was asked for each
  tracked resource in order, and it has an object for exactly those it does not answer as
  missing.
\<close>

lemma loadLoop_result:
  "loadLoop get ids acc w = (Inr rs, w') \<Longrightarrow> valid w \<Longrightarrow>
    w' = gets get ids w \<and> valid w' \<and> nextRef w \<le> nextRef w' \<and> (\<forall>r < nextRef w. objHeap w' r = objHeap w r) \<and>
    (\<exists>new. rs = acc @ new \<and> (\<forall>r \<in> set new. r < nextRef w') \<and>
       metadata_of (objHeap w') ` set new = {ident \<in> set ids. fst (get ident w') \<noteq> (None, None)})"
proof (induction ids arbitrary: acc w)
  case Nil
  then show ?case by (auto simp: gets_def)
next
  case (Cons ident ids)
  obtain obj err w1 where get: "get ident w = ((obj, err), w1)" by (metis surj_pair)
  have err: "err = None" using Cons.prems(1) get by (cases err; cases obj) auto
  note step = get_step [OF Cons.prems(2) get]
  let ?acc = "case obj of None \<Rightarrow> acc | Some r \<Rightarrow> acc @ [r]"
  have rest: "loadLoop get ids ?acc w1 = (Inr rs, w')"
    using Cons.prems(1) get err by (cases obj) auto
  from Cons.IH [OF rest step(1)]
  obtain new where IH: "w' = gets get ids w1" "valid w'" "nextRef w1 \<le> nextRef w'" "\<forall>r < nextRef w1. objHeap w' r = objHeap w1 r"
    "rs = ?acc @ new" "\<forall>r \<in> set new. r < nextRef w'"
    "metadata_of (objHeap w') ` set new = {ident \<in> set ids. fst (get ident w') \<noteq> (None, None)}"
    by blast
  have asked: "w' = gets get (ident # ids) w" using IH(1) get by (simp add: gets_def)
  have heap: "nextRef w \<le> nextRef w'" "\<forall>r < nextRef w. objHeap w' r = objHeap w r"
    using step(2,3) IH(3,4) by auto
  have answer: "fst (get ident w') = (obj, None)"
    using get_stable [OF get [unfolded err], of ids] IH(1) by simp
  show ?case
  proof (cases obj)
    case None
    then have "{i \<in> set (ident # ids). fst (get i w') \<noteq> (None, None)} = {i \<in> set ids. fst (get i w') \<noteq> (None, None)}"
      using answer by auto
    with None show ?thesis using IH(2,5,6,7) heap asked by auto
  next
    case (Some r)
    have found: "metadata_of (objHeap w1) r = ident" "r < nextRef w1"
      using get_found [OF Cons.prems(2), of ident r err w1] get Some by auto
    then have "metadata_of (objHeap w') r = ident" "r < nextRef w'"
      using IH(3,4) by (auto simp: metadata_of_def)
    moreover have "{i \<in> set (ident # ids). fst (get i w') \<noteq> (None, None)} =
        insert ident {i \<in> set ids. fst (get i w') \<noteq> (None, None)}"
      using answer Some by auto
    ultimately have "metadata_of (objHeap w') ` set (r # new) = {i \<in> set (ident # ids). fst (get i w') \<noteq> (None, None)}"
      using IH(7) by simp
    then show ?thesis
      using IH(2,5,6) heap asked Some \<open>r < nextRef w'\<close> by (intro conjI exI [of _ "r # new"]) auto
  qed
qed

end

subsection \<open>What to prune\<close>

definition findObjectsToPrune :: "'c unstructured heap \<Rightarrow> ref list \<Rightarrow> ref list \<Rightarrow> ref list" where
  "findObjectsToPrune h first second =
     (let firstSet = fold (\<lambda>obj. List.insert (metadata_of h obj)) first [];
          left = fold (\<lambda>obj. removeAll (metadata_of h obj)) second firstSet
      in filter (\<lambda>obj. metadata_of h obj \<in> set left) first)"

lemma fold_removeAll: "set (fold (\<lambda>obj. removeAll (f obj)) xs ys) = set ys - f ` set xs"
  by (induction xs arbitrary: ys) auto

lemma findObjectsToPrune_filter:
  "findObjectsToPrune h first second =
    filter (\<lambda>obj. metadata_of h obj \<notin> metadata_of h ` set second) first"
proof -
  have "set (fold (\<lambda>obj. List.insert (metadata_of h obj)) first []) = metadata_of h ` set first"
    using watchedIds_set [of h first] by (simp add: watchedIds_def)
  then show ?thesis
    by (auto simp: findObjectsToPrune_def Let_def fold_removeAll intro!: filter_cong)
qed

subsection \<open>Generators and mutators\<close>

record PartialObjectMetadata =
  pmGVK :: GroupVersionKind
  pmName :: string
  pmNamespace :: string
  pmLabels :: "(string, string) gomap option"
  pmAnnotations :: "(string, string) gomap option"

definition AsPartialObjectMetadata :: "'c unstructured \<Rightarrow> PartialObjectMetadata" where
  "AsPartialObjectMetadata obj =
     \<lparr> pmGVK = objGVK obj, pmName = objName obj, pmNamespace = objNamespace obj,
       pmLabels = objLabels obj, pmAnnotations = objAnnotations obj \<rparr>"

record ('c, 'w) generator_interface =
  genCanHandleResource :: "PartialObjectMetadata \<Rightarrow> bool"
  genGenerate :: "ref \<Rightarrow> ('c, 'w) world \<Rightarrow> (go_error + ref list) \<times> ('c, 'w) world"

record ('c, 'w) mutator_interface =
  mutCanHandleResource :: "PartialObjectMetadata \<Rightarrow> bool"
  mutMutate :: "ref \<Rightarrow> ('c, 'w) world \<Rightarrow> go_error option \<times> ('c, 'w) world"

text \<open>The event that \<open>handleError\<close> sends.\<close>

definition errorEvent :: "go_error \<Rightarrow> Event" where
  "errorEvent err = zeroEvent \<lparr> evType := TypeError, evError := \<lparr> errError = Some err \<rparr> \<rparr>"

text \<open>The inner loop of \<open>generateObjects\<close>: the objects generated so far, and the error event if it stops.\<close>

fun generateLoop ::
  "('c, 'w) generator_interface \<Rightarrow> ref list \<Rightarrow> ref list \<Rightarrow> ('c, 'w) world \<Rightarrow>
     (ref list \<times> Event option) \<times> ('c, 'w) world" where
  "generateLoop rg [] generatedObject w = ((generatedObject, None), w)"
| "generateLoop rg (obj # objs) generatedObject w =
     (if \<not> genCanHandleResource rg (AsPartialObjectMetadata (objHeap w obj))
      then generateLoop rg objs generatedObject w
      else
        (case genGenerate rg obj w of
           (Inl err, w') \<Rightarrow> ((generatedObject, Some (errorEvent (Errorf ''generate resource failed: '' err))), w')
         | (Inr generated, w') \<Rightarrow> generateLoop rg objs (generatedObject @ generated) w'))"

fun generateAll ::
  "('c, 'w) generator_interface list \<Rightarrow> ref list \<Rightarrow> ref list \<Rightarrow> ('c, 'w) world \<Rightarrow>
     (ref list \<times> Event option) \<times> ('c, 'w) world" where
  "generateAll [] objs generatedObject w = ((generatedObject, None), w)"
| "generateAll (rg # rgs) objs generatedObject w =
     (case generateLoop rg objs generatedObject w of
        ((gs, Some e), w') \<Rightarrow> ((gs, Some e), w')
      | ((gs, None), w') \<Rightarrow> generateAll rgs objs gs w')"

definition generateObjects ::
  "('c, 'w) generator_interface list \<Rightarrow> ref list \<Rightarrow> ('c, 'w) world \<Rightarrow>
     (ref list \<times> Event option) \<times> ('c, 'w) world" where
  "generateObjects generators objs w = generateAll generators objs [] w"

fun mutateLoop ::
  "('c, 'w) mutator_interface \<Rightarrow> ref list \<Rightarrow> ('c, 'w) world \<Rightarrow> Event option \<times> ('c, 'w) world" where
  "mutateLoop mt [] w = (None, w)"
| "mutateLoop mt (obj # objs) w =
     (if \<not> mutCanHandleResource mt (AsPartialObjectMetadata (objHeap w obj)) then mutateLoop mt objs w
      else
        (case mutMutate mt obj w of
           (Some err, w') \<Rightarrow> (Some (errorEvent (Errorf ''mutate resource failed: '' err)), w')
         | (None, w') \<Rightarrow> mutateLoop mt objs w'))"

fun mutateObjects ::
  "('c, 'w) mutator_interface list \<Rightarrow> ref list \<Rightarrow> ('c, 'w) world \<Rightarrow> Event option \<times> ('c, 'w) world" where
  "mutateObjects [] objs w = (None, w)"
| "mutateObjects (mt # mts) objs w =
     (case mutateLoop mt objs w of
        (Some e, w') \<Rightarrow> (Some e, w')
      | (None, w') \<Rightarrow> mutateObjects mts objs w')"

subsection \<open>The contracts of generators and mutators\<close>

text \<open>The heap only grew: what was there is as it was.\<close>

definition grown :: "('c, 'w) world \<Rightarrow> ('c, 'w) world \<Rightarrow> bool" where
  "grown w w' \<longleftrightarrow> nextRef w \<le> nextRef w' \<and> (\<forall>r < nextRef w. objHeap w' r = objHeap w r)"

lemma grown_refl: "grown w w"
  by (simp add: grown_def)

lemma grown_trans: "grown w w1 \<Longrightarrow> grown w1 w2 \<Longrightarrow> grown w w2"
  by (simp add: grown_def)

text \<open>
  A generator leaves what there is alone and returns new objects, each made from the one it was
  given.
\<close>

locale Generator =
  fixes rg :: "('c, 'w) generator_interface"
    and made :: "'c unstructured \<Rightarrow> 'c unstructured \<Rightarrow> bool"
  assumes generate_grows: "genGenerate rg obj w = (res, w') \<Longrightarrow> grown w w'"
    and generate_new: "genCanHandleResource rg (AsPartialObjectMetadata (objHeap w obj)) \<Longrightarrow>
      genGenerate rg obj w = (Inr rs, w') \<Longrightarrow>
      \<forall>r \<in> set rs. nextRef w \<le> r \<and> r < nextRef w' \<and> made (objHeap w obj) (objHeap w' r)"

definition generated_from ::
  "('c unstructured \<Rightarrow> 'c unstructured \<Rightarrow> bool) \<Rightarrow> ref list \<Rightarrow> ('c, 'w) world \<Rightarrow> ref list \<Rightarrow> ('c, 'w) world \<Rightarrow> bool" where
  "generated_from made objs w rs w' \<longleftrightarrow> grown w w' \<and>
     (\<forall>r \<in> set rs. nextRef w \<le> r \<and> r < nextRef w' \<and> (\<exists>obj \<in> set objs. made (objHeap w obj) (objHeap w' r)))"

lemma generated_from_append:
  assumes "generated_from made objs w rs w1" and "generated_from made objs' w1 rs' w2"
    and "set objs \<subseteq> {..<nextRef w}" and "set objs' \<subseteq> set objs"
  shows "generated_from made objs w (rs @ rs') w2"
proof -
  note grown = assms(1) [unfolded generated_from_def, THEN conjunct1] assms(2) [unfolded generated_from_def, THEN conjunct1]
  have old: "objHeap w1 obj = objHeap w obj" if "obj \<in> set objs" for obj
    using grown(1) assms(3) that by (auto simp: grown_def)
  have "nextRef w \<le> r \<and> r < nextRef w2 \<and> (\<exists>obj \<in> set objs. made (objHeap w obj) (objHeap w2 r))" if "r \<in> set (rs @ rs')" for r
  proof (cases "r \<in> set rs")
    case True
    then have "nextRef w \<le> r" "r < nextRef w1" "\<exists>obj \<in> set objs. made (objHeap w obj) (objHeap w1 r)"
      using assms(1) by (auto simp: generated_from_def)
    moreover have "r < nextRef w2" "objHeap w2 r = objHeap w1 r"
      using grown(2) \<open>r < nextRef w1\<close> by (auto simp: grown_def)
    ultimately show ?thesis by simp
  next
    case False
    then have "r \<in> set rs'" using that by simp
    then obtain obj where "nextRef w1 \<le> r" "r < nextRef w2" "obj \<in> set objs'" "made (objHeap w1 obj) (objHeap w2 r)"
      using assms(2) by (auto simp: generated_from_def)
    moreover from this(3) have "obj \<in> set objs" using assms(4) by blast
    moreover have "nextRef w \<le> nextRef w1" using grown(1) by (simp add: grown_def)
    ultimately show ?thesis using old by (intro conjI bexI [of _ obj]) simp_all
  qed
  then show ?thesis using grown_trans [OF grown] by (simp add: generated_from_def)
qed

context Generator
begin

lemma generateLoop_made:
  assumes "generateLoop rg objs acc w = ((rs, None), w')" and "set objs \<subseteq> {..<nextRef w}"
  shows "\<exists>new. rs = acc @ new \<and> generated_from made objs w new w'"
  using assms
proof (induction objs arbitrary: acc w)
  case Nil
  then show ?case by (simp add: generated_from_def grown_refl)
next
  case (Cons obj objs)
  have known: "set (obj # objs) \<subseteq> {..<nextRef w}" by (rule Cons.prems(2))
  have later: "\<exists>new. rs = acc1 @ new \<and> generated_from made objs w1 new w'"
    if "generateLoop rg objs acc1 w1 = ((rs, None), w')" and "grown w w1" for acc1 w1
    using Cons.IH [OF that(1)] known that(2) by (fastforce simp: grown_def)
  show ?case
  proof (cases "genCanHandleResource rg (AsPartialObjectMetadata (objHeap w obj))")
    case False
    then have "generateLoop rg objs acc w = ((rs, None), w')" using Cons.prems(1) by simp
    with later [OF this grown_refl] show ?thesis by (auto simp: generated_from_def)
  next
    case True
    obtain res w1 where step: "genGenerate rg obj w = (res, w1)" by (rule prod.exhaust)
    obtain gs where gs: "res = Inr gs" using Cons.prems(1) True step by (cases res) simp_all
    note grows = generate_grows [OF step]
    have "generateLoop rg objs (acc @ gs) w1 = ((rs, None), w')" using Cons.prems(1) True step gs by simp
    from later [OF this grows] obtain new where new: "rs = acc @ gs @ new" "generated_from made objs w1 new w'" by auto
    have "generated_from made (obj # objs) w gs w1"
      using generate_new [OF True step [unfolded gs]] grows by (auto simp: generated_from_def)
    from generated_from_append [OF this new(2) known] new(1) show ?thesis by auto
  qed
qed

end

lemma generateAll_made:
  assumes "\<forall>rg \<in> set rgs. Generator rg made" and "generateAll rgs objs acc w = ((rs, None), w')"
    and "set objs \<subseteq> {..<nextRef w}"
  shows "\<exists>new. rs = acc @ new \<and> generated_from made objs w new w'"
  using assms
proof (induction rgs arbitrary: acc w)
  case Nil
  then show ?case by (simp add: generated_from_def grown_refl)
next
  case (Cons rg rgs)
  obtain gs e w1 where step: "generateLoop rg objs acc w = ((gs, e), w1)" by (metis surj_pair)
  have e: "e = None" using Cons.prems(2) step by (cases e) simp_all
  have "Generator rg made" using Cons.prems(1) by simp
  from Generator.generateLoop_made [OF this step [unfolded e] Cons.prems(3)]
  obtain new where new: "gs = acc @ new" "generated_from made objs w new w1" by blast
  have "generateAll rgs objs gs w1 = ((rs, None), w')" using Cons.prems(2) step e by simp
  moreover have "set objs \<subseteq> {..<nextRef w1}"
    using Cons.prems(3) new(2) by (auto simp: generated_from_def grown_def)
  ultimately obtain new' where "rs = gs @ new'" "generated_from made objs w1 new' w'"
    using Cons.IH [of gs w1] Cons.prems(1) by auto
  with new generated_from_append [OF new(2) this(2) Cons.prems(3)] show ?case by auto
qed

text \<open>
  A mutator changes the object at its address and nothing else, and not which resource the
  object is; an object that it can handle stays one.
\<close>

locale Mutator =
  fixes mt :: "('c, 'w) mutator_interface"
    and changed :: "'c unstructured \<Rightarrow> 'c unstructured \<Rightarrow> bool"
  assumes mutate_changes: "mutMutate mt r w = (None, w') \<Longrightarrow>
      \<exists>obj'. w' = w \<lparr> objHeap := (objHeap w)(r := obj') \<rparr> \<and> changed (objHeap w r) obj'"
    and changed_trans: "changed a b \<Longrightarrow> changed b c \<Longrightarrow> changed a c"
    and changed_identity: "changed a b \<Longrightarrow> ObjectMetadataFromUnstructured b = ObjectMetadataFromUnstructured a"
    and changed_handled: "changed a b \<Longrightarrow> mutCanHandleResource mt (AsPartialObjectMetadata a) \<Longrightarrow>
      mutCanHandleResource mt (AsPartialObjectMetadata b)"

context Mutator
begin

lemma mutateLoop_changed:
  assumes "mutateLoop mt objs w = (None, w')"
  shows "(\<exists>h. w' = w \<lparr> objHeap := h \<rparr>) \<and>
    (\<forall>r. if r \<in> set objs \<and> mutCanHandleResource mt (AsPartialObjectMetadata (objHeap w r))
      then changed (objHeap w r) (objHeap w' r) else objHeap w' r = objHeap w r)"
  using assms
proof (induction objs arbitrary: w)
  case Nil
  then show ?case by (auto intro: exI [of _ "objHeap w"])
next
  case (Cons obj objs)
  let ?handles = "\<lambda>w r. mutCanHandleResource mt (AsPartialObjectMetadata (objHeap w r))"
  show ?case
  proof (cases "?handles w obj")
    case False
    then have "mutateLoop mt objs w = (None, w')" using Cons.prems by simp
    note IH = Cons.IH [OF this]
    have "if r \<in> set (obj # objs) \<and> ?handles w r then changed (objHeap w r) (objHeap w' r)
        else objHeap w' r = objHeap w r" for r
      using IH [THEN conjunct2, rule_format, of r] False by (cases "r = obj") simp_all
    with IH show ?thesis by blast
  next
    case True
    obtain w1 where step: "mutMutate mt obj w = (None, w1)" and rest: "mutateLoop mt objs w1 = (None, w')"
      using Cons.prems True by (auto split: prod.splits option.splits)
    obtain obj' where w1: "w1 = w \<lparr> objHeap := (objHeap w)(obj := obj') \<rparr>" and new: "changed (objHeap w obj) obj'"
      using mutate_changes [OF step] by blast
    note IH = Cons.IH [OF rest]
    have here: "objHeap w1 obj = obj'" and there: "\<And>r. r \<noteq> obj \<Longrightarrow> objHeap w1 r = objHeap w r"
      by (simp_all add: w1)
    have "if r \<in> set (obj # objs) \<and> ?handles w r then changed (objHeap w r) (objHeap w' r)
        else objHeap w' r = objHeap w r" for r
    proof (cases "r = obj")
      case same: True
      then show ?thesis
        using IH [THEN conjunct2, rule_format, of obj] new here True changed_handled [OF new True] changed_trans [OF new]
        by (cases "obj \<in> set objs") simp_all
    next
      case False
      with IH [THEN conjunct2, rule_format, of r] show ?thesis unfolding there [OF False] by simp
    qed
    moreover have "\<exists>h. w' = w \<lparr> objHeap := h \<rparr>" using IH w1 by auto
    ultimately show ?thesis by blast
  qed
qed

lemma mutateLoop_identity:
  assumes "mutateLoop mt objs w = (None, w')"
  shows "metadata_of (objHeap w') r = metadata_of (objHeap w) r"
  using mutateLoop_changed [OF assms, THEN conjunct2, rule_format, of r] changed_identity
  by (auto simp: metadata_of_def split: if_splits)

end

lemma mutateObjects_changed:
  assumes "\<forall>mt \<in> set mts. Mutator mt changed" and "\<And>obj. changed obj obj"
    and "mutateObjects mts objs w = (None, w')"
  shows "nextRef w' = nextRef w \<and> (\<forall>r. metadata_of (objHeap w') r = metadata_of (objHeap w) r \<and>
    changed (objHeap w r) (objHeap w' r) \<and> (r \<notin> set objs \<longrightarrow> objHeap w' r = objHeap w r))"
  using assms(1,3)
proof (induction mts arbitrary: w)
  case Nil
  then show ?case using assms(2) by simp
next
  case (Cons mt mts)
  have mt: "Mutator mt changed" using Cons.prems(1) by simp
  obtain w1 where step: "mutateLoop mt objs w = (None, w1)" and rest: "mutateObjects mts objs w1 = (None, w')"
    using Cons.prems(2) by (auto split: prod.splits option.splits)
  have IH: "nextRef w' = nextRef w1 \<and> (\<forall>r. metadata_of (objHeap w') r = metadata_of (objHeap w1) r \<and>
      changed (objHeap w1 r) (objHeap w' r) \<and> (r \<notin> set objs \<longrightarrow> objHeap w' r = objHeap w1 r))"
    using Cons.IH [OF _ rest] Cons.prems(1) by simp
  note loop = Mutator.mutateLoop_changed [OF mt step]
  have first: "changed (objHeap w r) (objHeap w1 r)" for r
    using loop [THEN conjunct2, rule_format, of r] assms(2) by (auto split: if_splits)
  have "r \<notin> set objs \<Longrightarrow> objHeap w1 r = objHeap w r" for r
    using loop [THEN conjunct2, rule_format, of r] by simp
  moreover have "nextRef w1 = nextRef w" using loop by auto
  ultimately show ?case
    using IH Mutator.mutateLoop_identity [OF mt step] Mutator.changed_trans [OF mt first] by simp
qed

subsection \<open>A run\<close>

record ApplierOptions =
  apDryRun :: bool
  apDisableWait :: bool
  apTimeout :: int
  apFieldManager :: string

record ('c, 'b, 'm, 's, 'w) Applier =
  apRuntime :: "('c, 'b, 'm, 's, 'w) runtime"
  apInventory :: 's
  apGenerators :: "('c, 'w process) generator_interface list"
  apMutators :: "('c, 'w process) mutator_interface list"
  apFilters :: "('c, 'w) filter_fn list"
  apInfoFetcher :: "('c, 'w process) InfoFetcher"

text \<open>
  The part of \<open>Run\<close> before the runner: the events of a run that stops early, or the state and
  the queue the runner starts with. The cache starts empty. The timeout only bounds the
  context, which may end at any moment in any case.
\<close>

definition prepare ::
  "'c converter \<Rightarrow> ('c, 'b, 'm, 's, 'w) Applier \<Rightarrow> ref list \<Rightarrow> ApplierOptions \<Rightarrow> ('c, 'w process) world \<Rightarrow>
     ((Event + ('c, 's, 'w) run_state \<times> ('c, 'w) Task list) \<times> ('c, 'w process) world) exec" where
  "prepare lib a objs options w0 =
     (let rt = apRuntime a;
          (loaded, w1) = loadObjectsFromInventory (rtStore rt) (apInventory a) (Get (rtMapper rt) (rtClient rt))
            (NewCachedResourceGetter w0)
      in case loaded of
           Inl err \<Rightarrow> Done (Inl (errorEvent err), w1)
         | Inr remoteObjects \<Rightarrow>
             (case generateObjects (apGenerators a) objs w1 of
                ((generatedObject, Some e), w2) \<Rightarrow> Done (Inl e, w2)
              | ((generatedObject, None), w2) \<Rightarrow>
                  (let objs2 = objs @ generatedObject in
                   case mutateObjects (apMutators a) objs2 w2 of
                     (Some e, w3) \<Rightarrow> Done (Inl e, w3)
                   | (None, w3) \<Rightarrow>
                       (let objectsToPrune = findObjectsToPrune (objHeap w3) remoteObjects objs2;
                            st = \<lparr> eventChannel = [], manager = NewManager (apInventory a) remoteObjects \<rparr>;
                            builder = WithPruneObjects objectsToPrune (WithObjects objs2
                              \<lparr> objects = [], pruneObjects = [], queueFilters = apFilters a,
                                queueInfoFetcher = apInfoFetcher a \<rparr>);
                            queueOptions = \<lparr> optWait = \<not> apDisableWait options, optionDryRun = apDryRun options,
                              optPrune = True, optionFieldManager = apFieldManager options \<rparr>
                        in bind_exec (Build lib (objHeap w3) builder queueOptions)
                             (\<lambda>r. case r of
                                Inl err \<Rightarrow> Done (Inl (errorEvent err), w3)
                              | Inr tasksQueue \<Rightarrow> Done (Inr ((st, w3), tasksQueue), w3))))))"

text \<open>
  The events of a run that ends, and the world it leaves: the channel is closed behind them.
\<close>

inductive Applier_Run ::
  "'c converter \<Rightarrow> ('c, 'b, 'm, 's, 'w) Applier \<Rightarrow> ref list \<Rightarrow> ApplierOptions \<Rightarrow> ('c, 'w process) world \<Rightarrow>
     Event list \<Rightarrow> ('c, 's, 'w) run_state option \<Rightarrow> bool"
  for lib a objs options w where
  stopped: "prepare lib a objs options w = Done (Inl e, w') \<Longrightarrow> Applier_Run lib a objs options w [e] None"
| finished: "prepare lib a objs options w = Done (Inr (s, tasks), w') \<Longrightarrow>
    (runner_step (Task_Run (apRuntime a)))\<^sup>*\<^sup>* (RunWithQueue s tasks) r \<Longrightarrow> returned r = Some None \<Longrightarrow>
    Applier_Run lib a objs options w (eventChannel (fst (state r))) (Some (state r))"
| interrupted: "prepare lib a objs options w = Done (Inr (s, tasks), w') \<Longrightarrow>
    (runner_step (Task_Run (apRuntime a)))\<^sup>*\<^sup>* (RunWithQueue s tasks) r \<Longrightarrow> returned r = Some (Some err) \<Longrightarrow>
    Applier_Run lib a objs options w (eventChannel (fst (state r)) @ [errorEvent err]) None"

inductive_cases Applier_Run_finishedE: "Applier_Run lib a objs options w es (Some s)"

lemma prepare_Inr:
  assumes "prepare lib a objs options w0 = Done (Inr (s, tasks), w')"
  obtains remoteObjects w1 generated w2 b opts where
    "loadObjectsFromInventory (rtStore (apRuntime a)) (apInventory a)
       (Get (rtMapper (apRuntime a)) (rtClient (apRuntime a))) (w0 \<lparr> cache := [] \<rparr>) = (Inr remoteObjects, w1)"
    and "generateObjects (apGenerators a) objs w1 = ((generated, None), w2)"
    and "mutateObjects (apMutators a) (objs @ generated) w2 = (None, w')"
    and "s = (\<lparr> eventChannel = [], manager = NewManager (apInventory a) remoteObjects \<rparr>, w')"
    and "Build lib (objHeap w') b opts = Done (Inr tasks)"
    and "objects b = objs @ generated"
    and "pruneObjects b = findObjectsToPrune (objHeap w') remoteObjects (objs @ generated)"
    and "optionDryRun opts = apDryRun options" and "optPrune opts"
    and "optWait opts = (\<not> apDisableWait options)" and "queueFilters b = apFilters a"
proof -
  obtain loaded w1 where load: "loadObjectsFromInventory (rtStore (apRuntime a)) (apInventory a)
      (Get (rtMapper (apRuntime a)) (rtClient (apRuntime a))) (w0 \<lparr> cache := [] \<rparr>) = (loaded, w1)"
    by (rule prod.exhaust)
  obtain remoteObjects where loaded: "loaded = Inr remoteObjects"
    using assms load by (cases loaded) (auto simp: prepare_def Let_def)
  obtain generated e w2 where gen: "generateObjects (apGenerators a) objs w1 = ((generated, e), w2)"
    by (metis surj_pair)
  have e: "e = None" using assms load loaded gen by (cases e) (auto simp: prepare_def Let_def)
  obtain m w3 where mut: "mutateObjects (apMutators a) (objs @ generated) w2 = (m, w3)" by (rule prod.exhaust)
  have m: "m = None" using assms load loaded gen e mut by (cases m) (auto simp: prepare_def Let_def)
  let ?b = "WithPruneObjects (findObjectsToPrune (objHeap w3) remoteObjects (objs @ generated))
    (WithObjects (objs @ generated) \<lparr> objects = [], pruneObjects = [], queueFilters = apFilters a,
      queueInfoFetcher = apInfoFetcher a \<rparr>)"
  let ?o = "\<lparr> optWait = \<not> apDisableWait options, optionDryRun = apDryRun options, optPrune = True,
    optionFieldManager = apFieldManager options \<rparr>"
  obtain r where r: "Build lib (objHeap w3) ?b ?o = Done r"
    using assms load loaded gen e mut m
    by (cases "Build lib (objHeap w3) ?b ?o") (auto simp: prepare_def Let_def)
  have "r = Inr tasks \<and> w3 = w' \<and> s = (\<lparr> eventChannel = [], manager = NewManager (apInventory a) remoteObjects \<rparr>, w3)"
    using assms load loaded gen e mut m r by (cases r) (auto simp: prepare_def Let_def)
  with that [of remoteObjects w1 generated w2 ?b ?o] load loaded gen e mut m r show ?thesis
    by (simp add: WithPruneObjects_def WithObjects_def)
qed

lemma prepare_prunes:
  assumes "client_ok (rtMapper (apRuntime a)) (rtClient (apRuntime a))"
    and "prepare lib a objs options w0 = Done (Inr (s, tasks), w')"
    and "store_Load (rtStore (apRuntime a)) (apInventory a) (remote w0) = (Inr ids, rem)"
    and "get = Get (rtMapper (apRuntime a)) (rtClient (apRuntime a))"
    and "w1 = gets get ids (w0 \<lparr> cache := [], remote := rem \<rparr>)"
    and "heap = objHeap w'" and "inventory = startingObjects (manager (fst s))"
  shows "set (concat (map prunes tasks)) =
      {r \<in> set inventory. metadata_of heap r \<notin> metadata_of heap ` set (concat (map applies tasks))} \<and>
    metadata_of (objHeap w1) ` set inventory = {ident \<in> set ids. fst (get ident w1) \<noteq> (None, None)} \<and>
    (\<forall>r \<in> set inventory. r < nextRef w1)"
proof (rule prepare_Inr [OF assms(2)])
  let ?start = "w0 \<lparr> cache := [], remote := rem \<rparr>"
  fix remoteObjects w1' generated w2 b opts
  assume load: "loadObjectsFromInventory (rtStore (apRuntime a)) (apInventory a)
      (Get (rtMapper (apRuntime a)) (rtClient (apRuntime a))) (w0 \<lparr> cache := [] \<rparr>) = (Inr remoteObjects, w1')"
    and s: "s = (\<lparr> eventChannel = [], manager = NewManager (apInventory a) remoteObjects \<rparr>, w')"
    and build: "Build lib (objHeap w') b opts = Done (Inr tasks)" and objects: "objects b = objs @ generated"
    and prune: "pruneObjects b = findObjectsToPrune (objHeap w') remoteObjects (objs @ generated)"
    and "optPrune opts"
  have inventory: "inventory = remoteObjects" using assms(7) s by (simp add: NewManager_def)
  have loop: "loadLoop get ids [] ?start = (Inr remoteObjects, w1')"
    using load assms(3,4) by (simp add: loadObjectsFromInventory_def)
  have "cache_ok ?start" by (simp add: cache_ok_def)
  from RemoteResourceGetter.loadLoop_result [OF Get_RemoteResourceGetter [OF assms(1)] loop [unfolded assms(4)] this]
  have "metadata_of (objHeap w1) ` set inventory = {ident \<in> set ids. fst (get ident w1) \<noteq> (None, None)} \<and>
      (\<forall>r \<in> set inventory. r < nextRef w1)"
    unfolding inventory assms(4,5) by auto
  moreover have "set (concat (map prunes tasks)) =
      {r \<in> set inventory. metadata_of heap r \<notin> metadata_of heap ` set (concat (map applies tasks))}"
    unfolding Build_pruned [OF build \<open>optPrune opts\<close>] Build_applies [OF build, THEN conjunct2] prune objects inventory assms(6)
    by (auto simp: findObjectsToPrune_filter)
  ultimately show ?thesis by blast
qed

text \<open>
  C6: What a run prunes, with a server that returns the objects it is asked for: exactly the
  objects it has loaded, less those whose metadata is that of a manifest, a generated or a
  mutated one included; and it has loaded exactly the resources that the inventory tracks and
  that the server, asked for each of them in order, does not answer as missing. So no object is
  applied and pruned in the same run, and none that was not tracked is pruned.
\<close>

theorem pruned_objects:
  assumes "client_ok (rtMapper (apRuntime a)) (rtClient (apRuntime a))"
    and "prepare lib a objs options w0 = Done (Inr (s, tasks), w')"
    and "store_Load (rtStore (apRuntime a)) (apInventory a) (remote w0) = (Inr ids, rem)"
    and "get = Get (rtMapper (apRuntime a)) (rtClient (apRuntime a))"
    and "w1 = gets get ids (w0 \<lparr> cache := [], remote := rem \<rparr>)"
    and "heap = objHeap w'" and "inventory = startingObjects (manager (fst s))"
  shows "set (concat (map prunes tasks)) =
      {r \<in> set inventory. metadata_of heap r \<notin> metadata_of heap ` set (concat (map applies tasks))} \<and>
    metadata_of (objHeap w1) ` set inventory = {ident \<in> set ids. fst (get ident w1) \<noteq> (None, None)}"
  using prepare_prunes [OF assms] by blast

subsection \<open>The end of a run\<close>

lemma recorded_start: "recorded (\<lparr> eventChannel = [], manager = NewManager inventory objs \<rparr>, w)"
  by (simp add: recorded_def log_outcome_def outcome_def NewManager_def manager_wf_def)

text \<open>
  A run that finishes ends with the task of the inventory, on a state in which the manager
  knows what the events reported.
\<close>

lemma finished_run_saves:
  assumes "prepare lib a objs options w0 = Done (Inr (s0, tasks), w')"
    and "(runner_step (Task_Run (apRuntime a)))\<^sup>*\<^sup>* (RunWithQueue s0 tasks) r" and "returned r = Some None"
  obtains st v where "recorded (st, v)"
    and "startingObjects (manager st) = startingObjects (manager (fst s0))"
    and "state r = InventoryTask_Run (rtStore (apRuntime a)) (apDryRun options) st v"
proof (rule prepare_Inr [OF assms(1)])
  fix remoteObjects w1 generated w2 b opts
  assume s0: "s0 = (\<lparr> eventChannel = [], manager = NewManager (apInventory a) remoteObjects \<rparr>, w')"
    and build: "Build lib (objHeap w') b opts = Done (Inr tasks)" and dry: "optionDryRun opts = apDryRun options"
  obtain ts0 where "tasks = ts0 @ pruneTasks (objHeap w') b opts @ [InventoryTask (optionDryRun opts)]"
    using Build_prunes [OF build] by blast
  then obtain ts where ts: "tasks = ts @ [InventoryTask (apDryRun options)]"
    using dry by simp
  have "run_tasks (Task_Run (apRuntime a)) tasks s0 = Some (state r)"
    using tasks.reachable_prefix [OF assms(2)] assms(3) by auto
  then obtain s1 where s1: "run_tasks (Task_Run (apRuntime a)) ts s0 = Some s1"
    "Task_Run (apRuntime a) (InventoryTask (apDryRun options)) s1 = Some (state r)"
    by (auto simp: ts run_tasks_append split: option.splits)
  obtain st v where st: "s1 = (st, v)" by (rule prod.exhaust)
  have "recorded s0" unfolding s0 by (rule recorded_start)
  then have "recorded s1" by (rule tasks.run_tasks_invariant [OF s1(1)])
  moreover have "startingObjects (manager (fst s1)) = startingObjects (manager (fst s0))"
    by (rule tracked.run_tasks_invariant [OF s1(1) refl])
  ultimately show ?thesis using that s1(2) st by simp
qed

lemma log_outcome_inventory [simp]:
  "log_outcome start (es @ [inventoryEvent s err]) obj = log_outcome start es obj"
  by (simp add: log_outcome_def)

lemma run_saves:
  assumes "server_ok cl contents" and "rtStore (apRuntime a) = configMap_ops cl"
    and "prepare lib a objs options w0 = Done (Inr (s0, tasks), w')"
    and "(runner_step (Task_Run (apRuntime a)))\<^sup>*\<^sup>* (RunWithQueue s0 tasks) r" and "returned r = Some None"
    and "\<not> apDryRun options" and "es = eventChannel (fst (state r))"
    and "last es = inventoryEvent EventSuccessful None"
    and "h = objHeap (snd (state r))" and "inventory = startingObjects (manager (fst s0))"
    and "saved = {obj. kept_outcome (metadata_of h obj \<in> metadata_of h ` set inventory) (log_outcome None es obj)}"
    and "\<And>obj. obj \<in> saved \<Longrightarrow> storable (metadata_of h obj)"
    and "configMap_Load cl (Inventory (manager (fst (state r)))) (remote (snd (state r))) = (Inr ms, w'')"
  shows "set ms = metadata_of h ` saved"
proof (rule finished_run_saves [OF assms(3,4,5)])
  fix st v
  assume rec: "recorded (st, v)" and start: "startingObjects (manager st) = startingObjects (manager (fst s0))"
    and final: "state r = InventoryTask_Run (rtStore (apRuntime a)) (apDryRun options) st v"
  let ?st1 = "SendEvent RunnerState_ops (inventoryEvent EventPending None) st"
  obtain res m w where save: "SaveCurrentInventoryState (configMap_ops cl) (objHeap v) False (manager ?st1) (remote v) = (res, m, w)"
    by (rule prod_cases3)
  note result = InventoryTask_Run_result [OF save]
  have rec1: "recorded (?st1, v)" by (rule recorded_SendEvent [OF rec])
  have r: "state r = (SendEvent RunnerState_ops (inventoryEvent (if res = None then EventSuccessful else EventFailed) res)
      (?st1 \<lparr> manager := m \<rparr>), v \<lparr> remote := w \<rparr>)"
    using final result assms(2,6) by simp
  then have es: "es = eventChannel ?st1 @ [inventoryEvent (if res = None then EventSuccessful else EventFailed) res]"
    by (simp add: assms(7) runner_state.log_SendEvent)
  have "res = None"
    using assms(8) unfolding es by (cases res) (auto simp: inventoryEvent_def zeroEvent_def)
  have h: "h = objHeap v" using assms(9) r by simp
  have "log_outcome None es obj = log_outcome None (eventChannel ?st1) obj" for obj
    by (simp only: es log_outcome_inventory)
  with rec1 have out: "outcome (manager ?st1) obj = log_outcome None es obj" for obj
    unfolding recorded_def by simp
  have inventory: "startingObjects (manager ?st1) = inventory" using start assms(10) by simp
  have kept: "{obj. kept h (manager ?st1) obj} = saved"
    unfolding kept_iff out inventory assms(11) ..
  have "manager_wf (manager ?st1)" using rec1 by (simp add: recorded_def)
  moreover have "storable (metadata_of (objHeap v) obj)" if "kept (objHeap v) (manager ?st1) obj" for obj
    using that kept assms(12) h by blast
  moreover have "store_Load (configMap_ops cl) (Inventory m) w = (Inr ms, w'')"
    using assms(13) r by (simp add: configMap_ops_def)
  ultimately show ?thesis
    using Store.Save_then_Load [OF configMap_Store [OF assms(1)]] save \<open>res = None\<close> kept h by metis
qed


subsection \<open>Witnesses\<close>

text \<open>The requests of a remote side as requests of the process.\<close>

definition on_remote :: "('w \<Rightarrow> 'r \<times> 'w) \<Rightarrow> 'w process \<Rightarrow> 'r \<times> 'w process" where
  "on_remote f p = (let (r, w) = f (procRemote p) in (r, p \<lparr> procRemote := w \<rparr>))"

definition process_mapper :: "'w rest_mapper \<Rightarrow> 'w process rest_mapper" where
  "process_mapper m = \<lparr> map_kind = (\<lambda>p. map_kind m (procRemote p)),
     reset_mapper = (\<lambda>p. p \<lparr> procRemote := reset_mapper m (procRemote p) \<rparr>) \<rparr>"

definition process_client :: "('c, 'w) dynamic_client \<Rightarrow> ('c, 'w process) dynamic_client" where
  "process_client c = \<lparr> dyn_Get = (\<lambda>gvr ns n. on_remote (dyn_Get c gvr ns n)),
     dyn_Delete = (\<lambda>gvr ns n opts. on_remote (dyn_Delete c gvr ns n opts)) \<rparr>"

definition process_configmaps :: "'w configmap_client \<Rightarrow> 'w process configmap_client" where
  "process_configmaps c = \<lparr> cm_Apply = (\<lambda>ns n d fm force dry. on_remote (cm_Apply c ns n d fm force dry)),
     cm_Get = (\<lambda>ns n. on_remote (cm_Get c ns n)), cm_Delete = (\<lambda>ns n dry. on_remote (cm_Delete c ns n dry)) \<rparr>"

lemma on_remote_Pair: "on_remote f p = (r, p') \<Longrightarrow> f (procRemote p) = (r, procRemote p')"
  by (auto simp: on_remote_def Let_def split: prod.splits)

lemma process_client_ok:
  assumes "client_ok m c"
  shows "client_ok (process_mapper m) (process_client c)"
  unfolding client_ok_def
proof (intro allI impI)
  fix w gk mapping ns n obj w'
  assume "map_kind (process_mapper m) w gk [] = Inr mapping"
    and "dyn_Get (process_client c) (mapResource mapping) ns n w = (Inr obj, w')"
  then show "objName obj = n \<and> objNamespace obj = ns \<and> objGK obj = gk"
    by (intro client_okD [OF assms]) (auto simp: process_mapper_def process_client_def dest: on_remote_Pair)
qed

lemma process_configmaps_ok:
  assumes "server_ok c contents"
  shows "server_ok (process_configmaps c) (\<lambda>p. contents (procRemote p))"
  unfolding server_ok_def process_configmaps_def configmap_client.simps
proof (intro conjI allI impI, goal_cases)
  case (1 ns n d fm w w')
  from server_ok_Apply [OF assms on_remote_Pair [OF 1]] show ?case .
next
  case (2 ns n d fm w w' e)
  from server_ok_Apply_dry [OF assms on_remote_Pair [OF 2]] show ?case .
next
  case (3 ns n w w' d)
  from server_ok_Get [OF assms on_remote_Pair [OF 3]] show ?case by simp
next
  case (4 ns n w w' d)
  from server_ok_Get [OF assms on_remote_Pair [OF 4]] show ?case by simp
next
  case (5 ns n w w' e)
  from server_ok_Get_NotFound [OF assms on_remote_Pair [OF 5(1)] 5(2)] show ?case by simp
next
  case (6 ns n w w' e)
  from server_ok_Get_NotFound [OF assms on_remote_Pair [OF 6(1)] 6(2)] show ?case by simp
next
  case (7 ns n w w' e)
  from server_ok_Delete [OF assms on_remote_Pair [OF 7(1)] 7(2)] show ?case .
next
  case (8 ns n w w' e)
  from server_ok_Delete_dry [OF assms on_remote_Pair [OF 8]] show ?case .
qed

definition prune_applier :: "(unit, unit, unit, unit, unit cluster) Applier" where
  "prune_applier = \<lparr>
     apRuntime = \<lparr> rtPrinters = example_printers,
       rtRest = \<lparr> encode = (\<lambda>obj. Inr ()), patch = (\<lambda>r w. (Inl (ErrorNew ''no''), w)), info_Refresh = (\<lambda>i obj. i),
         info_Get = (\<lambda>i w. (Inr i, w)), managedFields = (\<lambda>obj. Inr ()), findFieldsOwners = (\<lambda>m. []),
         upgradeManagedFieldsPatch = (\<lambda>obj ms fm. Inr None) \<rparr>,
       rtMapper = process_mapper cluster_mapper, rtClient = process_client cluster_client,
       rtStore = \<lparr> store_Load = (\<lambda>s w. (Inr [ObjectMetadata ''web'' ''prod'' [] ''Service''], w)),
         store_Save = (\<lambda>h dry s w. (None, w)), store_Delete = (\<lambda>dry s w. (None, w)), store_SetObjects = (\<lambda>objs s. s) \<rparr>,
       rtPoller = (\<lambda>w objs. ([], True)) \<rparr>,
     apInventory = (), apGenerators = [], apMutators = [], apFilters = [],
     apInfoFetcher = (\<lambda>obj w. Inr (Info obj (cluster_mapping (objGK obj)))) \<rparr>"

definition prune_world :: "(unit, unit cluster process) world" where
  "prune_world = \<lparr> objHeap = example_heap3, nextRef = 3,
     remote = \<lparr> procRemote = example_cluster, procStderr = [] \<rparr>, cache = [] \<rparr>"

definition applier_options :: ApplierOptions where
  "applier_options = \<lparr> apDryRun = False, apDisableWait = False, apTimeout = 0, apFieldManager = ''jpl'' \<rparr>"

lemma prune_run_prepared:
  "\<exists>st w' tasks. prepare no_conversion prune_applier [] applier_options prune_world = Done (Inr ((st, w'), tasks), w') \<and>
     concat (map prunes tasks) = [3]"
  by (simp add: prepare_def prune_applier_def applier_options_def prune_world_def loadObjectsFromInventory_def
      Get_def getObject_def process_mapper_def process_client_def on_remote_def cluster_mapper_def cluster_client_def
      cluster_Get_def cluster_mapping_def example_cluster_def serviceGK_def ObjectMetadata_inject_parts
      example_object_def objGK_def groupKind_def alloc_def store_status_def generateObjects_def
      findObjectsToPrune_filter WithPruneObjects_def WithObjects_def Build_def pruneTasks_def sort_Sort_def Let_def)

theorem pruned_objects_witness:
  "\<exists>s tasks w'. prepare no_conversion prune_applier [] applier_options prune_world = Done (Inr (s, tasks), w') \<and>
     set (concat (map prunes tasks)) =
       {r \<in> set (startingObjects (manager (fst s))). metadata_of (objHeap w') r \<notin>
          metadata_of (objHeap w') ` set (concat (map applies tasks))}"
proof -
  obtain st w' tasks where run:
    "prepare no_conversion prune_applier [] applier_options prune_world = Done (Inr ((st, w'), tasks), w')"
    using prune_run_prepared by blast
  have "client_ok (rtMapper (apRuntime prune_applier)) (rtClient (apRuntime prune_applier))"
    by (simp add: prune_applier_def process_client_ok cluster_client_ok)
  moreover have "store_Load (rtStore (apRuntime prune_applier)) (apInventory prune_applier) (remote prune_world) =
      (Inr [ObjectMetadata ''web'' ''prod'' [] ''Service''], remote prune_world)"
    by (simp add: prune_applier_def)
  ultimately show ?thesis
    using pruned_objects [OF _ run _ refl refl refl refl] run by blast
qed

definition save_applier :: "(unit, unit, unit, configMapStore, server) Applier" where
  "save_applier = \<lparr>
     apRuntime = \<lparr> rtPrinters = example_printers,
       rtRest = \<lparr> encode = (\<lambda>obj. Inr ()), patch = (\<lambda>r w. (Inr (example_heap3 0), w)), info_Refresh = (\<lambda>i obj. i),
         info_Get = (\<lambda>i w. (Inr i, w)), managedFields = (\<lambda>obj. Inr ()), findFieldsOwners = (\<lambda>m. []),
         upgradeManagedFieldsPatch = (\<lambda>obj ms fm. Inr None) \<rparr>,
       rtMapper = \<lparr> map_kind = (\<lambda>w gk vs. Inr (cluster_mapping gk)), reset_mapper = (\<lambda>w. w) \<rparr>,
       rtClient = \<lparr> dyn_Get = (\<lambda>gvr ns n w. (Inl (LibraryError NotFound ''not found''), w)),
         dyn_Delete = (\<lambda>gvr ns n opts w. (None, w)) \<rparr>,
       rtStore = configMap_ops (process_configmaps server_client),
       rtPoller = (\<lambda>w objs. ([], True)) \<rparr>,
     apInventory = example_store, apGenerators = [], apMutators = [], apFilters = [],
     apInfoFetcher = (\<lambda>obj w. Inr (Info obj (cluster_mapping (objGK obj)))) \<rparr>"

definition save_options :: ApplierOptions where
  "save_options = \<lparr> apDryRun = False, apDisableWait = True, apTimeout = 0, apFieldManager = ''jpl'' \<rparr>"

definition save_world :: "(unit, server process) world" where
  "save_world = \<lparr> objHeap = example_heap3, nextRef = 3,
     remote = \<lparr> procRemote = \<lparr> serverMaps = [], serverFailures = [] \<rparr>, procStderr = [] \<rparr>, cache = [] \<rparr>"

text \<open>What the witness evaluates of a run: its events, and the metadata it would load next.\<close>

definition run_summary where
  "run_summary =
     (case prepare no_conversion save_applier [0] save_options save_world of
        Done (Inr (s0, tasks), w') \<Rightarrow>
          (case run_tasks (Task_Run (apRuntime save_applier)) tasks s0 of
             Some s \<Rightarrow>
               Some (eventChannel (fst s), startingObjects (manager (fst s0)), map (metadata_of (objHeap (snd s))) [0],
                 fst (configMap_Load (process_configmaps server_client) (Inventory (manager (fst s))) (remote (snd s))))
           | None \<Rightarrow> None)
      | _ \<Rightarrow> None)"

lemma run_summary_value:
  "run_summary = Some ([applyEvent EventPending 0 None, applyEvent EventSuccessful 0 None,
      inventoryEvent EventPending None, inventoryEvent EventSuccessful None], [],
    [ObjectMetadata ''a'' ''prod'' [] ''Secret''], Inr [ObjectMetadata ''a'' ''prod'' [] ''Secret''])"
  by code_simp

lemma run_summary_obtain:
  obtains s0 tasks w' s where
    "prepare no_conversion save_applier [0] save_options save_world = Done (Inr (s0, tasks), w')"
    and "run_tasks (Task_Run (apRuntime save_applier)) tasks s0 = Some s"
    and "eventChannel (fst s) = [applyEvent EventPending 0 None, applyEvent EventSuccessful 0 None,
      inventoryEvent EventPending None, inventoryEvent EventSuccessful None]"
    and "startingObjects (manager (fst s0)) = []"
    and "metadata_of (objHeap (snd s)) 0 = ObjectMetadata ''a'' ''prod'' [] ''Secret''"
    and "fst (configMap_Load (process_configmaps server_client) (Inventory (manager (fst s))) (remote (snd s))) =
      Inr [ObjectMetadata ''a'' ''prod'' [] ''Secret'']"
proof -
  obtain s0 tasks w' where p: "prepare no_conversion save_applier [0] save_options save_world = Done (Inr (s0, tasks), w')"
    using run_summary_value unfolding run_summary_def by (auto split: exec.splits prod.splits sum.splits)
  obtain s where s: "run_tasks (Task_Run (apRuntime save_applier)) tasks s0 = Some s"
    using run_summary_value unfolding run_summary_def p by (auto split: option.splits)
  show ?thesis
    using run_summary_value by (intro that [OF p s]) (simp_all add: run_summary_def p s)
qed


end
