(* ===== verification/Poller_Informers.thy ===== *)
theory Poller_Informers
  imports Status_Check Task_Wait
begin

text \<open>
  \<open>pkg/poller/poller.go\<close>, \<open>informer.go\<close>, \<open>informerMultiplexer.go\<close> and \<open>fake.go\<close>: the poller
  that watches the objects of a wait. One informer per kind and namespace hands the objects of
  the server to the handlers, which filter them, check their status and send an event. The
  informers of the client library are a parameter; what reaches the common channel is the list
  of the events sent. The goroutines that start the informers hold one lock, so that each of
  them is one step, and so is each call of a handler; the steps come in any order.
\<close>

subsection \<open>What is polled\<close>

datatype informerResource = InformerResource (irGroupKind: GroupKind) (irNamespace: string)

definition resourcesAndIDsFromObjects ::
  "'c unstructured heap \<Rightarrow> ref list \<Rightarrow> informerResource list \<times> ObjectMetadata list" where
  "resourcesAndIDsFromObjects h objs =
     fold (\<lambda>obj (results, ids).
       (List.insert (InformerResource (objGK (h obj)) (objNamespace (h obj))) results,
        ids @ [metadata_of h obj])) objs ([], [])"

lemma resourcesAndIDs_fold:
  "fold (\<lambda>obj (results, ids).
     (List.insert (InformerResource (objGK (h obj)) (objNamespace (h obj))) results,
      ids @ [metadata_of h obj])) objs (rs, ids) =
   (fold List.insert (map (\<lambda>obj. InformerResource (objGK (h obj)) (objNamespace (h obj))) objs) rs,
    ids @ map (metadata_of h) objs)"
  by (induction objs arbitrary: rs ids) auto

lemma set_fold_insert: "set (fold List.insert xs ys) = set xs \<union> set ys"
  by (induction xs arbitrary: ys) auto

lemma distinct_fold_insert: "distinct ys \<Longrightarrow> distinct (fold List.insert xs ys)"
  by (induction xs arbitrary: ys) auto

lemma resourcesAndIDs_resources:
  "set (fst (resourcesAndIDsFromObjects h objs)) =
    (\<lambda>obj. InformerResource (objGK (h obj)) (objNamespace (h obj))) ` set objs"
  "distinct (fst (resourcesAndIDsFromObjects h objs))"
  by (simp_all add: resourcesAndIDsFromObjects_def resourcesAndIDs_fold set_fold_insert distinct_fold_insert)

lemma resourcesAndIDs_ids: "snd (resourcesAndIDsFromObjects h objs) = map (metadata_of h) objs"
  by (simp add: resourcesAndIDsFromObjects_def resourcesAndIDs_fold)

subsection \<open>Informers\<close>

text \<open>
  An informer of the library lists and watches one kind in one namespace; a cached object is
  handed out again after the resync period, in nanoseconds, and the cache has the named indexes.
\<close>

record informer =
  infGVK :: GroupVersionKind
  infResource :: GroupVersionResource
  infNamespace :: string
  infResync :: int
  infIndexers :: "string list"

text \<open>
  The two registrations on a shared informer of the library, which may fail; they stand for the
  client that the informers are made of.
\<close>

record informer_lib =
  SetWatchErrorHandler :: "informer \<Rightarrow> go_error option"
  AddEventHandler :: "informer \<Rightarrow> go_error option"

record ('k, 'm) informerBuilder =
  ibClient :: 'k
  ibMapper :: 'm
  ResyncPeriod :: int
  Indexers :: "string list"

definition newInfromerBuilder :: "'k \<Rightarrow> 'm \<Rightarrow> int \<Rightarrow> ('k, 'm) informerBuilder" where
  "newInfromerBuilder client mapper resync =
     \<lparr> ibClient = client, ibMapper = mapper, ResyncPeriod = resync, Indexers = [''namespace''] \<rparr>"

definition newInformer :: "('k, RESTMapper) informerBuilder \<Rightarrow> informerResource \<Rightarrow> go_error + informer" where
  "newInformer b resource =
     (case ibMapper b (irGroupKind resource) [] of
        Inl err \<Rightarrow> Inl err
      | Inr mapping \<Rightarrow>
          Inr \<lparr> infGVK = mapGVK mapping, infResource = mapResource mapping, infNamespace = irNamespace resource,
            infResync = ResyncPeriod b, infIndexers = Indexers b \<rparr>)"

record 'c informerMultiplexer =
  imBuilder :: "(informer_lib, RESTMapper) informerBuilder"
  Resources :: "informerResource list"
  ObjectToObserve :: "ObjectMetadata list"
  customStatusCheckers :: "'c CustomStatusCheckers"

abbreviation imLib :: "'c informerMultiplexer \<Rightarrow> informer_lib" where
  "imLib im \<equiv> ibClient (imBuilder im)"

text \<open>
  The state: \<open>plErr\<close> is \<open>Err()\<close> of the context, \<open>plStarting\<close> the resources whose goroutine of
  \<open>Run\<close> has not got the lock yet.
\<close>

record poller_state =
  plErr :: "go_error option"
  plEvents :: "Event list"
  plInformers :: "(informerResource, informer) gomap"
  plStarting :: "informerResource list"

definition emit :: "Event \<Rightarrow> poller_state \<Rightarrow> poller_state" where
  "emit e st = st \<lparr> plEvents := plEvents st @ [e] \<rparr>"

definition contextCanceled :: go_error where
  "contextCanceled = LibraryError ContextCanceled ''context canceled''"

definition Stop :: "poller_state \<Rightarrow> poller_state" where
  "Stop st = (if plErr st = None then st \<lparr> plErr := Some contextCanceled \<rparr> else st)"

definition blockingError :: "go_error \<Rightarrow> Event" where
  "blockingError err = zeroEvent \<lparr> evType := TypeError, evError := \<lparr> errError = Some err \<rparr> \<rparr>"

definition handleInformerError :: "go_error \<Rightarrow> poller_state \<Rightarrow> poller_state" where
  "handleInformerError err st =
     (if has_reason ContextCanceled err \<or> has_reason ContextDeadlineExceeded err then st
      else Stop (emit (blockingError err) st))"

text \<open>The channel multiplexer refuses a channel once the context is done.\<close>

definition closedErrorMessage :: string where
  "closedErrorMessage = ''multiplexer is closed, we cannot add new channels''"

definition AddChannel :: "poller_state \<Rightarrow> go_error option" where
  "AddChannel st = (if plErr st \<noteq> None then Some (ErrorNew closedErrorMessage) else None)"

definition runInformer :: "'c informerMultiplexer \<Rightarrow> informerResource \<Rightarrow> poller_state \<Rightarrow> go_error + informer" where
  "runInformer im resource st =
     (case newInformer (imBuilder im) resource of
        Inl err \<Rightarrow> Inl err
      | Inr i \<Rightarrow>
          (case SetWatchErrorHandler (imLib im) i of
             Some err \<Rightarrow> Inl err
           | None \<Rightarrow>
               (case AddEventHandler (imLib im) i of
                  Some err \<Rightarrow> Inl err
                | None \<Rightarrow> (case AddChannel st of Some err \<Rightarrow> Inl err | None \<Rightarrow> Inr i))))"

definition startInformer :: "'c informerMultiplexer \<Rightarrow> informerResource \<Rightarrow> poller_state \<Rightarrow> poller_state" where
  "startInformer im resource st =
     (if has_key (plInformers st) resource then st
      else case runInformer im resource st of
        Inl err \<Rightarrow> (if AddChannel st \<noteq> None then st else handleInformerError err st)
      | Inr i \<Rightarrow> st \<lparr> plInformers := AList.update resource i (plInformers st) \<rparr>)"

text \<open>\<open>Run\<close> on a new multiplexer, whose context ends with the one it is given.\<close>

definition Run :: "'c informerMultiplexer \<Rightarrow> poller_state" where
  "Run im = \<lparr> plErr = None, plEvents = [], plInformers = [], plStarting = Resources im \<rparr>"

text \<open>The default poller, which observes the objects it is given; it resyncs every five minutes.\<close>

record ('k, 'm, 'c) defaultStatusPoller =
  dpClient :: 'k
  dpMapper :: 'm
  dpResync :: int
  dpStatusCheckers :: "'c CustomStatusCheckers"

definition NewDefaultStatusPoller :: "'k \<Rightarrow> 'm \<Rightarrow> 'c CustomStatusCheckers \<Rightarrow> ('k, 'm, 'c) defaultStatusPoller" where
  "NewDefaultStatusPoller client mapper statusCheckers =
     \<lparr> dpClient = client, dpMapper = mapper, dpResync = 5 * 60 * 1000000000, dpStatusCheckers = statusCheckers \<rparr>"

definition defaultStatusPoller_Start ::
  "(informer_lib, RESTMapper, 'c) defaultStatusPoller \<Rightarrow> 'c unstructured heap \<Rightarrow> ref list \<Rightarrow>
     'c informerMultiplexer \<times> poller_state" where
  "defaultStatusPoller_Start p h objs =
     (let (informerResources, ids) = resourcesAndIDsFromObjects h objs;
          im = \<lparr> imBuilder = newInfromerBuilder (dpClient p) (dpMapper p) (dpResync p), Resources = informerResources,
            ObjectToObserve = ids, customStatusCheckers = dpStatusCheckers p \<rparr>
      in (im, Run im))"

text \<open>\<open>Run\<close> on a running one only sends an error on a channel of its own and stops nothing.\<close>

definition RunAgain :: "Event list" where
  "RunAgain = [blockingError (ErrorNew ''cannot restart an already running informer'')]"

subsection \<open>The handlers\<close>

text \<open>
  What a handler is given: an object, the last known state of one whose deletion was missed, or
  a value of another type, with its \<open>%T\<close>.
\<close>

datatype 'c watched =
    WatchedObject "'c unstructured" | DeletedFinalStateUnknown "'c watched" | WatchedOther string

fun typeName :: "'c watched \<Rightarrow> string" where
  "typeName (WatchedObject u) = ''*unstructured.Unstructured''"
| "typeName (DeletedFinalStateUnknown obj) = ''cache.DeletedFinalStateUnknown''"
| "typeName (WatchedOther t) = t"

definition unexpectedType :: "'c watched \<Rightarrow> go_error" where
  "unexpectedType obj = ErrorNew (''informer received unexpected object type '' @ typeName obj)"

definition filterObject :: "'c informerMultiplexer \<Rightarrow> 'c unstructured \<Rightarrow> bool" where
  "filterObject im obj \<longleftrightarrow> ObjectMetadataFromUnstructured obj \<notin> set (ObjectToObserve im)"

fun eventStatus :: "Status \<Rightarrow> EventStatus" where
  "eventStatus StatusCurrent = EventSuccessful"
| "eventStatus StatusInProgress = EventPending"
| "eventStatus StatusTerminating = EventPending"
| "eventStatus StatusFailed = EventFailed"

text \<open>The generated \<open>String\<close> of a status of the checks.\<close>

fun int_of_Status :: "Status \<Rightarrow> int" where
  "int_of_Status StatusInProgress = 0"
| "int_of_Status StatusFailed = 1"
| "int_of_Status StatusTerminating = 2"
| "int_of_Status StatusCurrent = 3"

definition Status_String :: "Status \<Rightarrow> string" where
  "Status_String s = stringer ''Status'' ''InProgressFailedTerminatingCurrent'' [0, 10, 16, 27, 34] (int_of_Status s)"

lemma Status_String_names:
  "map Status_String [StatusInProgress, StatusFailed, StatusTerminating, StatusCurrent] =
    [''InProgress'', ''Failed'', ''Terminating'', ''Current'']"
  by code_simp

text \<open>A nil result, which a custom checker may return, is dereferenced.\<close>

definition eventFromResult :: "Result option \<Rightarrow> 'c unstructured \<Rightarrow> Event exec" where
  "eventFromResult res obj =
     (case res of
        None \<Rightarrow> Panic
      | Some r \<Rightarrow> Done (zeroEvent \<lparr> evType := TypeStatusUpdate, evStatusUpdate :=
          \<lparr> uStatus = eventStatus (Status r), uMessage = Message r,
            uMetadata = ObjectMetadataFromUnstructured obj \<rparr> \<rparr>))"

definition AddFunc ::
  "'c status_lib \<Rightarrow> 'c informerMultiplexer \<Rightarrow> 'c watched \<Rightarrow> poller_state \<Rightarrow> poller_state exec" where
  "AddFunc lib im obj st =
     (if plErr st \<noteq> None then Done st
      else case obj of
        WatchedObject u \<Rightarrow>
          (if filterObject im u then Done st
           else bind_exec (statusCheck lib (customStatusCheckers im) u)
             (\<lambda>(res, err). case err of
                Some e \<Rightarrow> Done (handleInformerError e st)
              | None \<Rightarrow> bind_exec (eventFromResult res u) (\<lambda>e. Done (emit e st))))
      | _ \<Rightarrow> Done (handleInformerError (unexpectedType obj) st))"

definition UpdateFunc ::
  "'c status_lib \<Rightarrow> 'c informerMultiplexer \<Rightarrow> 'c watched \<Rightarrow> 'c watched \<Rightarrow> poller_state \<Rightarrow> poller_state exec" where
  "UpdateFunc lib im old obj st =
     (if plErr st \<noteq> None then Done st
      else case obj of
        WatchedObject u \<Rightarrow>
          (if filterObject im u then Done st
           else bind_exec (statusCheck lib (customStatusCheckers im) u)
             (\<lambda>(res, err). case err of
                Some e \<Rightarrow> Done (handleInformerError e st)
              | None \<Rightarrow> bind_exec (eventFromResult res u) (\<lambda>e. Done (emit e st))))
      | _ \<Rightarrow> Done (handleInformerError (unexpectedType obj) st))"

definition DeleteFunc :: "'c informerMultiplexer \<Rightarrow> 'c watched \<Rightarrow> poller_state \<Rightarrow> poller_state exec" where
  "DeleteFunc im obj st =
     (if plErr st \<noteq> None then Done st
      else let obj' = (case obj of DeletedFinalStateUnknown obj' \<Rightarrow> obj' | _ \<Rightarrow> obj) in
        case obj' of
          WatchedObject u \<Rightarrow>
            (if filterObject im u then Done st
             else bind_exec (eventFromResult (Some (terminatingResult ''Resource is scheduled for deletion'')) u)
               (\<lambda>e. Done (emit e st)))
        | _ \<Rightarrow> Done (handleInformerError (unexpectedType obj') st))"

definition watchErrorHandler :: "go_error \<Rightarrow> poller_state \<Rightarrow> poller_state" where
  "watchErrorHandler err st =
     (if has_reason IO_EOF err then st
      else if has_reason IO_UnexpectedEOF err then st
      else if has_reason ContextCanceled err \<or> has_reason ContextDeadlineExceeded err then st
      else if has_reason NotFound err then st
      else if has_reason ResourceExpired err \<or> has_reason Gone err then st
      else if has_reason Forbidden err then handleInformerError err st
      else st)"

lemma UpdateFunc_AddFunc: "UpdateFunc lib im old = AddFunc lib im"
  by (intro ext) (simp add: UpdateFunc_def AddFunc_def)

subsection \<open>What a handler does\<close>

lemma emit_simps [simp]:
  "plErr (emit e st) = plErr st" "plEvents (emit e st) = plEvents st @ [e]"
  "plInformers (emit e st) = plInformers st" "plStarting (emit e st) = plStarting st"
  by (simp_all add: emit_def)

lemma Stop_simps [simp]:
  "plErr (Stop st) \<noteq> None" "plEvents (Stop st) = plEvents st"
  "plInformers (Stop st) = plInformers st" "plStarting (Stop st) = plStarting st"
  by (simp_all add: Stop_def)

definition status_event :: "Result \<Rightarrow> 'c unstructured \<Rightarrow> Event" where
  "status_event r u = zeroEvent \<lparr> evType := TypeStatusUpdate, evStatusUpdate :=
     \<lparr> uStatus = eventStatus (Status r), uMessage = Message r, uMetadata = ObjectMetadataFromUnstructured u \<rparr> \<rparr>"

lemma status_event_simps [simp]:
  "evType (status_event r u) = TypeStatusUpdate"
  "update_of (status_event r u) = ObjectMetadataFromUnstructured u"
  "uStatus (evStatusUpdate (status_event r u)) = eventStatus (Status r)"
  by (simp_all add: status_event_def)

lemma eventFromResult_event: "eventFromResult res u = (case res of None \<Rightarrow> Panic | Some r \<Rightarrow> Done (status_event r u))"
  by (simp add: eventFromResult_def status_event_def split: option.split)

lemma eventStatus_Successful: "eventStatus s = EventSuccessful \<longleftrightarrow> s = StatusCurrent"
  by (cases s) auto

lemma blockingError_Type [simp]: "evType (blockingError err) = TypeError"
  by (simp add: blockingError_def)

definition silent :: "go_error \<Rightarrow> bool" where
  "silent err \<longleftrightarrow> has_reason ContextCanceled err \<or> has_reason ContextDeadlineExceeded err"

lemma handleInformerError_silent:
  "handleInformerError err st = (if silent err then st else Stop (emit (blockingError err) st))"
  by (simp add: handleInformerError_def silent_def)

text \<open>The three things a handler can do on a state whose context is alive.\<close>

inductive reaction :: "ObjectMetadata list \<Rightarrow> poller_state \<Rightarrow> poller_state \<Rightarrow> bool" for ids where
  ignored: "reaction ids st st"
| failed: "reaction ids st (Stop (emit (blockingError err) st))"
| reported: "plErr st = None \<Longrightarrow> evType e = TypeStatusUpdate \<Longrightarrow> update_of e \<in> set ids \<Longrightarrow>
    reaction ids st (emit e st)"

lemma handleInformerError_reaction: "reaction ids st (handleInformerError err st)"
  by (auto simp: handleInformerError_silent intro: reaction.intros)

lemma reported_event:
  "eventFromResult res u = Done e \<Longrightarrow> \<exists>r. res = Some r \<and> e = status_event r u"
  by (auto simp: eventFromResult_event split: option.splits)

lemma AddFunc_reaction: "AddFunc lib im obj st = Done st' \<Longrightarrow> reaction (ObjectToObserve im) st st'"
  by (auto simp: AddFunc_def filterObject_def bind_exec_Done split: if_splits watched.splits option.splits
      dest!: reported_event intro: reaction.intros handleInformerError_reaction)

lemma DeleteFunc_reaction: "DeleteFunc im obj st = Done st' \<Longrightarrow> reaction (ObjectToObserve im) st st'"
  by (auto simp: DeleteFunc_def filterObject_def bind_exec_Done Let_def split: if_splits watched.splits
      dest!: reported_event intro: reaction.intros handleInformerError_reaction)

lemma watchErrorHandler_reaction: "reaction ids st (watchErrorHandler err st)"
  by (auto simp: watchErrorHandler_def intro: reaction.intros handleInformerError_reaction)

text \<open>A success is sent only for a version of an observed object that the check finds current.\<close>

lemma AddFunc_success:
  assumes "AddFunc lib im obj st = Done st'" and "e \<in> set (plEvents st')" and "e \<notin> set (plEvents st)" and "succeeded e"
  shows "\<exists>u r. obj = WatchedObject u \<and> update_of e = ObjectMetadataFromUnstructured u \<and>
    statusCheck lib (customStatusCheckers im) u = Done (Some r, None) \<and> Status r = StatusCurrent"
proof -
  have changed: "st' \<noteq> st" and calm: "handleInformerError err st \<noteq> st'" for err
    using assms(2-4) by (auto simp: handleInformerError_silent succeeded_def split: if_splits)
  from assms(1) changed calm obtain u res err where obj: "obj = WatchedObject u"
    and check: "statusCheck lib (customStatusCheckers im) u = Done (res, err)"
    and then_do: "(case err of Some e \<Rightarrow> Done (handleInformerError e st)
      | None \<Rightarrow> bind_exec (eventFromResult res u) (\<lambda>e. Done (emit e st))) = Done st'"
    by (auto simp: AddFunc_def bind_exec_Done split: if_splits watched.splits)
  have "err = None" using then_do calm by (cases err) auto
  with then_do obtain r where "res = Some r" "st' = emit (status_event r u) st"
    by (auto simp: bind_exec_Done dest!: reported_event)
  with obj check \<open>err = None\<close> assms(2-4) show ?thesis
    by (auto simp: succeeded_def eventStatus_Successful)
qed

lemma DeleteFunc_success:
  assumes "DeleteFunc im obj st = Done st'" and "e \<in> set (plEvents st')" and "e \<notin> set (plEvents st)"
  shows "\<not> succeeded e"
  using assms
  by (auto simp: DeleteFunc_def bind_exec_Done handleInformerError_silent succeeded_def terminatingResult_def Let_def
      split: if_splits watched.splits dest!: reported_event)

subsection \<open>Runs\<close>

text \<open>
  What can happen to a multiplexer: a goroutine of \<open>Run\<close> gets the lock, the context ends from
  outside, or an informer calls a handler. The clock moves between the calls, so that each of
  them comes with its own \<open>status_lib\<close>.
\<close>

datatype 'c happening =
    Started informerResource
  | Ended go_error
  | Added "'c status_lib" "'c watched"
  | Updated "'c status_lib" "'c watched" "'c watched"
  | Deleted "'c watched"
  | WatchFailed go_error

inductive happens :: "'c informerMultiplexer \<Rightarrow> 'c happening \<Rightarrow> poller_state \<Rightarrow> poller_state \<Rightarrow> bool" for im where
  started: "resource \<in> set (plStarting st) \<Longrightarrow>
    happens im (Started resource) st (startInformer im resource (st \<lparr> plStarting := remove1 resource (plStarting st) \<rparr>))"
| ended: "plErr st = None \<Longrightarrow> silent err \<Longrightarrow> happens im (Ended err) st (st \<lparr> plErr := Some err \<rparr>)"
| added: "AddFunc lib im obj st = Done st' \<Longrightarrow> plInformers st \<noteq> [] \<Longrightarrow> happens im (Added lib obj) st st'"
| updated: "UpdateFunc lib im old obj st = Done st' \<Longrightarrow> plInformers st \<noteq> [] \<Longrightarrow>
    happens im (Updated lib old obj) st st'"
| deleted: "DeleteFunc im obj st = Done st' \<Longrightarrow> plInformers st \<noteq> [] \<Longrightarrow> happens im (Deleted obj) st st'"
| watch_failed: "plInformers st \<noteq> [] \<Longrightarrow> happens im (WatchFailed err) st (watchErrorHandler err st)"

inductive_cases StartedE: "happens im (Started resource) st st'"
inductive_cases EndedE: "happens im (Ended err) st st'"

text \<open>The states a multiplexer goes through from \<open>Run\<close>, with what happened.\<close>

inductive runs :: "'c informerMultiplexer \<Rightarrow> 'c happening list \<Rightarrow> poller_state \<Rightarrow> bool" for im where
  running: "runs im [] (Run im)"
| happened: "runs im hs st \<Longrightarrow> happens im h st st' \<Longrightarrow> runs im (hs @ [h]) st'"

text \<open>
  The events of a run: statuses of observed objects, and behind them the errors, after the
  first of which the context is done.
\<close>

definition events_ordered :: "ObjectMetadata list \<Rightarrow> poller_state \<Rightarrow> bool" where
  "events_ordered ids st \<longleftrightarrow> (\<exists>statuses errs. plEvents st = statuses @ errs \<and>
     (\<forall>e \<in> set statuses. evType e = TypeStatusUpdate \<and> update_of e \<in> set ids) \<and>
     (\<forall>e \<in> set errs. evType e = TypeError \<and> update_of e = emptyMetadata) \<and> (errs \<noteq> [] \<longrightarrow> plErr st \<noteq> None))"

lemma events_ordered_silent:
  assumes "events_ordered ids st" and "plEvents st' = plEvents st" and "plErr st \<noteq> None \<Longrightarrow> plErr st' \<noteq> None"
  shows "events_ordered ids st'"
  using assms unfolding events_ordered_def by metis

lemma events_ordered_failed:
  assumes "events_ordered ids st"
  shows "events_ordered ids (Stop (emit (blockingError err) st))"
proof -
  from assms obtain statuses errs where split: "plEvents st = statuses @ errs"
    "\<forall>e \<in> set statuses. evType e = TypeStatusUpdate \<and> update_of e \<in> set ids" "\<forall>e \<in> set errs. evType e = TypeError \<and> update_of e = emptyMetadata"
    unfolding events_ordered_def by blast
  show ?thesis
    unfolding events_ordered_def
    by (intro exI [of _ statuses] exI [of _ "errs @ [blockingError err]"] conjI)
       (use split in \<open>auto simp: blockingError_def zeroEvent_def\<close>)
qed

lemma events_ordered_reported:
  assumes "events_ordered ids st" and "plErr st = None" and "evType e = TypeStatusUpdate" and "update_of e \<in> set ids"
  shows "events_ordered ids (emit e st)"
proof -
  from assms(1,2) obtain statuses where "plEvents st = statuses"
    "\<forall>e \<in> set statuses. evType e = TypeStatusUpdate \<and> update_of e \<in> set ids"
    unfolding events_ordered_def by fastforce
  then show ?thesis
    unfolding events_ordered_def
    by (intro exI [of _ "statuses @ [e]"] exI [of _ "[]"]) (use assms(3,4) in auto)
qed

lemma events_ordered_reaction: "reaction ids st st' \<Longrightarrow> events_ordered ids st \<Longrightarrow> events_ordered ids st'"
  by (induction rule: reaction.induct) (auto intro: events_ordered_failed events_ordered_reported)

lemma reaction_informers: "reaction ids st st' \<Longrightarrow> plInformers st' = plInformers st \<and> plStarting st' = plStarting st"
  by (induction rule: reaction.induct) auto

lemma happens_reaction:
  assumes "happens im h st st'"
  shows "reaction (ObjectToObserve im) st st' \<or> (\<exists>resource. h = Started resource) \<or> (\<exists>err. h = Ended err)"
  using assms by (cases rule: happens.cases)
    (auto simp: UpdateFunc_AddFunc intro: AddFunc_reaction DeleteFunc_reaction watchErrorHandler_reaction)

text \<open>
  A start that fails because the context of the request ended is not reported and does not
  stop the multiplexer.
\<close>

definition quiet_failure :: "'c informerMultiplexer \<Rightarrow> informerResource \<Rightarrow> bool" where
  "quiet_failure im resource \<longleftrightarrow> (\<exists>err. silent err \<and> (newInformer (imBuilder im) resource = Inl err \<or>
     (\<exists>i. newInformer (imBuilder im) resource = Inr i \<and>
        (SetWatchErrorHandler (imLib im) i = Some err \<or> AddEventHandler (imLib im) i = Some err))))"

definition informers_known :: "'c informerMultiplexer \<Rightarrow> (informerResource, informer) gomap \<Rightarrow> bool" where
  "informers_known im m \<longleftrightarrow> distinct (map fst m) \<and>
     (\<forall>resource i. map_of m resource = Some i \<longrightarrow>
        resource \<in> set (Resources im) \<and> newInformer (imBuilder im) resource = Inr i)"

text \<open>While the context is alive, every resource waits for its start or has its informer.\<close>

definition covered :: "'c informerMultiplexer \<Rightarrow> informerResource list \<Rightarrow> (informerResource, informer) gomap \<Rightarrow> bool" where
  "covered im starting m \<longleftrightarrow> set (Resources im) \<subseteq>
     set starting \<union> {resource. has_key m resource} \<union> {resource. quiet_failure im resource}"

definition informers_ok :: "'c informerMultiplexer \<Rightarrow> poller_state \<Rightarrow> bool" where
  "informers_ok im st \<longleftrightarrow> informers_known im (plInformers st) \<and> set (plStarting st) \<subseteq> set (Resources im) \<and>
     (plErr st = None \<longrightarrow> covered im (plStarting st) (plInformers st))"

lemma informers_ok_same:
  assumes "informers_ok im st" and "plInformers st' = plInformers st" and "plStarting st' = plStarting st"
    and "plErr st \<noteq> None \<Longrightarrow> plErr st' \<noteq> None"
  shows "informers_ok im st'"
  using assms unfolding informers_ok_def by auto

lemma reaction_plErr: "reaction ids st st' \<Longrightarrow> plErr st \<noteq> None \<Longrightarrow> plErr st' \<noteq> None"
  by (induction rule: reaction.induct) (auto simp del: not_None_eq)

lemma runInformer_Inr: "runInformer im resource st = Inr i \<Longrightarrow> newInformer (imBuilder im) resource = Inr i"
  by (auto simp: runInformer_def split: sum.splits option.splits)

lemma runInformer_silent:
  "runInformer im resource st = Inl err \<Longrightarrow> AddChannel st = None \<Longrightarrow> silent err \<Longrightarrow> quiet_failure im resource"
  by (auto simp: runInformer_def quiet_failure_def split: sum.splits option.splits)

lemma informers_known_update:
  assumes "informers_known im m" and "resource \<in> set (Resources im)" and "newInformer (imBuilder im) resource = Inr i"
  shows "informers_known im (AList.update resource i m)"
  using assms by (auto simp: informers_known_def distinct_update update_conv split: if_splits)

text \<open>A resource leaves the list of those to start when it is settled in one of the two other ways.\<close>

lemma covered_settled:
  assumes "covered im starting m" and "has_key m' resource \<or> quiet_failure im resource"
    and "\<And>r. has_key m r \<Longrightarrow> has_key m' r"
  shows "covered im (remove1 resource starting) m'"
  unfolding covered_def
proof
  fix r
  assume "r \<in> set (Resources im)"
  then have "r \<in> set starting \<or> has_key m r \<or> quiet_failure im r" using assms(1) by (auto simp: covered_def)
  then show "r \<in> set (remove1 resource starting) \<union> {r. has_key m' r} \<union> {r. quiet_failure im r}"
    using assms(2,3) by (cases "r = resource") auto
qed

lemma startInformer_ok:
  assumes "informers_ok im st" and "resource \<in> set (plStarting st)"
  shows "informers_ok im (startInformer im resource (st \<lparr> plStarting := remove1 resource (plStarting st) \<rparr>))"
proof -
  let ?st = "st \<lparr> plStarting := remove1 resource (plStarting st) \<rparr>"
  have known: "informers_known im (plInformers st)" "resource \<in> set (Resources im)"
    "set (remove1 resource (plStarting st)) \<subseteq> set (Resources im)"
    using assms set_remove1_subset [of resource "plStarting st"] by (auto simp: informers_ok_def)
  have settled: "plErr st = None \<longrightarrow> covered im (remove1 resource (plStarting st)) m'"
    if "has_key m' resource \<or> quiet_failure im resource" "\<And>r. has_key (plInformers st) r \<Longrightarrow> has_key m' r" for m'
    using assms(1) that by (auto simp: informers_ok_def intro: covered_settled)
  consider (found) "has_key (plInformers st) resource"
    | (failed) err where "\<not> has_key (plInformers st) resource" "runInformer im resource ?st = Inl err"
    | (fresh) i where "\<not> has_key (plInformers st) resource" "runInformer im resource ?st = Inr i"
    by (cases "runInformer im resource ?st") auto
  then show ?thesis
  proof cases
    case found
    then show ?thesis using known settled by (simp add: startInformer_def informers_ok_def)
  next
    case failed
    show ?thesis
    proof (cases "AddChannel ?st = None \<and> silent err")
      case True
      then have "quiet_failure im resource" using runInformer_silent [OF failed(2)] by blast
      with True failed known settled show ?thesis
        by (simp add: startInformer_def informers_ok_def handleInformerError_silent)
    next
      case False
      then have "plErr (startInformer im resource ?st) \<noteq> None"
        using failed by (auto simp: startInformer_def handleInformerError_silent AddChannel_def simp del: not_None_eq)
      moreover have "plInformers (startInformer im resource ?st) = plInformers st"
        "plStarting (startInformer im resource ?st) = remove1 resource (plStarting st)"
        using failed by (simp_all add: startInformer_def handleInformerError_silent)
      ultimately show ?thesis using known by (auto simp: informers_ok_def)
    qed
  next
    case fresh
    have "informers_known im (AList.update resource i (plInformers st))"
      by (rule informers_known_update [OF known(1,2) runInformer_Inr [OF fresh(2)]])
    with fresh known(3) settled show ?thesis by (simp add: startInformer_def informers_ok_def has_key_iff)
  qed
qed

lemma startInformer_events:
  "plEvents (startInformer im resource st) = plEvents st \<and> plErr (startInformer im resource st) = plErr st \<or>
   (\<exists>err. startInformer im resource st = Stop (emit (blockingError err) st))"
  by (auto simp: startInformer_def handleInformerError_silent split: sum.splits)

lemma happens_ordered:
  assumes "happens im h st st'" and "events_ordered (ObjectToObserve im) st"
  shows "events_ordered (ObjectToObserve im) st'"
  using happens_reaction [OF assms(1)]
proof (elim disjE exE)
  assume "reaction (ObjectToObserve im) st st'"
  then show ?thesis using assms(2) by (rule events_ordered_reaction)
next
  fix resource
  assume "h = Started resource"
  then have st': "st' = startInformer im resource (st \<lparr> plStarting := remove1 resource (plStarting st) \<rparr>)"
    using assms(1) by (auto elim: StartedE)
  have before: "events_ordered (ObjectToObserve im) (st \<lparr> plStarting := remove1 resource (plStarting st) \<rparr>)"
    by (rule events_ordered_silent [OF assms(2)]) simp_all
  from startInformer_events [of im resource "st \<lparr> plStarting := remove1 resource (plStarting st) \<rparr>"] show ?thesis
    unfolding st' [symmetric]
  proof (elim disjE exE conjE)
    fix err
    assume "st' = Stop (emit (blockingError err) (st \<lparr> plStarting := remove1 resource (plStarting st) \<rparr>))"
    then show ?thesis by (simp only: events_ordered_failed [OF before])
  qed (rule events_ordered_silent [OF before], simp_all)
next
  fix err
  assume "h = Ended err"
  then have "st' = st \<lparr> plErr := Some err \<rparr>" using assms(1) by (auto elim: EndedE)
  then show ?thesis by (intro events_ordered_silent [OF assms(2)]) simp_all
qed

lemma happens_informers:
  assumes "happens im h st st'" and "informers_ok im st"
  shows "informers_ok im st'"
  using happens_reaction [OF assms(1)]
proof (elim disjE exE)
  assume r: "reaction (ObjectToObserve im) st st'"
  then show ?thesis
    by (intro informers_ok_same [OF assms(2)]) (auto simp: reaction_informers reaction_plErr simp del: not_None_eq)
next
  fix resource
  assume "h = Started resource"
  with assms show ?thesis by (auto elim!: StartedE intro: startInformer_ok)
next
  fix err
  assume "h = Ended err"
  then have "st' = st \<lparr> plErr := Some err \<rparr>" using assms(1) by (auto elim: EndedE)
  then show ?thesis by (intro informers_ok_same [OF assms(2)]) simp_all
qed

lemma runs_ok: "runs im hs st \<Longrightarrow> events_ordered (ObjectToObserve im) st \<and> informers_ok im st"
proof (induction rule: runs.induct)
  case running
  show ?case
    by (auto simp: Run_def events_ordered_def informers_ok_def informers_known_def covered_def)
next
  case (happened hs st h st')
  then show ?case by (blast intro: happens_ordered happens_informers)
qed


text \<open>A success among the events of a run.\<close>

definition found_current :: "'c informerMultiplexer \<Rightarrow> ObjectMetadata \<Rightarrow> 'c happening \<Rightarrow> bool" where
  "found_current im ident h \<longleftrightarrow> (\<exists>lib u r. ObjectMetadataFromUnstructured u = ident \<and>
     (h = Added lib (WatchedObject u) \<or> (\<exists>old. h = Updated lib old (WatchedObject u))) \<and>
     statusCheck lib (customStatusCheckers im) u = Done (Some r, None) \<and> Status r = StatusCurrent)"

lemma happens_success:
  assumes "happens im h st st'" and "e \<in> set (plEvents st')" and "e \<notin> set (plEvents st)" and "succeeded e"
  shows "found_current im (update_of e) h"
  using assms(1)
proof (cases rule: happens.cases)
  case (started resource)
  then show ?thesis
    using assms(2-4) startInformer_events [of im resource "st \<lparr> plStarting := remove1 resource (plStarting st) \<rparr>"]
    by (auto simp: succeeded_def)
next
  case (added lib obj)
  with AddFunc_success [OF added(2) assms(2-4)] show ?thesis by (auto simp: found_current_def)
next
  case (updated lib old obj)
  with AddFunc_success [OF updated(2) [unfolded UpdateFunc_AddFunc] assms(2-4)] show ?thesis
    by (auto simp: found_current_def)
next
  case (deleted obj)
  with DeleteFunc_success assms(2-4) show ?thesis by blast
next
  case (watch_failed err)
  then show ?thesis
    using assms(2-4) by (auto simp: watchErrorHandler_def handleInformerError_silent succeeded_def split: if_splits)
next
  case (ended err)
  then show ?thesis using assms(2,3) by simp
qed

lemma runs_success:
  "runs im hs st \<Longrightarrow> e \<in> set (plEvents st) \<Longrightarrow> succeeded e \<Longrightarrow> \<exists>h \<in> set hs. found_current im (update_of e) h"
proof (induction rule: runs.induct)
  case running
  then show ?case by (simp add: Run_def)
next
  case (happened hs st h st')
  then show ?case using happens_success by (cases "e \<in> set (plEvents st)") auto
qed

text \<open>The multiplexer of informers meets the contract of the poller, in each of its runs.\<close>

definition informer_reports :: "'c informerMultiplexer \<times> 'c happening list \<Rightarrow> ObjectMetadata list \<Rightarrow> Event list \<Rightarrow> bool" where
  "informer_reports run ids es \<longleftrightarrow>
     ObjectToObserve (fst run) = ids \<and> (\<exists>pl. runs (fst run) (snd run) pl \<and> plEvents pl = es)"

definition informer_confirmed :: "'c informerMultiplexer \<times> 'c happening list \<Rightarrow> ObjectMetadata \<Rightarrow> bool" where
  "informer_confirmed run ident \<longleftrightarrow> (\<exists>h \<in> set (snd run). found_current (fst run) ident h)"

lemma events_ordered_statuses: "events_ordered ids st \<Longrightarrow> statuses_then_errors ids (plEvents st)"
  unfolding events_ordered_def statuses_then_errors_def by blast

interpretation informers: StatusPoller informer_reports informer_confirmed
proof
  fix run :: "'c informerMultiplexer \<times> 'c happening list" and ids es
  assume reports: "informer_reports run ids es"
  then show "statuses_then_errors ids es"
    unfolding informer_reports_def using runs_ok events_ordered_statuses by blast
  show "informer_confirmed run (update_of e)" if "e \<in> set es" "succeeded e" for e
    using reports that runs_success unfolding informer_reports_def informer_confirmed_def by blast
qed

text \<open>
  C22: A wait of the runner can be trusted: when it ends because every object is ready, then for
  each object it polled an informer of the poller handed over a version of the object that the
  status check found current; and in any case, with no object without a name among those it
  waits for, it passes on only statuses and none of the errors of the poller. The messages of
  the poller are the events of a run that started for these objects.
\<close>

theorem wait_trusts_checks:
  assumes "WaitTask_Run mapper start RunnerState_ops objs st v = (st', v', Some how)"
    and "start (pollerObjects RunnerState_ops st objs) = (plEvents pl, closed)"
    and "runs im hs pl"
  shows "(how = AllReady \<longrightarrow>
      (\<forall>obj \<in> set objs. outcome (manager st) obj \<notin> {Some ApplyFailed, Some Skipped} \<longrightarrow>
         (\<exists>h \<in> set hs. found_current im (metadata_of (objHeap v) obj) h))) \<and>
    (emptyMetadata \<notin> metadata_of (objHeap v) ` set objs \<longrightarrow>
       (\<exists>es. eventChannel st' = eventChannel st @ es \<and> (\<forall>e \<in> set es. evType e = TypeStatusUpdate)))"
proof -
  have run: "informer_reports (im, hs) (ObjectToObserve im) (plEvents pl)"
    using assms(3) by (auto simp: informer_reports_def)
  have "\<exists>h \<in> set hs. found_current im (metadata_of (objHeap v) obj) h"
    if "how = AllReady" and "obj \<in> set objs" "outcome (manager st) obj \<notin> {Some ApplyFailed, Some Skipped}" for obj
  proof -
    have "obj \<in> set (pollerObjects RunnerState_ops st objs)"
      using that by (auto simp: pollerObjects_def RunnerState_ops_def RunnerState_SkipWait_def outcome_queries)
    from informers.wait_confirmed [OF assms(1) [unfolded that(1)] assms(2) run this] show ?thesis
      by (simp add: informer_confirmed_def)
  qed
  with informers.wait_forwards_statuses [OF assms(1,2) run] show ?thesis by blast
qed

subsection \<open>Witnesses\<close>

definition example_im :: "unit informerMultiplexer" where
  "example_im = fst (defaultStatusPoller_Start
     (NewDefaultStatusPoller \<lparr> SetWatchErrorHandler = (\<lambda>i. None), AddEventHandler = (\<lambda>i. None) \<rparr>
        (\<lambda>gk versions. Inr (cluster_mapping gk)) []) example_heap3 [0])"

lemma example_im_fields [simp]:
  "Resources example_im = fst (resourcesAndIDsFromObjects example_heap3 [0])"
  "ObjectToObserve example_im = snd (resourcesAndIDsFromObjects example_heap3 [0])"
  "customStatusCheckers example_im = []"
  by (simp_all add: example_im_def defaultStatusPoller_Start_def NewDefaultStatusPoller_def Let_def split_beta)

definition example_started :: poller_state where
  "example_started = startInformer example_im (hd (Resources example_im)) (Run example_im \<lparr> plStarting := [] \<rparr>)"

definition example_reported :: poller_state where
  "example_reported = emit (status_event (currentResult ''Resource is current'') (example_heap3 0)) example_started"

lemma example_started_informers: "plInformers example_started \<noteq> []" "plErr example_started = None"
  "plEvents example_started = []"
  by (code_simp | simp)+

lemma example_check:
  "statusCheck example_lib [] (example_heap3 0) = Done (Some (currentResult ''Resource is current''), None)"
  by code_simp

lemma example_runs:
  "runs example_im [Started (hd (Resources example_im)), Added example_lib (WatchedObject (example_heap3 0))] example_reported"
proof -
  have "runs example_im ([] @ [Started (hd (Resources example_im))]) example_started"
    unfolding example_started_def
    by (rule happened [OF running]) (use happens.started [of "hd (Resources example_im)" "Run example_im" example_im] in
      \<open>simp add: Run_def resourcesAndIDsFromObjects_def\<close>)
  moreover have "AddFunc example_lib example_im (WatchedObject (example_heap3 0)) example_started = Done example_reported"
    using example_started_informers example_check
    by (simp add: AddFunc_def filterObject_def resourcesAndIDs_ids metadata_of_def
        eventFromResult_event example_reported_def)
  ultimately show ?thesis
    using happened [OF _ happens.added] example_started_informers(1) by fastforce
qed


lemma example_wait:
  "snd (snd (WaitTask_Run cluster_mapper (\<lambda>objs. (plEvents example_reported, False))
      RunnerState_ops [0, 1] example_state example_world)) = Some AllReady"
  by code_simp

theorem wait_trusts_checks_witness:
  "\<exists>h \<in> set [Started (hd (Resources example_im)), Added example_lib (WatchedObject (example_heap3 0))].
     found_current example_im (metadata_of example_heap3 0) h"
proof -
  obtain st' v' where run: "WaitTask_Run cluster_mapper (\<lambda>objs. (plEvents example_reported, False))
      RunnerState_ops [0, 1] example_state example_world = (st', v', Some AllReady)"
    using example_wait by (metis prod.collapse)
  have "outcome (manager example_state) 0 \<notin> {Some ApplyFailed, Some Skipped}"
    by (simp add: example_state_def SetFailedApply_def NewManager_def outcome_def setStatus_def)
  moreover have "0 \<in> set [0, 1]" by simp
  ultimately show ?thesis
    using wait_trusts_checks [OF run refl example_runs, THEN conjunct1, THEN mp, OF refl]
    by (metis (no_types, lifting) example_world_def world.select_convs(1))
qed

subsection \<open>The poller of the tests\<close>

text \<open>
  It reports the status of each object once, in order, and closes its channel. \<open>ended objs\<close> is
  \<open>Err()\<close> of the context where \<open>objs\<close> are the objects still to report.
\<close>

fun fakeLoop ::
  "'c status_lib \<Rightarrow> 'c unstructured heap \<Rightarrow> (ref list \<Rightarrow> go_error option) \<Rightarrow> ref list \<Rightarrow> Event list \<Rightarrow> Event list exec" where
  "fakeLoop lib h ended [] events = Done events"
| "fakeLoop lib h ended (obj # objs) events =
     (if ended (obj # objs) \<noteq> None then Done events
      else bind_exec (statusCheck lib [] (h obj))
        (\<lambda>(res, err). case err of
           Some e \<Rightarrow> Done (events @ [blockingError e])
         | None \<Rightarrow> bind_exec (eventFromResult res (h obj)) (\<lambda>e. fakeLoop lib h ended objs (events @ [e]))))"

definition FakePoller_Start ::
  "'c status_lib \<Rightarrow> 'c unstructured heap \<Rightarrow> (ref list \<Rightarrow> go_error option) \<Rightarrow> ref list \<Rightarrow> Event list exec" where
  "FakePoller_Start lib h ended objs = fakeLoop lib h ended objs []"

lemma fakeLoop_reports:
  assumes "\<And>obj. obj \<in> set objs \<Longrightarrow> statusCheck lib [] (h obj) = Done (Some (r obj), None)"
    and "\<And>os. ended os = None"
  shows "fakeLoop lib h ended objs events = Done (events @ map (\<lambda>obj. status_event (r obj) (h obj)) objs)"
  using assms by (induction objs arbitrary: events) (auto simp: eventFromResult_event)

text \<open>It meets the contract of the poller too.\<close>

definition checked_current :: "'c status_lib \<Rightarrow> 'c unstructured heap \<Rightarrow> ref list \<Rightarrow> ObjectMetadata \<Rightarrow> bool" where
  "checked_current lib h objs ident \<longleftrightarrow> (\<exists>obj \<in> set objs. metadata_of h obj = ident \<and>
     (\<exists>r. statusCheck lib [] (h obj) = Done (Some r, None) \<and> Status r = StatusCurrent))"

lemma fakeLoop_events:
  assumes "fakeLoop lib h ended objs events = Done es"
  shows "\<exists>new. es = events @ new \<and> statuses_then_errors (map (metadata_of h) objs) new \<and>
    (\<forall>e \<in> set new. succeeded e \<longrightarrow> checked_current lib h objs (update_of e))"
  using assms
proof (induction objs arbitrary: events)
  case Nil
  then show ?case by (auto simp: statuses_then_errors_def)
next
  case (Cons obj objs)
  show ?case
  proof (cases "ended (obj # objs)")
    case (Some err)
    then show ?thesis using Cons.prems by (auto simp: statuses_then_errors_def)
  next
    case None
    then obtain res err where check: "statusCheck lib [] (h obj) = Done (res, err)"
      and rest: "(case err of Some e \<Rightarrow> Done (events @ [blockingError e])
         | None \<Rightarrow> bind_exec (eventFromResult res (h obj)) (\<lambda>e. fakeLoop lib h ended objs (events @ [e]))) = Done es"
      using Cons.prems by (auto simp: bind_exec_Done)
    show ?thesis
    proof (cases err)
      case (Some e)
      then have "es = events @ [blockingError e]" using rest by simp
      moreover have "statuses_then_errors (map (metadata_of h) (obj # objs)) [blockingError e]"
        unfolding statuses_then_errors_def by (rule exI [of _ "[]"]) (simp add: blockingError_def zeroEvent_def)
      ultimately show ?thesis by (auto simp: succeeded_def blockingError_def)
    next
      case None
      then obtain r where r: "res = Some r"
        and "fakeLoop lib h ended objs (events @ [status_event r (h obj)]) = Done es"
        using rest by (auto simp: bind_exec_Done dest!: reported_event)
      from Cons.IH [OF this(2)] obtain new where new: "es = events @ status_event r (h obj) # new"
        "statuses_then_errors (map (metadata_of h) objs) new"
        "\<forall>e \<in> set new. succeeded e \<longrightarrow> checked_current lib h objs (update_of e)"
        by auto
      from new(2) obtain statuses errs where "new = statuses @ errs"
        "\<forall>e \<in> set statuses. evType e = TypeStatusUpdate \<and> update_of e \<in> set (map (metadata_of h) objs)"
        "\<forall>e \<in> set errs. evType e = TypeError \<and> update_of e = emptyMetadata"
        unfolding statuses_then_errors_def by blast
      then have "statuses_then_errors (map (metadata_of h) (obj # objs)) (status_event r (h obj) # new)"
        unfolding statuses_then_errors_def
        by (intro exI [of _ "status_event r (h obj) # statuses"] exI [of _ errs]) (auto simp: metadata_of_def)
      moreover have "succeeded e \<longrightarrow> checked_current lib h (obj # objs) (update_of e)"
        if "e \<in> set (status_event r (h obj) # new)" for e
        using that new(3) check r None
        by (auto simp: checked_current_def succeeded_def eventStatus_Successful metadata_of_def)
      ultimately show ?thesis using new(1) by blast
    qed
  qed
qed

definition fake_reports ::
  "'c status_lib \<times> 'c unstructured heap \<times> (ref list \<Rightarrow> go_error option) \<times> ref list \<Rightarrow> ObjectMetadata list \<Rightarrow> Event list \<Rightarrow> bool" where
  "fake_reports run ids es \<longleftrightarrow> (case run of (lib, h, ended, objs) \<Rightarrow>
     ids = map (metadata_of h) objs \<and> FakePoller_Start lib h ended objs = Done es)"

definition fake_confirmed ::
  "'c status_lib \<times> 'c unstructured heap \<times> (ref list \<Rightarrow> go_error option) \<times> ref list \<Rightarrow> ObjectMetadata \<Rightarrow> bool" where
  "fake_confirmed run ident \<longleftrightarrow> (case run of (lib, h, ended, objs) \<Rightarrow> checked_current lib h objs ident)"

interpretation fake: StatusPoller fake_reports fake_confirmed
proof
  fix run :: "'c status_lib \<times> 'c unstructured heap \<times> (ref list \<Rightarrow> go_error option) \<times> ref list" and ids es
  assume "fake_reports run ids es"
  moreover obtain lib h ended objs where run: "run = (lib, h, ended, objs)" by (rule prod_cases4)
  ultimately have ids: "ids = map (metadata_of h) objs" and loop: "fakeLoop lib h ended objs [] = Done es"
    by (simp_all add: fake_reports_def FakePoller_Start_def)
  note events = fakeLoop_events [OF loop]
  from events ids show "statuses_then_errors ids es" by simp
  from events show "fake_confirmed run (update_of e)" if "e \<in> set es" "succeeded e" for e
    using that by (simp add: fake_confirmed_def run)
qed

text \<open>A wait with this poller ends when every object it polls is current.\<close>

lemma wait_with_fake_poller:
  assumes "WaitTask_Run mapper start RunnerState_ops objs st v = (st', v', Some how)"
    and "FakePoller_Start lib (objHeap v) ended (pollerObjects RunnerState_ops st objs) = Done events"
    and "start (pollerObjects RunnerState_ops st objs) = (events, True)" and "\<And>os. ended os = None"
    and "\<And>obj. obj \<in> set objs \<Longrightarrow>
      statusCheck lib [] (objHeap v obj) = Done (Some (r obj), None) \<and> Status (r obj) = StatusCurrent"
  shows "how = AllReady"
proof -
  let ?polled = "pollerObjects RunnerState_ops st objs"
  have polled: "set ?polled \<subseteq> set objs" by (auto simp: pollerObjects_def)
  have "fakeLoop lib (objHeap v) ended ?polled [] =
      Done ([] @ map (\<lambda>obj. status_event (r obj) (objHeap v obj)) ?polled)"
    using polled assms(4,5) by (intro fakeLoop_reports) auto
  then have events: "events = map (\<lambda>obj. status_event (r obj) (objHeap v obj)) ?polled"
    using assms(2) by (simp add: FakePoller_Start_def)
  have "metadata_of (objHeap v) ` set ?polled \<subseteq> ready_ids events"
  proof (intro subsetI, elim imageE)
    fix ident obj
    assume "ident = metadata_of (objHeap v) obj" and "obj \<in> set ?polled"
    moreover from this(2) have "succeeded (status_event (r obj) (objHeap v obj))"
      using polled assms(5) by (auto simp: succeeded_def)
    ultimately show "ident \<in> ready_ids events"
      by (auto simp: events ready_ids_def metadata_of_def intro!: image_eqI [of _ _ "status_event (r obj) (objHeap v obj)"])
  qed
  then show ?thesis using WaitTask_Run_how [OF assms(1,3)] by simp
qed

end
