(* ===== verification/Client_Factory.thy ===== *)
theory Client_Factory
  imports Client_Cache
begin

text \<open>
  \<open>pkg/util/factory.go\<close>, \<open>pkg/testing/factory.go\<close> and \<open>pkg/flowcontrol/flowcontrol.go\<close>: the
  interface of the clients, its factories for the program and for its tests, which make them from
  the configuration they are given, and the probe for the flow control of the server. The client
  library is a parameter; what the program sets in a configuration is modelled, and the rest of
  it is a value \<open>'x\<close> the library reads.
\<close>

subsection \<open>Configurations\<close>

record 'x rest_config =
  cfgRest :: 'x
  cfgAPIPath :: string
  cfgUnstructured :: bool
  cfgGroupVersion :: "(string \<times> string) option"

text \<open>
  \<open>genericclioptions.RESTClientGetter\<close> of the library: \<open>getNamespace\<close> is
  \<open>ToRawKubeConfigLoader().Namespace()\<close>, the namespace and whether it was asked for explicitly.
\<close>

record ('x, 'd, 'w) client_getter =
  getDiscoveryClient :: "go_error + 'd"
  getRESTConfig :: "go_error + 'x rest_config"
  getRESTMapper :: "go_error + 'w rest_mapper"
  getNamespace :: "go_error + string \<times> bool"

record ('x, 'dyn, 'rest, 'set) client_lib =
  SetKubernetesDefaults :: "'x rest_config \<Rightarrow> go_error + 'x rest_config"
  newDynamicClient :: "'x rest_config \<Rightarrow> go_error + 'dyn"
  newRESTClient :: "'x rest_config \<Rightarrow> go_error + 'rest"
  newClientSet :: "'x rest_config \<Rightarrow> go_error + 'set"

subsection \<open>The interface of the factories\<close>

text \<open>The methods of the getter, and those the program adds; one of them may panic in the tests.\<close>

record ('x, 'd, 'w, 'dyn, 'rest, 'set) ClientFactory =
  ToDiscoveryClient :: "go_error + 'd"
  ToRESTConfig :: "go_error + 'x rest_config"
  ToRESTMapper :: "go_error + 'w rest_mapper"
  ToRawKubeConfigLoader :: "go_error + string \<times> bool"
  DynamicClient :: "go_error + 'dyn"
  UnstructuredClientForMapping :: "RESTMapping \<Rightarrow> go_error + 'rest"
  KubernetesClientSet :: "(go_error + 'set) exec"

subsection \<open>The factory of the program\<close>

text \<open>The methods that only delegate, and those that make a client of the configuration.\<close>

definition factory_ToDiscoveryClient :: "('x, 'd, 'w) client_getter \<Rightarrow> go_error + 'd" where
  "factory_ToDiscoveryClient delegate = getDiscoveryClient delegate"

definition factory_ToRESTConfig :: "('x, 'd, 'w) client_getter \<Rightarrow> go_error + 'x rest_config" where
  "factory_ToRESTConfig delegate = getRESTConfig delegate"

definition factory_ToRESTMapper :: "('x, 'd, 'w) client_getter \<Rightarrow> go_error + 'w rest_mapper" where
  "factory_ToRESTMapper delegate = getRESTMapper delegate"

definition factory_ToRawKubeConfigLoader :: "('x, 'd, 'w) client_getter \<Rightarrow> go_error + string \<times> bool" where
  "factory_ToRawKubeConfigLoader delegate = getNamespace delegate"

definition factory_DynamicClient ::
  "('x, 'dyn, 'rest, 'set) client_lib \<Rightarrow> ('x, 'd, 'w) client_getter \<Rightarrow> go_error + 'dyn" where
  "factory_DynamicClient lib delegate =
     (case factory_ToRESTConfig delegate of Inl err \<Rightarrow> Inl err | Inr clientConfig \<Rightarrow> newDynamicClient lib clientConfig)"

definition factory_KubernetesClientSet ::
  "('x, 'dyn, 'rest, 'set) client_lib \<Rightarrow> ('x, 'd, 'w) client_getter \<Rightarrow> go_error + 'set" where
  "factory_KubernetesClientSet lib delegate =
     (case factory_ToRESTConfig delegate of Inl err \<Rightarrow> Inl err | Inr clientConfig \<Rightarrow> newClientSet lib clientConfig)"

definition mappingConfig :: "RESTMapping \<Rightarrow> 'x rest_config \<Rightarrow> 'x rest_config" where
  "mappingConfig mapping cfg =
     (let gvk = mapGVK mapping in
      cfg \<lparr> cfgAPIPath := (if gvk_group gvk = '''' then ''/api'' else ''/apis''), cfgUnstructured := True,
        cfgGroupVersion := Some (gvk_group gvk, gvk_version gvk) \<rparr>)"

definition factory_UnstructuredClientForMapping ::
  "('x, 'dyn, 'rest, 'set) client_lib \<Rightarrow> ('x, 'd, 'w) client_getter \<Rightarrow> RESTMapping \<Rightarrow> go_error + 'rest" where
  "factory_UnstructuredClientForMapping lib delegate mapping =
     (case getRESTConfig delegate of
        Inl err \<Rightarrow> Inl err
      | Inr cfg \<Rightarrow>
          (case SetKubernetesDefaults lib cfg of
             Inl err \<Rightarrow> Inl err
           | Inr cfg' \<Rightarrow> newRESTClient lib (mappingConfig mapping cfg')))"

definition NewFactory ::
  "('x, 'dyn, 'rest, 'set) client_lib \<Rightarrow> ('x, 'd, 'w) client_getter \<Rightarrow> ('x, 'd, 'w, 'dyn, 'rest, 'set) ClientFactory" where
  "NewFactory lib clientGetter =
     \<lparr> ToDiscoveryClient = factory_ToDiscoveryClient clientGetter, ToRESTConfig = factory_ToRESTConfig clientGetter,
       ToRESTMapper = factory_ToRESTMapper clientGetter,
       ToRawKubeConfigLoader = factory_ToRawKubeConfigLoader clientGetter,
       DynamicClient = factory_DynamicClient lib clientGetter,
       UnstructuredClientForMapping = factory_UnstructuredClientForMapping lib clientGetter,
       KubernetesClientSet = Done (factory_KubernetesClientSet lib clientGetter) \<rparr>"

text \<open>
  The client for a kind depends on the configuration only through what the program does not
  set itself, and asks the server under the path of the group.
\<close>

lemma mappingConfig_overrides:
  assumes "cfgRest cfg = cfgRest cfg'"
  shows "mappingConfig mapping cfg = mappingConfig mapping (cfg' :: 'x rest_config)"
  using assms by (cases cfg, cases cfg') (simp add: mappingConfig_def Let_def)

subsection \<open>The factory of the tests\<close>

text \<open>
  \<open>pkg/testing/factory.go\<close>: a factory that embeds another one and overrides methods. The
  library makes the getter of the test flags, whose namespace it can set, and the fake clients;
  a REST client that is no fake one makes \<open>KubernetesClientSet\<close> panic, and so does an error of
  the library in it.
\<close>

record ('x, 'd, 'w, 'dyn, 'rest, 'set) TestClientFactory =
  tfClientFactory :: "('x, 'd, 'w, 'dyn, 'rest, 'set) ClientFactory"
  tfClientConfig :: "'x rest_config"
  tfClient :: 'rest
  tfUnstructuredClientForMappingFunc :: "(string \<times> string \<Rightarrow> go_error + 'rest) option"
  tfRESTMapper :: "'w rest_mapper option"
  tfFakeDynamicClient :: "'dyn option"

record ('rest, 'set) fake_lib =
  setFakeClient :: "'rest \<Rightarrow> 'set \<Rightarrow> 'set option"

definition NewTestClientFactory ::
  "('x, 'dyn, 'rest, 'set) client_lib \<Rightarrow> ('x, 'd, 'w) client_getter \<Rightarrow> 'rest \<Rightarrow> 'dyn \<Rightarrow>
     ('x, 'd, 'w, 'dyn, 'rest, 'set) TestClientFactory exec" where
  "NewTestClientFactory lib configFlags nilClient fakeDynamic =
     (case getRESTConfig configFlags of
        Inl err \<Rightarrow> Panic
      | Inr restConfig \<Rightarrow> Done \<lparr> tfClientFactory = NewFactory lib configFlags, tfClientConfig = restConfig,
          tfClient = nilClient, tfUnstructuredClientForMappingFunc = None, tfRESTMapper = None,
          tfFakeDynamicClient = Some fakeDynamic \<rparr>)"

definition test_ToRESTConfig :: "('x, 'd, 'w, 'dyn, 'rest, 'set) TestClientFactory \<Rightarrow> go_error + 'x rest_config" where
  "test_ToRESTConfig f = Inr (tfClientConfig f)"

definition test_ToRESTMapper :: "('x, 'd, 'w, 'dyn, 'rest, 'set) TestClientFactory \<Rightarrow> go_error + 'w rest_mapper" where
  "test_ToRESTMapper f = (case tfRESTMapper f of Some m \<Rightarrow> Inr m | None \<Rightarrow> ToRESTMapper (tfClientFactory f))"

definition test_DynamicClient :: "('x, 'd, 'w, 'dyn, 'rest, 'set) TestClientFactory \<Rightarrow> go_error + 'dyn" where
  "test_DynamicClient f = (case tfFakeDynamicClient f of Some c \<Rightarrow> Inr c | None \<Rightarrow> DynamicClient (tfClientFactory f))"

definition test_KubernetesClientSet ::
  "('x, 'dyn, 'rest, 'set) client_lib \<Rightarrow> ('rest, 'set) fake_lib \<Rightarrow> ('x, 'd, 'w, 'dyn, 'rest, 'set) TestClientFactory \<Rightarrow>
     (go_error + 'set) exec" where
  "test_KubernetesClientSet lib fake f =
     (case newClientSet lib (tfClientConfig f) of
        Inl err \<Rightarrow> Panic
      | Inr clientset \<Rightarrow>
          (case setFakeClient fake (tfClient f) clientset of None \<Rightarrow> Panic | Some set' \<Rightarrow> Done (Inr set')))"

definition test_UnstructuredClientForMapping ::
  "('x, 'd, 'w, 'dyn, 'rest, 'set) TestClientFactory \<Rightarrow> RESTMapping \<Rightarrow> go_error + 'rest" where
  "test_UnstructuredClientForMapping f mapping =
     (case tfUnstructuredClientForMappingFunc f of
        Some fn \<Rightarrow> fn (gvk_group (mapGVK mapping), gvk_version (mapGVK mapping))
      | None \<Rightarrow> Inr (tfClient f))"

text \<open>The methods of the interface: what is not overridden is that of the embedded factory.\<close>

definition as_factory ::
  "('x, 'dyn, 'rest, 'set) client_lib \<Rightarrow> ('rest, 'set) fake_lib \<Rightarrow> ('x, 'd, 'w, 'dyn, 'rest, 'set) TestClientFactory \<Rightarrow>
     ('x, 'd, 'w, 'dyn, 'rest, 'set) ClientFactory" where
  "as_factory lib fake f =
     \<lparr> ToDiscoveryClient = ToDiscoveryClient (tfClientFactory f), ToRESTConfig = test_ToRESTConfig f,
       ToRESTMapper = test_ToRESTMapper f, ToRawKubeConfigLoader = ToRawKubeConfigLoader (tfClientFactory f),
       DynamicClient = test_DynamicClient f, UnstructuredClientForMapping = test_UnstructuredClientForMapping f,
       KubernetesClientSet = test_KubernetesClientSet lib fake f \<rparr>"

text \<open>
  A new test factory whose embedded getter has a mapper gives every client that an applier
  needs, whatever the library does.
\<close>

lemma test_factory_clients:
  assumes "NewTestClientFactory lib configFlags nilClient fakeDynamic = Done f"
  shows "DynamicClient (as_factory lib fake f) = Inr fakeDynamic \<and>
    ToRESTMapper (as_factory lib fake f) = getRESTMapper configFlags \<and>
    UnstructuredClientForMapping (as_factory lib fake f) mapping = Inr nilClient"
  using assms by (auto simp: NewTestClientFactory_def as_factory_def test_DynamicClient_def test_ToRESTMapper_def
      test_UnstructuredClientForMapping_def NewFactory_def factory_ToRESTMapper_def split: sum.splits)

subsection \<open>Flow control\<close>

text \<open>
  The HTTP client: \<open>httpDo\<close> sends a \<open>HEAD\<close> request to a path of the server; the response is the
  \<open>Get\<close> of its header, with the result of closing the body if it has one.
\<close>

record 'x http_lib =
  HTTPClientFor :: "'x rest_config \<Rightarrow> go_error option"
  DefaultServerUrlFor :: "'x rest_config \<Rightarrow> go_error option"
  NewRequest :: "'x rest_config \<Rightarrow> string \<Rightarrow> go_error option"
  httpDo :: "'x rest_config \<Rightarrow> string \<Rightarrow> go_error + (string \<Rightarrow> string) \<times> go_error option option"

definition wellKnownPath :: string where
  "wellKnownPath = ''/livez/ping''"

definition flowSchemaHeader :: string where
  "flowSchemaHeader = ''X-Kubernetes-PF-FlowSchema-UID''"

definition IsEnabled :: "'x http_lib \<Rightarrow> 'x rest_config \<Rightarrow> go_error + bool" where
  "IsEnabled lib config =
     (case HTTPClientFor lib config of
        Some err \<Rightarrow> Inl (Errorf ''error while building the client: '' err)
      | None \<Rightarrow>
          (case DefaultServerUrlFor lib config of
             Some err \<Rightarrow> Inl (Errorf ''error while building the api-server URL: '' err)
           | None \<Rightarrow>
               (case NewRequest lib config wellKnownPath of
                  Some err \<Rightarrow> Inl (Errorf ''error building the request: '' err)
                | None \<Rightarrow>
                    (case httpDo lib config wellKnownPath of
                       Inl err \<Rightarrow> Inl (Errorf (''error making '' @ fmt_q wellKnownPath @ '' request: '') err)
                     | Inr (_, Some (Some err)) \<Rightarrow> Inl (Errorf ''error closing body: '' err)
                     | Inr (header, _) \<Rightarrow> Inr (header flowSchemaHeader \<noteq> [])))))"

text \<open>The answer is yes only if the server was asked and sent the header with a value.\<close>

lemma IsEnabled_yes:
  "IsEnabled lib config = Inr True \<longleftrightarrow> HTTPClientFor lib config = None \<and> DefaultServerUrlFor lib config = None \<and>
     NewRequest lib config wellKnownPath = None \<and>
     (\<exists>header body. httpDo lib config wellKnownPath = Inr (header, body) \<and> (\<forall>err. body \<noteq> Some (Some err)) \<and>
        header flowSchemaHeader \<noteq> [])"
  by (auto simp: IsEnabled_def split: option.splits sum.splits prod.splits)

end
