(* ===== verification/Applier_Builder.thy ===== *)
theory Applier_Builder
  imports Applier Poller_Informers Client_Factory
begin

text \<open>
  \<open>pkg/client/builder.go\<close>: the builder of appliers. Its setters replace a field; \<open>Build\<close>
  refuses a builder without factory, runner or inventory, and asks the factory for the clients.
\<close>

subsection \<open>The builder\<close>

text \<open>
  An interface that is not set is \<open>None\<close>. A store comes with its operations; a poller is what it
  answers with when it is started; a runner is the one of the program.
\<close>

record ('x, 'd, 'c, 's, 'w) Builder =
  bFactory :: "('x, 'd, 'w process, ('c, 'w process) dynamic_client, unit, unit) ClientFactory option"
  bRunner :: "unit option"
  bInventory :: "(('c, 's, 'w process) store_ops \<times> 's) option"
  bGenerators :: "('c, 'w process) generator_interface list"
  bMutators :: "('c, 'w process) mutator_interface list"
  bFilters :: "('c, 'w) filter_fn list"
  bPoller :: "('w process \<Rightarrow> ref list \<Rightarrow> Event list \<times> bool) option"
  bCustomResourceCheck :: "'c CustomStatusCheckers"

definition NewBuilder :: "('x, 'd, 'c, 's, 'w) Builder" where
  "NewBuilder = \<lparr> bFactory = None, bRunner = Some (), bInventory = None, bGenerators = [], bMutators = [],
     bFilters = [], bPoller = None, bCustomResourceCheck = [] \<rparr>"

definition WithFactory ::
  "('x, 'd, 'w process, ('c, 'w process) dynamic_client, unit, unit) ClientFactory \<Rightarrow>
     ('x, 'd, 'c, 's, 'w) Builder \<Rightarrow> ('x, 'd, 'c, 's, 'w) Builder" where
  "WithFactory factory b = b \<lparr> bFactory := Some factory \<rparr>"

definition WithInventory ::
  "('c, 's, 'w process) store_ops \<times> 's \<Rightarrow> ('x, 'd, 'c, 's, 'w) Builder \<Rightarrow> ('x, 'd, 'c, 's, 'w) Builder" where
  "WithInventory inventory b = b \<lparr> bInventory := Some inventory \<rparr>"

definition WithGenerators ::
  "('c, 'w process) generator_interface list \<Rightarrow> ('x, 'd, 'c, 's, 'w) Builder \<Rightarrow> ('x, 'd, 'c, 's, 'w) Builder" where
  "WithGenerators generators b = b \<lparr> bGenerators := generators \<rparr>"

definition WithMutator ::
  "('c, 'w process) mutator_interface list \<Rightarrow> ('x, 'd, 'c, 's, 'w) Builder \<Rightarrow> ('x, 'd, 'c, 's, 'w) Builder" where
  "WithMutator mutators b = b \<lparr> bMutators := mutators \<rparr>"

definition WithFilters ::
  "('c, 'w) filter_fn list \<Rightarrow> ('x, 'd, 'c, 's, 'w) Builder \<Rightarrow> ('x, 'd, 'c, 's, 'w) Builder" where
  "WithFilters filters b = b \<lparr> bFilters := filters \<rparr>"

definition WithStatusPoller ::
  "('w process \<Rightarrow> ref list \<Rightarrow> Event list \<times> bool) \<Rightarrow> ('x, 'd, 'c, 's, 'w) Builder \<Rightarrow> ('x, 'd, 'c, 's, 'w) Builder" where
  "WithStatusPoller poller b = b \<lparr> bPoller := Some poller \<rparr>"

definition WithCustomStatusChecker ::
  "'c CustomStatusCheckers \<Rightarrow> ('x, 'd, 'c, 's, 'w) Builder \<Rightarrow> ('x, 'd, 'c, 's, 'w) Builder" where
  "WithCustomStatusChecker customResourceCheck b = b \<lparr> bCustomResourceCheck := customResourceCheck \<rparr>"

text \<open>
  What the built applier calls of the libraries: the printers, the REST requests, and the runs of
  the poller of the program. The clients are those of the factory.
\<close>

record ('c, 'b, 'm, 'w) applier_lib =
  libPrinters :: printers
  libRest :: "('c, 'b, 'm, 'w) rest_lib"
  pollerRuns :: "(('c, 'w process) dynamic_client, 'w process rest_mapper, 'c) defaultStatusPoller \<Rightarrow>
    'w process \<Rightarrow> ref list \<Rightarrow> Event list \<times> bool"

definition client_failure :: "go_error + 'rest \<Rightarrow> go_error option" where
  "client_failure r = (case r of Inl err \<Rightarrow> Some err | Inr _ \<Rightarrow> None)"

definition Builder_Build ::
  "('c, 'b, 'm, 'w) applier_lib \<Rightarrow> ('x, 'd, 'c, 's, 'w) Builder \<Rightarrow> go_error + ('c, 'b, 'm, 's, 'w) Applier" where
  "Builder_Build lib b =
     (case bFactory b of
        None \<Rightarrow> Inl (ErrorNew ''cannot build an Applier client without a valid factory'')
      | Some factory \<Rightarrow>
     (case bRunner b of
        None \<Rightarrow> Inl (ErrorNew ''cannot build an Applier client without a valid runner'')
      | Some runner \<Rightarrow>
     (case bInventory b of
        None \<Rightarrow> Inl (ErrorNew ''cannot build an Applier client without a valid inventory'')
      | Some (store, inventory) \<Rightarrow>
     (case DynamicClient factory of
        Inl err \<Rightarrow> Inl (Errorf ''failed to retrieve a valid kubernetes client: '' err)
      | Inr client \<Rightarrow>
     (case ToRESTMapper factory of
        Inl err \<Rightarrow> Inl (Errorf ''failed to retrieve a valid RESTMapper: '' err)
      | Inr mapper \<Rightarrow>
     (case DefaultInfoFetcherBuilder (ToRESTMapper factory)
         (\<lambda>mapping. client_failure (UnstructuredClientForMapping factory mapping)) of
        Inl err \<Rightarrow> Inl (Errorf ''failed to retrieve a valid Info Fetcher: '' err)
      | Inr fetcher \<Rightarrow>
          (let statusPoller = (case bPoller b of
               Some poller \<Rightarrow> poller
             | None \<Rightarrow> pollerRuns lib (NewDefaultStatusPoller client mapper (bCustomResourceCheck b)))
           in Inr \<lparr> apRuntime = \<lparr> rtPrinters = libPrinters lib, rtRest = libRest lib, rtMapper = mapper,
                      rtClient = client, rtStore = store, rtPoller = statusPoller \<rparr>,
                    apInventory = inventory, apGenerators = bGenerators b, apMutators = bMutators b,
                    apFilters = bFilters b, apInfoFetcher = fetcher \<rparr>)))))))"

text \<open>
  A builder that got a factory and an inventory fails only where a client cannot be made, and
  what it builds works on the client and the mapper of the factory and keeps what was set.
\<close>

lemma Build_result:
  assumes "Builder_Build lib b = Inr a"
  shows "\<exists>factory store. bFactory b = Some factory \<and> bRunner b \<noteq> None \<and> bInventory b = Some (store, apInventory a) \<and>
    DynamicClient factory = Inr (rtClient (apRuntime a)) \<and>
    ToRESTMapper factory = Inr (rtMapper (apRuntime a)) \<and> rtStore (apRuntime a) = store \<and>
    apGenerators a = bGenerators b \<and> apMutators a = bMutators b \<and> apFilters a = bFilters b \<and>
    (\<forall>poller. bPoller b = Some poller \<longrightarrow> rtPoller (apRuntime a) = poller)"
  using assms by (auto simp: Builder_Build_def Let_def split: option.splits sum.splits)

lemma Build_total:
  assumes "bFactory b = Some factory" and "bRunner b \<noteq> None" and "bInventory b \<noteq> None"
    and "DynamicClient factory = Inr client" and "ToRESTMapper factory = Inr mapper"
  shows "\<exists>a. Builder_Build lib b = Inr a"
  using assms by (auto simp: Builder_Build_def DefaultInfoFetcherBuilder_def Let_def)

text \<open>With the factory of the tests and its mapper nothing is missing.\<close>

lemma Build_with_test_factory:
  assumes "NewTestClientFactory clients configFlags nilClient fakeDynamic = Done f"
    and "getRESTMapper configFlags = Inr mapper"
  shows "\<exists>a. Builder_Build lib (WithInventory inventory (WithFactory (as_factory clients fake f) NewBuilder)) = Inr a \<and>
    rtClient (apRuntime a) = fakeDynamic \<and> rtMapper (apRuntime a) = mapper"
proof -
  let ?b = "WithInventory inventory (WithFactory (as_factory clients fake f) NewBuilder)"
  note clients = test_factory_clients [OF assms(1), where fake = fake]
  have b: "bFactory ?b = Some (as_factory clients fake f)" "bRunner ?b \<noteq> None" "bInventory ?b \<noteq> None"
    by (simp_all add: WithInventory_def WithFactory_def NewBuilder_def)
  have made: "DynamicClient (as_factory clients fake f) = Inr fakeDynamic"
    "ToRESTMapper (as_factory clients fake f) = Inr mapper"
    using clients assms(2) by simp_all
  obtain a where a: "Builder_Build lib ?b = Inr a" using Build_total [OF b made] by blast
  from Build_result [OF this] b(1) made show ?thesis using a by auto
qed

text \<open>The third request of \<open>Build\<close> is the second one again and cannot fail behind it.\<close>

lemma Build_no_fetcher_error:
  "Builder_Build lib b \<noteq> Inl (Errorf ''failed to retrieve a valid Info Fetcher: '' err)"
  by (auto simp: Builder_Build_def DefaultInfoFetcherBuilder_def Let_def split: option.splits sum.splits)

end
