(* ===== verification/Poller_Multiplexer.thy ===== *)
theory Poller_Multiplexer
  imports Status_Types
begin

text \<open>
  \<open>pkg/poller/multiplexer.go\<close>: one channel that carries what several channels send. Every added
  channel has a goroutine that passes its elements on, and one more goroutine closes the
  common channel once the context is done and a counter of the others is zero. The goroutines
  and the calls of \<open>AddChannel\<close> interleave in any order, so that the multiplexer is a step
  relation. A send on a closed channel panics and ends the program.
\<close>

subsection \<open>The state\<close>

text \<open>
  The goroutine of one added channel: what it has received so far, the element it holds and has
  not sent yet, and whether it has ended.
\<close>

record 'e feed =
  received :: "'e list"
  held :: "'e option"
  finished :: bool

text \<open>
  \<open>muxAdding\<close> counts the calls of \<open>AddChannel\<close> that have found the context alive and have not
  increased the counter yet; \<open>muxSeen\<close> says that the closing goroutine has found the context
  done. An element of \<open>muxOut\<close> comes with the number of its feed, and \<open>muxLate\<close> records that
  a channel was added behind the closing; both are for the proofs only.
\<close>

record 'e mux =
  muxDone :: bool
  muxCounter :: int32
  muxAdding :: nat
  muxFeeds :: "'e feed list"
  muxOut :: "(nat \<times> 'e) list"
  muxSeen :: bool
  muxClosed :: bool
  muxLate :: bool
  muxPanic :: bool

definition newMultiplexer :: "'e mux" where
  "newMultiplexer = \<lparr> muxDone = False, muxCounter = 0, muxAdding = 0, muxFeeds = [], muxOut = [],
     muxSeen = False, muxClosed = False, muxLate = False, muxPanic = False \<rparr>"

definition newFeed :: "'e feed" where
  "newFeed = \<lparr> received = [], held = None, finished = False \<rparr>"

definition set_feed :: "nat \<Rightarrow> 'e feed \<Rightarrow> 'e mux \<Rightarrow> 'e mux" where
  "set_feed i f s = s \<lparr> muxFeeds := (muxFeeds s)[i := f] \<rparr>"

subsection \<open>The steps\<close>

text \<open>\<open>AddChannel\<close> is two steps: the look at the context, which may refuse, and the rest.\<close>

definition AddChannel_check :: "'e mux \<Rightarrow> go_error + 'e mux" where
  "AddChannel_check s =
     (if muxDone s then Inl (ErrorNew ''multiplexer is closed, we cannot add new channels'')
      else Inr (s \<lparr> muxAdding := muxAdding s + 1 \<rparr>))"

definition AddChannel_add :: "'e mux \<Rightarrow> 'e mux" where
  "AddChannel_add s = s \<lparr> muxAdding := muxAdding s - 1, muxCounter := muxCounter s + 1,
     muxFeeds := muxFeeds s @ [newFeed], muxLate := muxLate s \<or> muxClosed s \<rparr>"

inductive mux_step :: "'e mux \<Rightarrow> 'e mux \<Rightarrow> bool" where
  cancel: "\<not> muxPanic s \<Longrightarrow> mux_step s (s \<lparr> muxDone := True \<rparr>)"
| check: "\<not> muxPanic s \<Longrightarrow> AddChannel_check s = Inr s' \<Longrightarrow> mux_step s s'"
| add: "\<not> muxPanic s \<Longrightarrow> muxAdding s > 0 \<Longrightarrow> mux_step s (AddChannel_add s)"
| receive: "\<not> muxPanic s \<Longrightarrow> i < length (muxFeeds s) \<Longrightarrow> f = muxFeeds s ! i \<Longrightarrow> held f = None \<Longrightarrow>
    \<not> finished f \<Longrightarrow> mux_step s (set_feed i (f \<lparr> received := received f @ [e], held := Some e \<rparr>) s)"
| send: "\<not> muxPanic s \<Longrightarrow> i < length (muxFeeds s) \<Longrightarrow> f = muxFeeds s ! i \<Longrightarrow> held f = Some e \<Longrightarrow>
    \<not> muxClosed s \<Longrightarrow> mux_step s (set_feed i (f \<lparr> held := None \<rparr>) (s \<lparr> muxOut := muxOut s @ [(i, e)] \<rparr>))"
| send_closed: "\<not> muxPanic s \<Longrightarrow> i < length (muxFeeds s) \<Longrightarrow> held (muxFeeds s ! i) = Some e \<Longrightarrow>
    muxClosed s \<Longrightarrow> mux_step s (s \<lparr> muxPanic := True \<rparr>)"
| finish: "\<not> muxPanic s \<Longrightarrow> i < length (muxFeeds s) \<Longrightarrow> f = muxFeeds s ! i \<Longrightarrow> held f = None \<Longrightarrow>
    \<not> finished f \<Longrightarrow> mux_step s (set_feed i (f \<lparr> finished := True \<rparr>) (s \<lparr> muxCounter := muxCounter s - 1 \<rparr>))"
| see_done: "\<not> muxPanic s \<Longrightarrow> muxDone s \<Longrightarrow> mux_step s (s \<lparr> muxSeen := True \<rparr>)"
| close: "\<not> muxPanic s \<Longrightarrow> muxSeen s \<Longrightarrow> sint (muxCounter s) \<le> 0 \<Longrightarrow> \<not> muxClosed s \<Longrightarrow>
    mux_step s (s \<lparr> muxClosed := True \<rparr>)"

subsection \<open>Invariants\<close>

definition live :: "'e feed list \<Rightarrow> nat" where
  "live fs = length (filter (\<lambda>f. \<not> finished f) fs)"

text \<open>What reached the common channel from one feed.\<close>

definition sent_by :: "nat \<Rightarrow> (nat \<times> 'e) list \<Rightarrow> 'e list" where
  "sent_by i out = map snd (filter (\<lambda>p. fst p = i) out)"

definition feed_ok :: "'e feed \<Rightarrow> 'e list \<Rightarrow> bool" where
  "feed_ok f sent \<longleftrightarrow> received f = sent @ (case held f of None \<Rightarrow> [] | Some e \<Rightarrow> [e]) \<and>
     (finished f \<longrightarrow> held f = None)"

definition feeds_ok :: "'e mux \<Rightarrow> bool" where
  "feeds_ok s \<longleftrightarrow> (\<forall>i < length (muxFeeds s). feed_ok (muxFeeds s ! i) (sent_by i (muxOut s))) \<and>
     fst ` set (muxOut s) \<subseteq> {..<length (muxFeeds s)}"

definition closing_ok :: "'e mux \<Rightarrow> bool" where
  "closing_ok s \<longleftrightarrow> muxCounter s = of_nat (live (muxFeeds s)) \<and> (muxSeen s \<longrightarrow> muxDone s) \<and>
     (muxClosed s \<longrightarrow> muxSeen s) \<and>
     (\<not> muxLate s \<longrightarrow> length (muxFeeds s) < 2 ^ 31 \<longrightarrow>
        \<not> muxPanic s \<and> (muxClosed s \<longrightarrow> live (muxFeeds s) = 0))"

lemma live_append [simp]: "live (fs @ [f]) = live fs + (if finished f then 0 else 1)"
  by (simp add: live_def)

lemma live_update:
  assumes "i < length fs" and "\<not> finished (fs ! i)"
  shows "live fs = live (fs[i := f]) + (if finished f then 1 else 0)"
proof -
  have split: "fs = take i fs @ fs ! i # drop (Suc i) fs" using assms(1) by (rule id_take_nth_drop)
  have "live fs = live (take i fs) + 1 + live (drop (Suc i) fs)"
    unfolding live_def by (subst split) (use assms(2) in simp)
  moreover have "live (fs[i := f]) = live (take i fs) + (if finished f then 0 else 1) + live (drop (Suc i) fs)"
    unfolding live_def upd_conv_take_nth_drop [OF assms(1)] by simp
  ultimately show ?thesis by simp
qed

lemma live_0: "live fs = 0 \<longleftrightarrow> (\<forall>f \<in> set fs. finished f)"
  by (simp add: live_def filter_empty_conv)

lemma live_length: "live fs \<le> length fs"
  by (simp add: live_def)

text \<open>A counter below half of the range of \<open>int32\<close> is not taken for a negative one.\<close>

lemma counter_zero:
  assumes "n < 2 ^ 31" and "sint (of_nat n :: int32) \<le> 0"
  shows "n = 0"
proof -
  have "unat (of_nat n :: int32) = n"
    using assms(1) by (simp add: unat_of_nat)
  then have "sint (of_nat n :: int32) = signed_take_bit 31 (int n)"
    by (simp add: sint_uint uint_nat)
  also have "\<dots> = int n"
    using assms(1) by (intro signed_take_bit_int_eq_self) auto
  finally show ?thesis using assms(2) by simp
qed

lemma sent_by_simps [simp]:
  "sent_by i [] = []"
  "sent_by i (out @ [(j, e)]) = sent_by i out @ (if j = i then [e] else [])"
  by (simp_all add: sent_by_def)

lemma sent_by_none: "fst ` set out \<subseteq> {..<n} \<Longrightarrow> sent_by n out = []"
  by (force simp: sent_by_def filter_empty_conv)

lemma set_feed_simps [simp]:
  "muxFeeds (set_feed i f s) = (muxFeeds s)[i := f]" "muxOut (set_feed i f s) = muxOut s"
  "muxDone (set_feed i f s) = muxDone s" "muxCounter (set_feed i f s) = muxCounter s"
  "muxAdding (set_feed i f s) = muxAdding s" "muxSeen (set_feed i f s) = muxSeen s"
  "muxClosed (set_feed i f s) = muxClosed s" "muxLate (set_feed i f s) = muxLate s"
  "muxPanic (set_feed i f s) = muxPanic s"
  by (simp_all add: set_feed_def)

lemma AddChannel_check_Inr: "AddChannel_check s = Inr s' \<longleftrightarrow> \<not> muxDone s \<and> s' = s \<lparr> muxAdding := muxAdding s + 1 \<rparr>"
  by (auto simp: AddChannel_check_def)

lemma step_feeds_ok: "mux_step s s' \<Longrightarrow> feeds_ok s \<Longrightarrow> feeds_ok s'"
proof (induction rule: mux_step.induct)
  case (check s s')
  then show ?case by (simp add: AddChannel_check_Inr feeds_ok_def)
next
  case (add s)
  then show ?case
    by (auto simp: AddChannel_add_def feeds_ok_def nth_append feed_ok_def newFeed_def sent_by_none less_Suc_eq)
next
  case (receive s i f e)
  then have "feed_ok f (sent_by i (muxOut s))" by (auto simp: feeds_ok_def)
  then have "feed_ok (f \<lparr> received := received f @ [e], held := Some e \<rparr>) (sent_by i (muxOut s))"
    using receive by (simp add: feed_ok_def)
  with receive show ?case by (auto simp: feeds_ok_def nth_list_update)
next
  case (send s i f e)
  then have "feed_ok f (sent_by i (muxOut s))" by (auto simp: feeds_ok_def)
  then have "feed_ok (f \<lparr> held := None \<rparr>) (sent_by i (muxOut s) @ [e])"
    using send by (simp add: feed_ok_def)
  with send show ?case by (auto simp: feeds_ok_def nth_list_update)
next
  case (finish s i f)
  then have "feed_ok f (sent_by i (muxOut s))" by (auto simp: feeds_ok_def)
  then have "feed_ok (f \<lparr> finished := True \<rparr>) (sent_by i (muxOut s))"
    using finish by (simp add: feed_ok_def)
  with finish show ?case by (auto simp: feeds_ok_def nth_list_update)
qed (auto simp: feeds_ok_def)

lemma finished_not_held: "feeds_ok s \<Longrightarrow> i < length (muxFeeds s) \<Longrightarrow> held (muxFeeds s ! i) = Some e \<Longrightarrow>
    live (muxFeeds s) \<noteq> 0"
  by (metis feeds_ok_def feed_ok_def live_0 nth_mem option.distinct(1))

lemma step_closing_ok: "mux_step s s' \<Longrightarrow> feeds_ok s \<Longrightarrow> closing_ok s \<Longrightarrow> closing_ok s'"
proof (induction rule: mux_step.induct)
  case (check s s')
  then show ?case by (auto simp: AddChannel_check_Inr closing_ok_def)
next
  case (add s)
  then show ?case by (auto simp: AddChannel_add_def closing_ok_def newFeed_def)
next
  case (receive s i f e)
  then show ?case
    using live_update [of i "muxFeeds s" "f \<lparr> received := received f @ [e], held := Some e \<rparr>"]
    by (auto simp: closing_ok_def)
next
  case (send s i f e)
  then have "\<not> finished f" by (auto simp: feeds_ok_def feed_ok_def)
  with send show ?case
    using live_update [of i "muxFeeds s" "f \<lparr> held := None \<rparr>"] by (auto simp: closing_ok_def)
next
  case (send_closed s i e)
  then show ?case using finished_not_held by (fastforce simp: closing_ok_def)
next
  case (finish s i f)
  then show ?case
    using live_update [of i "muxFeeds s" "f \<lparr> finished := True \<rparr>"]
    by (auto simp: closing_ok_def)
next
  case (close s)
  have "length (muxFeeds s) < 2 ^ 31 \<Longrightarrow> live (muxFeeds s) = 0"
    using close live_length [of "muxFeeds s"] counter_zero [of "live (muxFeeds s)"]
    by (simp add: closing_ok_def)
  with close show ?case by (auto simp: closing_ok_def)
qed (auto simp: closing_ok_def)

lemma mux_reachable:
  assumes "mux_step\<^sup>*\<^sup>* newMultiplexer s"
  shows "feeds_ok s \<and> closing_ok s"
  using assms
proof (induction rule: rtranclp_induct)
  case base
  show ?case by (simp add: newMultiplexer_def feeds_ok_def closing_ok_def live_def)
next
  case (step s s')
  then show ?case by (blast intro: step_feeds_ok step_closing_ok)
qed

text \<open>Once the context is done and every goroutine has ended, two steps close the channel.\<close>

lemma mux_closes:
  assumes "closing_ok s" and "\<not> muxPanic s" and "muxDone s" and "\<forall>f \<in> set (muxFeeds s). finished f"
  shows "\<exists>s'. mux_step\<^sup>*\<^sup>* s s' \<and> muxClosed s' \<and> muxOut s' = muxOut s"
proof (cases "muxClosed s")
  case False
  let ?seen = "s \<lparr> muxSeen := True \<rparr>"
  have "mux_step s ?seen" by (rule see_done [OF assms(2,3)])
  moreover have "muxCounter s = 0" using assms(1,4) by (simp add: closing_ok_def live_0 [symmetric])
  then have "mux_step ?seen (?seen \<lparr> muxClosed := True \<rparr>)"
    using assms(2) False by (intro close) simp_all
  ultimately have "mux_step\<^sup>*\<^sup>* s (?seen \<lparr> muxClosed := True \<rparr>)" by (meson converse_rtranclp_into_rtranclp r_into_rtranclp)
  then show ?thesis by (intro exI [of _ "?seen \<lparr> muxClosed := True \<rparr>"]) simp
qed blast

text \<open>
  C25: The multiplexer of the poller, as long as no call of \<open>AddChannel\<close> is overtaken by the
  closing of the common channel and fewer than two to the 31 channels were added: nothing
  panics, what one channel sends arrives in its order and complete up to the element that is on
  its way, the common channel closes only behind the last element of every channel, and it can
  be closed as soon as the context is done and every channel has ended.
\<close>

theorem multiplexer_delivers:
  assumes "mux_step\<^sup>*\<^sup>* newMultiplexer s" and "\<not> muxLate s" and "length (muxFeeds s) < 2 ^ 31"
  shows "\<not> muxPanic s \<and>
    (\<forall>i < length (muxFeeds s). received (muxFeeds s ! i) =
       sent_by i (muxOut s) @ (case held (muxFeeds s ! i) of None \<Rightarrow> [] | Some e \<Rightarrow> [e])) \<and>
    (muxClosed s \<longrightarrow> (\<forall>i < length (muxFeeds s). finished (muxFeeds s ! i) \<and>
       sent_by i (muxOut s) = received (muxFeeds s ! i))) \<and>
    (muxDone s \<and> (\<forall>f \<in> set (muxFeeds s). finished f) \<longrightarrow>
       (\<exists>s'. mux_step\<^sup>*\<^sup>* s s' \<and> muxClosed s' \<and> muxOut s' = muxOut s))"
proof (intro conjI allI impI)
  have feeds: "feeds_ok s" and closing: "closing_ok s" using mux_reachable [OF assms(1)] by simp_all
  show panic: "\<not> muxPanic s" using closing assms(2,3) by (simp add: closing_ok_def)
  show carried: "received (muxFeeds s ! i) =
      sent_by i (muxOut s) @ (case held (muxFeeds s ! i) of None \<Rightarrow> [] | Some e \<Rightarrow> [e])"
    if "i < length (muxFeeds s)" for i
    using feeds that by (simp add: feeds_ok_def feed_ok_def)
  show ended: "finished (muxFeeds s ! i)" if "muxClosed s" "i < length (muxFeeds s)" for i
    using closing assms(2,3) that by (simp add: closing_ok_def live_0)
  show "sent_by i (muxOut s) = received (muxFeeds s ! i)" if "muxClosed s" "i < length (muxFeeds s)" for i
    using carried [OF that(2)] ended [OF that] feeds that(2) by (simp add: feeds_ok_def feed_ok_def)
  show "\<exists>s'. mux_step\<^sup>*\<^sup>* s s' \<and> muxClosed s' \<and> muxOut s' = muxOut s"
    if "muxDone s \<and> (\<forall>f \<in> set (muxFeeds s). finished f)"
    using mux_closes [OF closing panic] that by blast
qed

text \<open>A run that adds one channel, passes an element on, and closes.\<close>

definition example_mux :: "nat mux" where
  "example_mux = \<lparr> muxDone = True, muxCounter = 0, muxAdding = 0,
     muxFeeds = [\<lparr> received = [7], held = None, finished = True \<rparr>], muxOut = [(0, 7)],
     muxSeen = True, muxClosed = True, muxLate = False, muxPanic = False \<rparr>"

lemma example_mux_reachable: "mux_step\<^sup>*\<^sup>* newMultiplexer example_mux"
proof -
  let ?s = "\<lambda>d c a fs out seen closed. \<lparr> muxDone = d, muxCounter = c, muxAdding = a, muxFeeds = fs, muxOut = out,
    muxSeen = seen, muxClosed = closed, muxLate = False, muxPanic = False \<rparr> :: nat mux"
  let ?f = "\<lambda>es h fin. \<lparr> received = es, held = h, finished = fin \<rparr> :: nat feed"
  note defs = AddChannel_check_def AddChannel_add_def newFeed_def newMultiplexer_def set_feed_def
  have "mux_step\<^sup>*\<^sup>* newMultiplexer (?s False 0 1 [] [] False False)"
    by (rule r_into_rtranclp, use check [of "newMultiplexer :: nat mux"] in \<open>simp add: defs\<close>)
  also have "mux_step\<^sup>*\<^sup>* \<dots> (?s False 1 0 [?f [] None False] [] False False)"
    by (rule r_into_rtranclp, use add [of "?s False 0 1 [] [] False False"] in \<open>simp add: defs\<close>)
  also have "mux_step\<^sup>*\<^sup>* \<dots> (?s False 1 0 [?f [7] (Some 7) False] [] False False)"
    by (rule r_into_rtranclp, use receive [of "?s False 1 0 [?f [] None False] [] False False" 0 _ 7] in \<open>simp add: defs\<close>)
  also have "mux_step\<^sup>*\<^sup>* \<dots> (?s False 1 0 [?f [7] None False] [(0, 7)] False False)"
    by (rule r_into_rtranclp, use send [of "?s False 1 0 [?f [7] (Some 7) False] [] False False" 0 _ 7] in \<open>simp add: defs\<close>)
  also have "mux_step\<^sup>*\<^sup>* \<dots> (?s False 0 0 [?f [7] None True] [(0, 7)] False False)"
    by (rule r_into_rtranclp, use finish [of "?s False 1 0 [?f [7] None False] [(0, 7)] False False" 0] in \<open>simp add: defs\<close>)
  also have "mux_step\<^sup>*\<^sup>* \<dots> (?s True 0 0 [?f [7] None True] [(0, 7)] False False)"
    by (rule r_into_rtranclp, use cancel [of "?s False 0 0 [?f [7] None True] [(0, 7)] False False"] in simp)
  also have "mux_step\<^sup>*\<^sup>* \<dots> (?s True 0 0 [?f [7] None True] [(0, 7)] True False)"
    by (rule r_into_rtranclp, use see_done [of "?s True 0 0 [?f [7] None True] [(0, 7)] False False"] in simp)
  also have "mux_step\<^sup>*\<^sup>* \<dots> example_mux"
    by (rule r_into_rtranclp, use close [of "?s True 0 0 [?f [7] None True] [(0, 7)] True False"] in \<open>simp add: example_mux_def\<close>)
  finally show ?thesis by simp
qed

theorem multiplexer_delivers_witness: "sent_by 0 (muxOut example_mux) = received (muxFeeds example_mux ! 0)"
proof -
  have few: "\<not> muxLate example_mux" "length (muxFeeds example_mux) < 2 ^ 31"
    and closed: "muxClosed example_mux" "0 < length (muxFeeds example_mux)"
    by (simp_all add: example_mux_def)
  show ?thesis
    using multiplexer_delivers [OF example_mux_reachable few, THEN conjunct2, THEN conjunct2, THEN conjunct1] closed
    by blast
qed

text \<open>
  C26: The race: a call of \<open>AddChannel\<close> that found the context alive is overtaken by the end of
  the context and by the closing of the common channel; the first element its goroutine passes
  on is then a send on a closed channel, and the program panics.
\<close>

theorem multiplexer_race:
  "\<exists>s :: nat mux. mux_step\<^sup>*\<^sup>* newMultiplexer s \<and> muxPanic s \<and> length (muxFeeds s) = 1"
proof -
  let ?s = "\<lambda>d c a fs seen closed late panic. \<lparr> muxDone = d, muxCounter = c, muxAdding = a, muxFeeds = fs, muxOut = [],
    muxSeen = seen, muxClosed = closed, muxLate = late, muxPanic = panic \<rparr> :: nat mux"
  let ?f = "\<lambda>es h. \<lparr> received = es, held = h, finished = False \<rparr> :: nat feed"
  note defs = AddChannel_check_def AddChannel_add_def newFeed_def newMultiplexer_def set_feed_def
  have "mux_step\<^sup>*\<^sup>* newMultiplexer (?s False 0 1 [] False False False False)"
    by (rule r_into_rtranclp, use check [of "newMultiplexer :: nat mux"] in \<open>simp add: defs\<close>)
  also have "mux_step\<^sup>*\<^sup>* \<dots> (?s True 0 1 [] False False False False)"
    by (rule r_into_rtranclp, use cancel [of "?s False 0 1 [] False False False False"] in simp)
  also have "mux_step\<^sup>*\<^sup>* \<dots> (?s True 0 1 [] True False False False)"
    by (rule r_into_rtranclp, use see_done [of "?s True 0 1 [] False False False False"] in simp)
  also have "mux_step\<^sup>*\<^sup>* \<dots> (?s True 0 1 [] True True False False)"
    by (rule r_into_rtranclp, use close [of "?s True 0 1 [] True False False False"] in simp)
  also have "mux_step\<^sup>*\<^sup>* \<dots> (?s True 1 0 [?f [] None] True True True False)"
    by (rule r_into_rtranclp, use add [of "?s True 0 1 [] True True False False"] in \<open>simp add: defs\<close>)
  also have "mux_step\<^sup>*\<^sup>* \<dots> (?s True 1 0 [?f [7] (Some 7)] True True True False)"
    by (rule r_into_rtranclp, use receive [of "?s True 1 0 [?f [] None] True True True False" 0 _ 7] in \<open>simp add: defs\<close>)
  also have "mux_step\<^sup>*\<^sup>* \<dots> (?s True 1 0 [?f [7] (Some 7)] True True True True)"
    by (rule r_into_rtranclp, use send_closed [of "?s True 1 0 [?f [7] (Some 7)] True True True False" 0 7] in simp)
  finally show ?thesis by (intro exI [of _ "?s True 1 0 [?f [7] (Some 7)] True True True True"]) simp
qed

end
