(* ===== verification/Informer_Lifecycle.thy ===== *)
theory Informer_Lifecycle
  imports Main
begin

text \<open>
  \<open>Run\<close> and \<open>Stop\<close> of \<open>pkg/poller/informer.go\<close>: one informer, its lock and its context. \<open>Run\<close>
  holds the lock while the shared informer of the library runs, which is until the context ends.
\<close>

record lifecycle =
  lcLocked :: bool
  lcStarted :: bool
  lcCancelled :: bool
  lcRunning :: bool

definition new_lifecycle :: lifecycle where
  "new_lifecycle = \<lparr> lcLocked = False, lcStarted = False, lcCancelled = False, lcRunning = False \<rparr>"

text \<open>The parent context ends, \<open>Run\<close> gets the lock, the shared informer returns, \<open>Stop\<close> gets the lock.\<close>

datatype lifecycle_act = ParentEnds | RunLocks | RunReturns | StopLocks

inductive lifecycle_step :: "lifecycle_act \<Rightarrow> lifecycle \<Rightarrow> lifecycle \<Rightarrow> bool" where
  parent_ends: "lifecycle_step ParentEnds s (s \<lparr> lcCancelled := True \<rparr>)"
| run: "\<not> lcLocked s \<Longrightarrow> \<not> lcStarted s \<Longrightarrow>
    lifecycle_step RunLocks s (s \<lparr> lcLocked := True, lcRunning := True \<rparr>)"
| run_again: "\<not> lcLocked s \<Longrightarrow> lcStarted s \<Longrightarrow> lifecycle_step RunLocks s s"
| run_returns: "lcRunning s \<Longrightarrow> lcCancelled s \<Longrightarrow>
    lifecycle_step RunReturns s (s \<lparr> lcRunning := False, lcStarted := True, lcLocked := False \<rparr>)"
| stop: "\<not> lcLocked s \<Longrightarrow> lifecycle_step StopLocks s (s \<lparr> lcCancelled := True \<rparr>)"

inductive_simps StopLocks_iff: "lifecycle_step StopLocks s s'"

inductive lifecycle_run :: "lifecycle_act list \<Rightarrow> lifecycle \<Rightarrow> bool" where
  fresh: "lifecycle_run [] new_lifecycle"
| act: "lifecycle_run as s \<Longrightarrow> lifecycle_step a s s' \<Longrightarrow> lifecycle_run (as @ [a]) s'"

lemma locked_while_running: "lifecycle_run as s \<Longrightarrow> lcRunning s = lcLocked s"
proof (induction rule: lifecycle_run.induct)
  case fresh
  show ?case by (simp add: new_lifecycle_def)
next
  case (act as s a s')
  then show ?case by (auto elim: lifecycle_step.cases)
qed

text \<open>
  \<open>Stop\<close> never stops an informer that runs: it waits for the lock that \<open>Run\<close> gives back only
  when the parent context has ended.
\<close>

theorem stop_waits_for_run:
  "lifecycle_run as s \<Longrightarrow> lcRunning s \<Longrightarrow> \<not> lifecycle_step StopLocks s s'"
  by (simp add: StopLocks_iff locked_while_running)

text \<open>The shared informer runs at most once.\<close>

lemma started_not_running: "lifecycle_run as s \<Longrightarrow> lcStarted s \<Longrightarrow> \<not> lcRunning s"
proof (induction rule: lifecycle_run.induct)
  case (act as s a s')
  with locked_while_running [OF act.hyps(1)] show ?case by (auto elim!: lifecycle_step.cases)
qed (simp add: new_lifecycle_def)

end
