(* ===== verification/Resource_Reader.thy ===== *)
theory Resource_Reader
  imports Client_Factory
begin

text \<open>
  \<open>pkg/resourcereader\<close>: the readers of manifests. They take the objects from a package of files
  or from a stream, and give every namespaced object the namespace of the configuration. The
  parsing belongs to the library and is a parameter; the objects it makes are new.
\<close>

subsection \<open>Namespaces\<close>

definition rootScopeError :: "(GroupVersionKind \<Rightarrow> string) \<Rightarrow> 'c unstructured \<Rightarrow> go_error" where
  "rootScopeError gvkText obj = ErrorNew (''resource '' @ fmt_q (gvkText (objGVK obj)) @
     '' has cluster scope but has namespace set to '' @ fmt_q (objNamespace obj))"

fun setNamespaceLoop ::
  "(GroupVersionKind \<Rightarrow> string) \<Rightarrow> 'c converter \<Rightarrow> RESTMapper \<Rightarrow> ref list \<Rightarrow> string \<Rightarrow> bool \<Rightarrow> ref list \<Rightarrow>
     'c unstructured heap \<Rightarrow> go_error option \<times> 'c unstructured heap" where
  "setNamespaceLoop gvkText lib mapper crds namespace enforce [] h = (None, h)"
| "setNamespaceLoop gvkText lib mapper crds namespace enforce (res # objs) h =
     (case Scope lib h (h res) mapper crds of
        Inl err \<Rightarrow> (Some err, h)
      | Inr scope \<Rightarrow>
          (let objNs = objNamespace (h res) in
           case scope of
             RESTScopeNamespace \<Rightarrow>
               (if enforce \<and> objNs \<noteq> [] \<and> objNs \<noteq> namespace
                then (Some (EnforcedNamespaceError namespace objNs (objGVK (h res))), h)
                else setNamespaceLoop gvkText lib mapper crds namespace enforce objs
                  (if objNs = [] then h(res := h res \<lparr> objNamespace := namespace \<rparr>) else h))
           | RESTScopeRoot \<Rightarrow>
               (if objNs \<noteq> [] then (Some (rootScopeError gvkText (h res)), h)
                else setNamespaceLoop gvkText lib mapper crds namespace enforce objs h)))"

definition setNamespace ::
  "(GroupVersionKind \<Rightarrow> string) \<Rightarrow> 'c converter \<Rightarrow> RESTMapper \<Rightarrow> ref list \<Rightarrow> string \<Rightarrow> bool \<Rightarrow>
     'c unstructured heap \<Rightarrow> go_error option \<times> 'c unstructured heap" where
  "setNamespace gvkText lib mapper objs namespace enforce h =
     (if (\<not> enforce \<and> length namespace = 0) \<or> length objs = 0 then (None, h)
      else setNamespaceLoop gvkText lib mapper (FindCRDs h objs) namespace enforce objs h)"

subsection \<open>Readers\<close>

text \<open>
  The pipeline of the library: reading a source and filtering the nodes, the encoding of a node
  and its decoding as an object. A failing writer fails the pipeline with its error wrapped.
\<close>

record ('src, 'node, 'c) kio_lib =
  readNodes :: "'src \<Rightarrow> go_error + 'node list"
  MarshalJSON :: "'node \<Rightarrow> go_error + string"
  Unmarshal :: "string \<Rightarrow> go_error + 'c unstructured"
  writerFailed :: "go_error \<Rightarrow> go_error"

fun writeNodes :: "('src, 'node, 'c) kio_lib \<Rightarrow> 'node list \<Rightarrow> 'c unstructured list \<Rightarrow> go_error + 'c unstructured list" where
  "writeNodes lib [] objs = Inr objs"
| "writeNodes lib (node # nodes) objs =
     (case MarshalJSON lib node of
        Inl err \<Rightarrow> Inl err
      | Inr data \<Rightarrow>
          (case Unmarshal lib data of
             Inl err \<Rightarrow> Inl err
           | Inr obj \<Rightarrow> writeNodes lib nodes (objs @ [obj])))"

definition objectsFromReader :: "('src, 'node, 'c) kio_lib \<Rightarrow> 'src \<Rightarrow> go_error + 'c unstructured list" where
  "objectsFromReader lib reader =
     (case readNodes lib reader of
        Inl err \<Rightarrow> Inl err
      | Inr nodes \<Rightarrow>
          (case writeNodes lib nodes [] of Inl err \<Rightarrow> Inl (writerFailed lib err) | Inr objs \<Rightarrow> Inr objs))"

record ReaderConfigs =
  Mapper :: RESTMapper
  ReaderNamespace :: string
  EnforceNamespace :: bool

text \<open>The two readers; a source is a path or a stream.\<close>

datatype 'stream source = Path string | Stream 'stream

datatype 'stream Reader =
    FilepathReader ReaderConfigs string
  | StreamReader ReaderConfigs 'stream

text \<open>New objects at the addresses from \<open>n\<close> on.\<close>

definition place :: "'c unstructured list \<Rightarrow> ref \<Rightarrow> 'c unstructured heap \<Rightarrow> 'c unstructured heap" where
  "place objs n h = (\<lambda>r. if n \<le> r \<and> r < n + length objs then objs ! (r - n) else h r)"

text \<open>
  What the two readers do alike: the objects of a source are made, and their namespaces set;
  \<open>failed\<close> is the text in front of the error of the pipeline.
\<close>

definition readObjects ::
  "(GroupVersionKind \<Rightarrow> string) \<Rightarrow> 'c converter \<Rightarrow> ('src, 'node, 'c) kio_lib \<Rightarrow> string \<Rightarrow> ReaderConfigs \<Rightarrow> 'src \<Rightarrow>
     'c unstructured heap \<Rightarrow> ref \<Rightarrow> (ref list \<times> go_error option) \<times> 'c unstructured heap \<times> ref" where
  "readObjects gvkText lib kio failed cfg reader h n =
     (case objectsFromReader kio reader of
        Inl err \<Rightarrow> (([], Some (Errorf failed err)), h, n)
      | Inr objs \<Rightarrow>
          (let refs = [n..<n + length objs];
               (err, h') = setNamespace gvkText lib (Mapper cfg) refs (ReaderNamespace cfg) (EnforceNamespace cfg)
                 (place objs n h)
           in ((refs, err), h', n + length objs)))"

definition FilepathReader_Read ::
  "(GroupVersionKind \<Rightarrow> string) \<Rightarrow> 'c converter \<Rightarrow> ('stream source, 'node, 'c) kio_lib \<Rightarrow> ReaderConfigs \<Rightarrow> string \<Rightarrow>
     'c unstructured heap \<Rightarrow> ref \<Rightarrow> (ref list \<times> go_error option) \<times> 'c unstructured heap \<times> ref" where
  "FilepathReader_Read gvkText lib kio cfg path h n =
     readObjects gvkText lib kio (''fail to read from path '' @ fmt_q path @ '': '') cfg (Path path) h n"

definition StreamReader_Read ::
  "(GroupVersionKind \<Rightarrow> string) \<Rightarrow> 'c converter \<Rightarrow> ('stream source, 'node, 'c) kio_lib \<Rightarrow> ReaderConfigs \<Rightarrow> 'stream \<Rightarrow>
     'c unstructured heap \<Rightarrow> ref \<Rightarrow> (ref list \<times> go_error option) \<times> 'c unstructured heap \<times> ref" where
  "StreamReader_Read gvkText lib kio cfg stream h n =
     readObjects gvkText lib kio ''fail to read from stream: '' cfg (Stream stream) h n"

fun Read ::
  "(GroupVersionKind \<Rightarrow> string) \<Rightarrow> 'c converter \<Rightarrow> ('stream source, 'node, 'c) kio_lib \<Rightarrow> 'stream Reader \<Rightarrow>
     'c unstructured heap \<Rightarrow> ref \<Rightarrow> (ref list \<times> go_error option) \<times> 'c unstructured heap \<times> ref" where
  "Read gvkText lib kio (FilepathReader cfg path) h n = FilepathReader_Read gvkText lib kio cfg path h n"
| "Read gvkText lib kio (StreamReader cfg stream) h n = StreamReader_Read gvkText lib kio cfg stream h n"

definition StdinPath :: string where
  "StdinPath = ''-''"

text \<open>
  \<open>w\<close> is the state of the remote side at the time of the call, from which the mapper answers.
\<close>

definition ResourceReader ::
  "('x, 'd, 'w, 'dyn, 'rest, 'set) ClientFactory \<Rightarrow> 'w \<Rightarrow> 'stream \<Rightarrow> string \<Rightarrow> go_error + 'stream Reader" where
  "ResourceReader factory w reader path =
     (case ToRawKubeConfigLoader factory of
        Inl err \<Rightarrow> Inl (Errorf ''error while reading kubernetes config: '' err)
      | Inr (namespace, enforceNamespace) \<Rightarrow>
          (case ToRESTMapper factory of
             Inl err \<Rightarrow> Inl (Errorf ''error while retrieving mapper: '' err)
           | Inr mapper \<Rightarrow>
               (let readerConfig = \<lparr> Mapper = map_kind mapper w, ReaderNamespace = namespace,
                      EnforceNamespace = enforceNamespace \<rparr>
                in Inr (if path = StdinPath then StreamReader readerConfig reader
                        else FilepathReader readerConfig path))))"

subsection \<open>What happens to the namespaces\<close>

text \<open>
  The error that an object is refused with, and the namespace that an accepted one ends in.
  The definitions of custom resources decide scopes by their specification, so that changing
  their namespace changes no conversion.
\<close>

definition namespace_error ::
  "(GroupVersionKind \<Rightarrow> string) \<Rightarrow> (go_error + RESTScope) \<Rightarrow> string \<Rightarrow> bool \<Rightarrow> 'c unstructured \<Rightarrow> go_error option" where
  "namespace_error gvkText scope namespace enforce obj =
     (case scope of
        Inl err \<Rightarrow> Some err
      | Inr RESTScopeNamespace \<Rightarrow>
          (if enforce \<and> objNamespace obj \<notin> {[], namespace}
           then Some (EnforcedNamespaceError namespace (objNamespace obj) (objGVK obj)) else None)
      | Inr RESTScopeRoot \<Rightarrow> (if objNamespace obj \<noteq> [] then Some (rootScopeError gvkText obj) else None))"

definition namespaced :: "(go_error + RESTScope) \<Rightarrow> string \<Rightarrow> 'c unstructured \<Rightarrow> 'c unstructured" where
  "namespaced scope namespace obj =
     (if scope = Inr RESTScopeNamespace \<and> objNamespace obj = [] then obj \<lparr> objNamespace := namespace \<rparr> else obj)"

definition spec_only :: "'c converter \<Rightarrow> bool" where
  "spec_only lib \<longleftrightarrow> (\<forall>obj ns. toCRD lib (obj \<lparr> objNamespace := ns \<rparr>) = toCRD lib obj)"

fun first_error :: "('a \<Rightarrow> 'e option) \<Rightarrow> 'a list \<Rightarrow> 'e option" where
  "first_error f [] = None"
| "first_error f (x # xs) = (case f x of None \<Rightarrow> first_error f xs | Some e \<Rightarrow> Some e)"

lemma scopeFromCRDs_cong:
  "(\<And>r. r \<in> set crds \<Longrightarrow> toCRD lib (h r) = toCRD lib (h' r)) \<Longrightarrow>
    scopeFromCRDs lib h gvk crds = scopeFromCRDs lib h' gvk crds"
  by (induction crds) (auto split: sum.splits option.splits)

lemma Scope_cong:
  assumes "objGVK obj = objGVK obj'" and "\<And>r. r \<in> set crds \<Longrightarrow> toCRD lib (h r) = toCRD lib (h' r)"
  shows "Scope lib h obj mapper crds = Scope lib h' obj' mapper crds"
proof -
  have "scopeFromCRDs lib h gvk crds = scopeFromCRDs lib h' gvk crds" for gvk
    by (rule scopeFromCRDs_cong [OF assms(2)])
  then show ?thesis unfolding Scope_def assms(1) by (simp add: Let_def split: sum.split)
qed

text \<open>The heap after the objects of \<open>D\<close> were handled.\<close>

definition with_namespaces ::
  "(ref \<Rightarrow> go_error + RESTScope) \<Rightarrow> string \<Rightarrow> ref set \<Rightarrow> 'c unstructured heap \<Rightarrow> 'c unstructured heap" where
  "with_namespaces scope namespace D h = (\<lambda>r. if r \<in> D then namespaced (scope r) namespace (h r) else h r)"

lemma namespaced_GVK [simp]: "objGVK (namespaced scope namespace obj) = objGVK obj"
  by (simp add: namespaced_def)

lemma with_namespaces_Scope:
  assumes "spec_only lib"
  shows "Scope lib (with_namespaces scope namespace D h) (with_namespaces scope namespace D h r) mapper crds =
    Scope lib h (h r) mapper crds"
proof (rule Scope_cong)
  show "toCRD lib (with_namespaces scope namespace D h r') = toCRD lib (h r')" for r'
    using assms by (auto simp: spec_only_def with_namespaces_def namespaced_def)
qed (simp add: with_namespaces_def)

lemma setNamespaceLoop_result:
  fixes h :: "'c unstructured heap"
  assumes "spec_only lib" and "scope = (\<lambda>r. Scope lib h (h r) mapper crds)"
    and "err = (\<lambda>r. namespace_error gvkText (scope r) namespace enforce (h r))"
    and "\<forall>r \<in> D. err r = None"
  shows "setNamespaceLoop gvkText lib mapper crds namespace enforce objs (with_namespaces scope namespace D h) =
    (first_error err objs,
     with_namespaces scope namespace (D \<union> set (takeWhile (\<lambda>r. err r = None) objs)) h)"
  using assms(4)
proof (induction objs arbitrary: D)
  case Nil
  then show ?case by simp
next
  case (Cons res objs)
  let ?h = "with_namespaces scope namespace D h"
  have sc: "Scope lib ?h (?h res) mapper crds = scope res"
    using with_namespaces_Scope [OF assms(1)] assms(2) by simp
  have gvk: "objGVK (?h res) = objGVK (h res)" by (simp add: with_namespaces_def)
  show ?case
  proof (cases "err res")
    case None
    have next_heap: "with_namespaces scope namespace (insert res D) h =
        (if scope res = Inr RESTScopeNamespace \<and> objNamespace (?h res) = [] then ?h(res := ?h res \<lparr> objNamespace := namespace \<rparr>) else ?h)"
      by (rule ext) (auto simp: with_namespaces_def namespaced_def)
    have "setNamespaceLoop gvkText lib mapper crds namespace enforce (res # objs) ?h =
        setNamespaceLoop gvkText lib mapper crds namespace enforce objs (with_namespaces scope namespace (insert res D) h)"
      using None unfolding next_heap setNamespaceLoop.simps sc
      by (auto simp: assms(3) namespace_error_def with_namespaces_def namespaced_def Let_def
          split: sum.splits RESTScope.splits if_splits)
    moreover have "\<forall>r \<in> insert res D. err r = None" using None Cons.prems by simp
    ultimately show ?thesis using Cons.IH [of "insert res D"] None by simp
  next
    case (Some e)
    then have "res \<notin> D" using Cons.prems by auto
    then have "?h res = h res" by (simp add: with_namespaces_def)
    then show ?thesis
      using Some unfolding setNamespaceLoop.simps sc
      by (auto simp: assms(3) namespace_error_def Let_def split: sum.splits RESTScope.splits if_splits)
  qed
qed


definition example_namespaces :: "unit unstructured heap" where
  "example_namespaces r = example_object
     (if r = 1 then GroupVersionKind '''' ''v1'' ''Node'' else GroupVersionKind '''' ''v1'' ''Secret'')
     ''a'' (if r = 2 then ''other'' else [])"

definition example_scopes :: RESTMapper where
  "example_scopes gk versions = Inr \<lparr> mapResource = GroupVersionResource (gk_group gk) ''v1'' (gk_kind gk),
     mapGVK = GroupVersionKind (gk_group gk) ''v1'' (gk_kind gk),
     mapScope = (if gk_kind gk = ''Node'' then RESTScopeRoot else RESTScopeNamespace) \<rparr>"


text \<open>
  What a reader returns without an error: its objects are the new ones in their order, and
  their namespaces were set without an error.
\<close>

lemma readObjects_result:
  assumes "readObjects gvkText lib kio failed cfg reader h n = ((refs, None), h', n')"
  obtains objs where "objectsFromReader kio reader = Inr objs" and "refs = [n..<n + length objs]"
    and "n' = n + length objs"
    and "setNamespace gvkText lib (Mapper cfg) refs (ReaderNamespace cfg) (EnforceNamespace cfg) (place objs n h) = (None, h')"
proof (cases "objectsFromReader kio reader")
  case (Inl err)
  with assms show thesis by (simp add: readObjects_def)
next
  case (Inr objs)
  let ?refs = "[n..<n + length objs]"
  obtain err h'' where set: "setNamespace gvkText lib (Mapper cfg) ?refs (ReaderNamespace cfg) (EnforceNamespace cfg)
      (place objs n h) = (err, h'')"
    by (rule prod.exhaust)
  have "((?refs, err), h'', n + length objs) = ((refs, None), h', n')"
    using assms unfolding readObjects_def Inr by (simp only: Let_def set sum.case prod.case)
  then have parts: "refs = ?refs" "n' = n + length objs" "err = None" "h'' = h'"
    unfolding prod.inject by blast+
  show thesis by (rule that [OF Inr parts(1,2)]) (simp only: parts(1) set parts(3,4))
qed

lemma writeNodes_length: "writeNodes kio nodes acc = Inr objs \<Longrightarrow> length objs = length acc + length nodes"
  by (induction kio nodes acc rule: writeNodes.induct) (auto split: sum.splits)

subsection \<open>The contract of a reader\<close>

text \<open>
  Where an object belongs: of cluster scope in no namespace, of namespaced scope in the one of
  the configuration, or in any if that is not enforced.
\<close>

definition well_placed ::
  "(go_error + RESTScope) \<Rightarrow> string \<Rightarrow> bool \<Rightarrow> 'c unstructured \<Rightarrow> bool" where
  "well_placed scope namespace enforce obj \<longleftrightarrow>
     (case scope of
        Inl err \<Rightarrow> False
      | Inr RESTScopeRoot \<Rightarrow> objNamespace obj = []
      | Inr RESTScopeNamespace \<Rightarrow> objNamespace obj = namespace \<or> \<not> enforce \<and> objNamespace obj \<noteq> [])"

text \<open>
  The contract of \<open>Reader\<close>: it returns new objects and leaves the others alone, and the ones it
  returns without an error are where they belong.
\<close>

locale Reader =
  fixes read :: "'c unstructured heap \<Rightarrow> ref \<Rightarrow> (ref list \<times> go_error option) \<times> 'c unstructured heap \<times> ref"
    and placed :: "ref list \<Rightarrow> 'c unstructured heap \<Rightarrow> ref \<Rightarrow> bool"
  assumes read_new: "read h n = ((refs, err), h', n') \<Longrightarrow>
      distinct refs \<and> n \<le> n' \<and> set refs \<subseteq> {n..<n'} \<and> (\<forall>r < n. h' r = h r)"
    and read_placed: "read h n = ((refs, None), h', n') \<Longrightarrow> r \<in> set refs \<Longrightarrow> placed refs h' r"

lemma setNamespaceLoop_others:
  "setNamespaceLoop gvkText lib mapper crds namespace enforce objs h = (err, h') \<Longrightarrow> r \<notin> set objs \<Longrightarrow> h' r = h r"
proof (induction objs arbitrary: h)
  case (Cons res objs)
  have other: "r \<noteq> res" "r \<notin> set objs" using Cons.prems(2) by auto
  show ?case
  proof (cases "Scope lib h (h res) mapper crds")
    case (Inr scope)
    then show ?thesis
      using Cons.prems(1) other Cons.IH [OF _ other(2)]
      by (cases scope) (auto simp: Let_def split: if_splits)
  qed (use Cons.prems in simp)
qed simp

lemma setNamespace_others:
  "setNamespace gvkText lib mapper objs namespace enforce h = (err, h') \<Longrightarrow> r \<notin> set objs \<Longrightarrow> h' r = h r"
  by (auto simp: setNamespace_def split: if_splits dest: setNamespaceLoop_others)

lemma setNamespaceLoop_GVK:
  "setNamespaceLoop gvkText lib mapper crds namespace enforce objs h = (err, h') \<Longrightarrow> objGVK (h' r) = objGVK (h r)"
proof (induction objs arbitrary: h)
  case (Cons res objs)
  define h1 where "h1 = h(res := h res \<lparr> objNamespace := namespace \<rparr>)"
  have "objGVK (h1 r) = objGVK (h r)" by (simp add: h1_def)
  then show ?case
    using Cons.prems Cons.IH [of h] Cons.IH [of h1] unfolding setNamespaceLoop.simps h1_def [symmetric]
    by (auto simp: Let_def split: sum.splits RESTScope.splits if_splits)
qed simp

lemma setNamespace_GVK:
  "setNamespace gvkText lib mapper objs namespace enforce h = (err, h') \<Longrightarrow> objGVK (h' r) = objGVK (h r)"
  by (auto simp: setNamespace_def split: if_splits dest: setNamespaceLoop_GVK)

lemma first_error_None: "first_error f xs = None \<longleftrightarrow> (\<forall>x \<in> set xs. f x = None)"
  by (induction xs) (auto split: option.split)

lemma setNamespace_placed:
  assumes "spec_only lib" and "enforce \<or> namespace \<noteq> []"
    and "setNamespace gvkText lib mapper objs namespace enforce h = (None, h')" and "r \<in> set objs"
  shows "well_placed (Scope lib h' (h' r) mapper (FindCRDs h objs)) namespace enforce (h' r)"
proof -
  let ?crds = "FindCRDs h objs"
  let ?scope = "\<lambda>r. Scope lib h (h r) mapper ?crds"
  let ?err = "\<lambda>r. namespace_error gvkText (?scope r) namespace enforce (h r)"
  have "with_namespaces ?scope namespace {} h = h" by (simp add: with_namespaces_def)
  then have "setNamespaceLoop gvkText lib mapper ?crds namespace enforce objs h =
      (first_error ?err objs, with_namespaces ?scope namespace (set (takeWhile (\<lambda>r. ?err r = None) objs)) h)"
    using setNamespaceLoop_result [OF assms(1) refl refl, of "{}" gvkText h mapper ?crds namespace enforce objs] by simp
  moreover have "setNamespaceLoop gvkText lib mapper ?crds namespace enforce objs h = (None, h')"
    using assms(2-4) by (auto simp: setNamespace_def split: if_splits)
  ultimately have none: "first_error ?err objs = None"
    and h': "h' = with_namespaces ?scope namespace (set (takeWhile (\<lambda>r. ?err r = None) objs)) h"
    by auto
  have accepted: "\<forall>r \<in> set objs. ?err r = None" using none by (simp only: first_error_None)
  then have all: "takeWhile (\<lambda>r. ?err r = None) objs = objs" by (simp add: takeWhile_eq_all_conv)
  have "h' r = namespaced (?scope r) namespace (h r)"
    using assms(4) unfolding h' all by (simp add: with_namespaces_def)
  moreover have "Scope lib h' (h' r) mapper ?crds = ?scope r"
    unfolding h' by (rule with_namespaces_Scope [OF assms(1)])
  moreover have "?err r = None" using accepted assms(4) by blast
  ultimately show ?thesis
    by (auto simp: well_placed_def namespaced_def namespace_error_def split: sum.splits RESTScope.splits if_splits)
qed

fun configs_of :: "'stream Reader \<Rightarrow> ReaderConfigs" where
  "configs_of (FilepathReader cfg path) = cfg"
| "configs_of (StreamReader cfg stream) = cfg"

text \<open>
  What the configuration asks of the objects: nothing without a namespace, and with one that each
  of them is where it belongs.
\<close>

definition placed_by :: "'c converter \<Rightarrow> ReaderConfigs \<Rightarrow> ref list \<Rightarrow> 'c unstructured heap \<Rightarrow> ref \<Rightarrow> bool" where
  "placed_by lib cfg objs h r \<longleftrightarrow>
     (spec_only lib \<and> (EnforceNamespace cfg \<or> ReaderNamespace cfg \<noteq> []) \<longrightarrow>
        well_placed (Scope lib h (h r) (Mapper cfg) (FindCRDs h objs)) (ReaderNamespace cfg) (EnforceNamespace cfg) (h r))"

lemma Read_readObjects:
  "\<exists>failed src. Read gvkText lib kio rd h n = readObjects gvkText lib kio failed (configs_of rd) src h n"
  by (cases rd) (auto simp: FilepathReader_Read_def StreamReader_Read_def)

lemma readObjects_new:
  assumes "readObjects gvkText lib kio failed cfg src h n = ((refs, err), h', n')"
  shows "distinct refs \<and> n \<le> n' \<and> set refs \<subseteq> {n..<n'} \<and> (\<forall>r < n. h' r = h r)"
proof (cases "objectsFromReader kio src")
  case (Inl e)
  with assms show ?thesis by (auto simp: readObjects_def)
next
  case (Inr objs)
  let ?refs = "[n..<n + length objs]"
  obtain e h'' where set: "setNamespace gvkText lib (Mapper cfg) ?refs (ReaderNamespace cfg) (EnforceNamespace cfg)
      (place objs n h) = (e, h'')"
    by (rule prod.exhaust)
  have "((?refs, e), h'', n + length objs) = ((refs, err), h', n')"
    using assms unfolding readObjects_def Inr by (simp only: Let_def set sum.case prod.case)
  then have parts: "refs = ?refs" "n' = n + length objs" "h'' = h'" unfolding prod.inject by blast+
  have "h' r = h r" if "r < n" for r
  proof -
    have "h' r = place objs n h r" using setNamespace_others [OF set, of r] that parts(3) by simp
    then show ?thesis using that by (simp add: place_def)
  qed
  then show ?thesis unfolding parts(1,2) by simp
qed

lemma readObjects_placed:
  assumes "readObjects gvkText lib kio failed cfg src h n = ((refs, None), h', n')" and "r \<in> set refs"
  shows "placed_by lib cfg refs h' r"
  unfolding placed_by_def
proof (rule impI, elim conjE)
  assume spec: "spec_only lib" and some: "EnforceNamespace cfg \<or> ReaderNamespace cfg \<noteq> []"
  show "well_placed (Scope lib h' (h' r) (Mapper cfg) (FindCRDs h' refs)) (ReaderNamespace cfg) (EnforceNamespace cfg) (h' r)"
  proof (rule readObjects_result [OF assms(1)])
    fix objs
    assume set: "setNamespace gvkText lib (Mapper cfg) refs (ReaderNamespace cfg) (EnforceNamespace cfg) (place objs n h) = (None, h')"
    have "FindCRDs h' refs = FindCRDs (place objs n h) refs"
      unfolding FindCRDs_filter using setNamespace_GVK [OF set] by (simp add: IsCRD_def objGK_def)
    then show ?thesis using setNamespace_placed [OF spec some set assms(2)] by simp
  qed
qed

interpretation readers: Reader "Read gvkText lib kio rd" "placed_by lib (configs_of rd)"
  for gvkText lib kio and rd :: "'stream Reader"
proof
  fix h n refs err h' n'
  assume "Read gvkText lib kio rd h n = ((refs, err), h', n')"
  then show "distinct refs \<and> n \<le> n' \<and> set refs \<subseteq> {n..<n'} \<and> (\<forall>r < n. h' r = h r)"
    using Read_readObjects readObjects_new by metis
next
  fix h n refs h' n' r
  assume "Read gvkText lib kio rd h n = ((refs, None), h', n')" and "r \<in> set refs"
  then show "placed_by lib (configs_of rd) refs h' r"
    using Read_readObjects readObjects_placed by metis
qed

end
