(* ===== verification/Mutator_Labels.thy ===== *)
theory Mutator_Labels
  imports Applier
begin

text \<open>
  \<open>pkg/mutator/labels.go\<close>: the mutator that gives every object the labels it was made with,
  unless the object has a label of the same key. The validation of the labels belongs to the
  library and is the parameter \<open>validate\<close>, which returns the errors it finds.
\<close>

subsection \<open>The mutator\<close>

definition labels_CanHandleResource :: "(string, string) gomap \<Rightarrow> PartialObjectMetadata \<Rightarrow> bool" where
  "labels_CanHandleResource labels objMeta \<longleftrightarrow> length labels > 0"

definition addLabels :: "(string, string) gomap \<Rightarrow> (string, string) gomap \<Rightarrow> (string, string) gomap" where
  "addLabels labels present =
     fold (\<lambda>(key, value) ls. if has_key ls key then ls else AList.update key value ls) labels present"

definition labels_Mutate ::
  "((string, string) gomap \<Rightarrow> go_error list) \<Rightarrow> (string, string) gomap \<Rightarrow> ref \<Rightarrow>
     ('c, 'w) world \<Rightarrow> go_error option \<times> ('c, 'w) world" where
  "labels_Mutate validate labels r w =
     (let errs = validate labels in
      if length errs \<noteq> 0 then (Some (Aggregate errs), w)
      else
        (let obj = objHeap w r in
         (None, w \<lparr> objHeap := (objHeap w)(r := obj \<lparr> objLabels :=
            Some (addLabels labels (gomap_of (objLabels obj))) \<rparr>) \<rparr>)))"

definition NewLabelsMutator ::
  "((string, string) gomap \<Rightarrow> go_error list) \<Rightarrow> (string, string) gomap \<Rightarrow> ('c, 'w) mutator_interface" where
  "NewLabelsMutator validate labels =
     \<lparr> mutCanHandleResource = labels_CanHandleResource labels, mutMutate = labels_Mutate validate labels \<rparr>"

subsection \<open>What the labels of an object become\<close>

lemma addLabels_map_of: "map_of (addLabels labels ls) = map_of labels ++ map_of ls"
proof (induction labels arbitrary: ls)
  case Nil
  then show ?case by (simp add: addLabels_def)
next
  case (Cons p labels)
  obtain key v where p: "p = (key, v)" by (rule prod.exhaust)
  let ?ls = "if has_key ls key then ls else AList.update key v ls"
  have "map_of (addLabels (p # labels) ls) = map_of labels ++ map_of ?ls"
    using Cons by (simp add: addLabels_def p)
  also have "\<dots> = map_of (p # labels) ++ map_of ls"
    by (rule ext) (auto simp: p has_key_def update_conv map_add_def split: option.splits)
  finally show ?case .
qed

text \<open>An object has the labels of the mutator and keeps the ones it had.\<close>

definition labelled :: "(string, string) gomap \<Rightarrow> 'c unstructured \<Rightarrow> 'c unstructured \<Rightarrow> bool" where
  "labelled labels obj obj' \<longleftrightarrow> (\<exists>ls. obj' = obj \<lparr> objLabels := Some ls \<rparr> \<and>
     map_of ls = map_of labels ++ map_of (gomap_of (objLabels obj)))"

lemma labels_Mutate_labelled:
  assumes "labels_Mutate validate labels r w = (None, w')"
  shows "\<exists>obj'. w' = w \<lparr> objHeap := (objHeap w)(r := obj') \<rparr> \<and> labelled labels (objHeap w r) obj'"
proof -
  let ?ls = "addLabels labels (gomap_of (objLabels (objHeap w r)))"
  have "labelled labels (objHeap w r) (objHeap w r \<lparr> objLabels := Some ?ls \<rparr>)"
    unfolding labelled_def using addLabels_map_of by blast
  moreover have "w' = w \<lparr> objHeap := (objHeap w)(r := objHeap w r \<lparr> objLabels := Some ?ls \<rparr>) \<rparr>"
    using assms by (simp add: labels_Mutate_def Let_def split: if_splits)
  ultimately show ?thesis by blast
qed

lemma labelled_again:
  assumes "labelled labels obj obj'" and "labelled labels obj' obj''"
  shows "labelled labels obj obj''"
proof -
  obtain ls ls' where ls: "obj' = obj \<lparr> objLabels := Some ls \<rparr>" "obj'' = obj \<lparr> objLabels := Some ls' \<rparr>"
    "map_of ls = map_of labels ++ map_of (gomap_of (objLabels obj))" "map_of ls' = map_of labels ++ map_of ls"
    using assms by (auto simp: labelled_def gomap_of_def)
  then have "map_of ls' = map_of ls" by (metis map_add_assoc map_add_subsumed2 map_le_refl)
  with ls show ?thesis unfolding labelled_def by metis
qed

text \<open>The same object with other labels, among which are the ones it had.\<close>

definition only_labels :: "'c unstructured \<Rightarrow> 'c unstructured \<Rightarrow> bool" where
  "only_labels obj obj' \<longleftrightarrow> (\<exists>ls. obj' = obj \<lparr> objLabels := ls \<rparr> \<and>
     map_of (gomap_of (objLabels obj)) \<subseteq>\<^sub>m map_of (gomap_of ls))"

lemma only_labels_refl: "only_labels obj obj"
  by (auto simp: only_labels_def intro: exI [of _ "objLabels obj"])

lemma only_labels_trans:
  assumes "only_labels a b" and "only_labels b c"
  shows "only_labels a c"
proof -
  obtain ls ls' where "c = a \<lparr> objLabels := ls' \<rparr>"
    "map_of (gomap_of (objLabels a)) \<subseteq>\<^sub>m map_of (gomap_of ls)" "map_of (gomap_of ls) \<subseteq>\<^sub>m map_of (gomap_of ls')"
    using assms by (auto simp: only_labels_def)
  then show ?thesis unfolding only_labels_def using map_le_trans by blast
qed

lemma only_labels_identity: "only_labels a b \<Longrightarrow> ObjectMetadataFromUnstructured b = ObjectMetadataFromUnstructured a"
  by (auto simp: only_labels_def ObjectMetadataFromUnstructured_def)

lemma labelled_only_labels: "labelled labels a b \<Longrightarrow> only_labels a b"
  by (auto simp: labelled_def only_labels_def gomap_of_def)

subsection \<open>The contract of a mutator\<close>

interpretation labelling: Mutator "NewLabelsMutator validate labels" "labelled labels" for validate labels
  by unfold_locales
     (auto simp: NewLabelsMutator_def labels_CanHandleResource_def labels_Mutate_labelled
       intro: labelled_again labelled_only_labels [THEN only_labels_identity])

interpretation labels_only: Mutator "NewLabelsMutator validate labels" only_labels for validate labels
proof
  fix r and w w' :: "('a, 'b) world"
  assume "mutMutate (NewLabelsMutator validate labels) r w = (None, w')"
  then show "\<exists>obj'. w' = w \<lparr> objHeap := (objHeap w)(r := obj') \<rparr> \<and> only_labels (objHeap w r) obj'"
    using labelling.mutate_changes labelled_only_labels by blast
qed (simp_all add: NewLabelsMutator_def labels_CanHandleResource_def only_labels_identity only_labels_trans [of _ b for b])

lemma mutateLoop_labels_ok:
  "validate labels = [] \<or> labels = [] \<Longrightarrow> \<exists>w'. mutateLoop (NewLabelsMutator validate labels) objs w = (None, w')"
  by (induction objs arbitrary: w)
     (auto simp: NewLabelsMutator_def labels_CanHandleResource_def labels_Mutate_def Let_def)

lemma mutateLoop_no_labels: "mutateLoop (NewLabelsMutator validate []) objs w = (None, w)"
  by (induction objs) (simp_all add: NewLabelsMutator_def labels_CanHandleResource_def)

lemma mutateLoop_labels_invalid:
  "validate labels \<noteq> [] \<Longrightarrow> labels \<noteq> [] \<Longrightarrow> objs \<noteq> [] \<Longrightarrow>
    \<exists>e. mutateLoop (NewLabelsMutator validate labels) objs w = (Some e, w)"
  by (cases objs) (auto simp: NewLabelsMutator_def labels_CanHandleResource_def labels_Mutate_def Let_def)

lemma mutateObjects_single: "mutateObjects [mt] objs w = mutateLoop mt objs w"
  by (auto split: prod.splits option.splits)

text \<open>
  C28: The labels mutator in a run of the applier: it succeeds unless it has labels that the
  library refuses and an object to put them on, in which case it changes nothing. If it
  succeeds, every object has each of its labels, with the value the object had before where it
  had one, keeps its other labels and everything else, however often it occurs among the
  objects; no other object changes.
\<close>

theorem labels_are_added:
  assumes "mutateObjects [NewLabelsMutator validate labels] objs w = (res, w')"
  shows "(res = None \<longleftrightarrow> labels = [] \<or> objs = [] \<or> validate labels = []) \<and> (res \<noteq> None \<longrightarrow> w' = w) \<and>
    (res = None \<longrightarrow> (\<forall>r. if labels \<noteq> [] \<and> r \<in> set objs then labelled labels (objHeap w r) (objHeap w' r)
       else objHeap w' r = objHeap w r))"
proof (cases "labels = [] \<or> objs = [] \<or> validate labels = []")
  case True
  have run: "mutateLoop (NewLabelsMutator validate labels) objs w = (res, w')"
    using assms by (simp only: mutateObjects_single)
  have ok: "res = None"
  proof (cases "objs = []")
    case False
    then show ?thesis
      using True run mutateLoop_labels_ok [of validate labels objs w] by auto
  qed (use run in simp)
  show ?thesis
  proof (cases "labels = []")
    case empty: True
    then have "w' = w" using run mutateLoop_no_labels [of validate objs w] by simp
    with ok empty show ?thesis by simp
  next
    case False
    with labelling.mutateLoop_changed [OF run [unfolded ok]] ok True show ?thesis
      by (simp add: NewLabelsMutator_def labels_CanHandleResource_def)
  qed
next
  case False
  then obtain e where "mutateLoop (NewLabelsMutator validate labels) objs w = (Some e, w)"
    using mutateLoop_labels_invalid [of validate labels objs w] by blast
  then have "res = Some e" "w' = w" using assms unfolding mutateObjects_single by simp_all
  with False show ?thesis by simp
qed

theorem labels_are_added_witness:
  "objLabels (objHeap (snd (mutateObjects [NewLabelsMutator (\<lambda>ls. []) [(''team'', ''x'')]] [0, 0] prune_world)) 1) = None"
proof -
  obtain res w' where run:
    "mutateObjects [NewLabelsMutator (\<lambda>ls. []) [(''team'', ''x'')]] [0, 0] prune_world = (res, w')"
    by (rule prod.exhaust)
  note added = labels_are_added [OF run]
  have "res = None" by (rule added [THEN conjunct1, THEN iffD2]) simp
  then have "objHeap w' 1 = objHeap prune_world 1"
    using added [THEN conjunct2, THEN conjunct2, THEN mp, THEN spec, of 1] by simp
  with run show ?thesis by (simp add: prune_world_def example_heap3_def example_object_def)
qed

end
