(* ===== verification/Generator_CronJob.thy ===== *)
theory Generator_CronJob
  imports Applier "HOL-Library.Word"
begin

text \<open>
  \<open>pkg/generator/cronjob.go\<close>: the generator that makes a job from a cron job that carries an
  annotation. The conversions to and from the typed objects and the random bytes are parameters.
\<close>

subsection \<open>Names\<close>

text \<open>\<open>hex.EncodeToString\<close>, and a slice \<open>s[:n]\<close>, which panics beyond the end.\<close>

definition hexTable :: string where
  "hexTable = ''0123456789abcdef''"

definition hexByte :: "8 word \<Rightarrow> string" where
  "hexByte b = [hexTable ! unat (drop_bit 4 b), hexTable ! unat (take_bit 4 b)]"

definition EncodeToString :: "8 word list \<Rightarrow> string" where
  "EncodeToString bs = concat (map hexByte bs)"

definition slice_to :: "nat \<Rightarrow> string \<Rightarrow> string exec" where
  "slice_to n s = (if n > length s then Panic else Done (take n s))"

definition job_name :: "string \<Rightarrow> 8 word list \<Rightarrow> string exec" where
  "job_name name b = slice_to (min 64 (length name + 6)) (name @ ''-'' @ EncodeToString b)"

subsection \<open>Jobs\<close>

record 'spec CronJob =
  cjName :: string
  cjNamespace :: string
  cjTemplateAnnotations :: "(string, string) gomap"
  cjTemplateLabels :: "(string, string) gomap option"
  cjTemplateSpec :: 'spec

record 'spec batchJob =
  jobAPIVersion :: string
  jobKind :: string
  jobName :: string
  jobNamespace :: string
  jobAnnotations :: "(string, string) gomap"
  jobLabels :: "(string, string) gomap option"
  jobSpec :: 'spec

definition jobAnnotationsOf :: "'spec CronJob \<Rightarrow> (string, string) gomap" where
  "jobAnnotationsOf cronJob =
     fold (\<lambda>(k, v) annotations. AList.update k v annotations) (cjTemplateAnnotations cronJob)
       [(''cronjob.kubernetes.io/instantiate'', ''manual'')]"

text \<open>\<open>b\<close> are the ten bytes that \<open>rand.Read\<close> writes.\<close>

definition createJobFromCronJob :: "'spec CronJob \<Rightarrow> 8 word list \<Rightarrow> 'spec batchJob exec" where
  "createJobFromCronJob cronJob b =
     bind_exec (job_name (cjName cronJob) b)
       (\<lambda>name. Done \<lparr> jobAPIVersion = ''batch/v1'', jobKind = ''Job'', jobName = name,
          jobNamespace = cjNamespace cronJob, jobAnnotations = jobAnnotationsOf cronJob,
          jobLabels = cjTemplateLabels cronJob, jobSpec = cjTemplateSpec cronJob \<rparr>)"

subsection \<open>The generator\<close>

record jobGenerator =
  genAnnotation :: string
  genValue :: string

definition cronJobGK :: GroupKind where
  "cronJobGK = GroupKind ''batch'' ''CronJob''"

definition cronjob_CanHandleResource :: "jobGenerator \<Rightarrow> PartialObjectMetadata \<Rightarrow> bool" where
  "cronjob_CanHandleResource g objMeta \<longleftrightarrow>
     groupKind (pmGVK objMeta) = cronJobGK \<and>
     lookup_zero [] (gomap_of (pmAnnotations objMeta)) (genAnnotation g) = genValue g"

record ('c, 'spec, 'w) job_lib =
  toCronJob :: "'c unstructured \<Rightarrow> go_error + 'spec CronJob"
  fromJob :: "'spec batchJob \<Rightarrow> go_error + 'c unstructured"
  randRead :: "'w \<Rightarrow> 8 word list \<times> 'w"

definition cronjob_Generate ::
  "('c, 'spec, 'w) job_lib \<Rightarrow> ref \<Rightarrow> ('c, 'w) world \<Rightarrow> ((go_error + ref list) \<times> ('c, 'w) world) exec" where
  "cronjob_Generate lib obj w =
     (case toCronJob lib (objHeap w obj) of
        Inl err \<Rightarrow> Done (Inl err, w)
      | Inr cronJob \<Rightarrow>
          (let (b, remote') = randRead lib (remote w); w' = w \<lparr> remote := remote' \<rparr> in
           bind_exec (createJobFromCronJob cronJob b)
             (\<lambda>job. case fromJob lib job of
                Inl err \<Rightarrow> Done (Inl err, w')
              | Inr unstruct \<Rightarrow> (case alloc unstruct w' of (r, w'') \<Rightarrow> Done (Inr [r], w'')))))"

subsection \<open>Hexadecimal digits\<close>

lemma length_hexByte [simp]: "length (hexByte b) = 2"
  by (simp add: hexByte_def)

lemma length_EncodeToString: "length (EncodeToString bs) = 2 * length bs"
  by (induction bs) (simp_all add: EncodeToString_def)

lemma hexTable_inject: "i < 16 \<Longrightarrow> j < 16 \<Longrightarrow> hexTable ! i = hexTable ! j \<longleftrightarrow> i = j"
proof -
  have "distinct hexTable" "length hexTable = 16" by (simp_all add: hexTable_def)
  then show "i < 16 \<Longrightarrow> j < 16 \<Longrightarrow> hexTable ! i = hexTable ! j \<longleftrightarrow> i = j"
    by (simp add: nth_eq_iff_index_eq)
qed

lemma nibble_bounds: "unat (drop_bit 4 (b :: 8 word)) < 16" "unat (take_bit 4 (b :: 8 word)) < 16"
proof -
  have "unat b < 256" using unsigned_less [of b] by simp
  then show "unat (drop_bit 4 b) < 16" "unat (take_bit 4 b) < 16"
    by (simp_all add: unsigned_drop_bit_eq unsigned_take_bit_eq take_bit_eq_mod drop_bit_eq_div unat_div_distrib unat_mod_distrib)
qed

lemma unat_inject: "unat x = unat y \<longleftrightarrow> x = (y :: 8 word)"
  by (simp add: word_unat_eq_iff)

lemma nibbles: "drop_bit 4 b = drop_bit 4 c \<Longrightarrow> take_bit 4 b = take_bit 4 c \<Longrightarrow> b = (c :: 8 word)"
  by (metis bits_ident)

lemma hexByte_inject: "hexByte b = hexByte c \<longleftrightarrow> b = c"
  using nibbles [of b c] by (auto simp: hexByte_def hexTable_inject nibble_bounds unat_inject)

subsection \<open>The name of a job\<close>

lemma job_name_Done:
  assumes "length b = 10"
  shows "job_name name b = Done (take (min 64 (length name + 6)) (name @ ''-'' @ EncodeToString b))"
  using assms by (simp add: job_name_def slice_to_def length_EncodeToString)

lemma take_five:
  assumes "b = x # y # z # bs"
  shows "take 5 (EncodeToString b) = hexByte x @ hexByte y @ [hexTable ! unat (drop_bit 4 z)]"
  using assms by (simp add: EncodeToString_def hexByte_def)

definition seed :: "8 word list \<Rightarrow> 8 word \<times> 8 word \<times> 8 word" where
  "seed b = (b ! 0, b ! 1, drop_bit 4 (b ! 2))"

lemma take_five_inject:
  assumes "length b = 10" and "length c = 10"
  shows "take 5 (EncodeToString b) = take 5 (EncodeToString c) \<longleftrightarrow> seed b = seed c"
proof -
  obtain x y z bs where b: "b = x # y # z # bs" using assms(1) by (auto simp: length_Suc_conv numeral_eq_Suc)
  obtain x' y' z' cs where c: "c = x' # y' # z' # cs" using assms(2) by (auto simp: length_Suc_conv numeral_eq_Suc)
  have "seed b = (x, y, drop_bit 4 z)" and "seed c = (x', y', drop_bit 4 z')"
    by (simp_all add: seed_def b c numeral_2_eq_2)
  then show ?thesis
    unfolding take_five [OF b] take_five [OF c]
    by (auto simp: hexByte_inject hexTable_inject nibble_bounds unat_inject append_eq_append_conv)
qed

text \<open>
  C29: The name of a generated job: the slice never panics and the name has at most 64
  characters. Up to 58 characters of the name of the cron job it is that name, a dash and five
  random hexadecimal digits, so that two jobs of one cron job have the same name exactly when
  the first twenty random bits are the same; from 64 characters on the random part is cut off
  and every job of the cron job has the same name.
\<close>

theorem job_names:
  assumes "length b = 10" and "length c = 10"
  shows "\<exists>n. job_name name b = Done n \<and> length n = min 64 (length name + 6) \<and>
    (length name \<le> 58 \<longrightarrow> n = name @ ''-'' @ take 5 (EncodeToString b) \<and>
       (job_name name c = Done n \<longleftrightarrow> seed b = seed c)) \<and>
    (64 \<le> length name \<longrightarrow> n = take 64 name \<and> job_name name c = Done n)"
proof -
  let ?n = "take (min 64 (length name + 6)) (name @ ''-'' @ EncodeToString b)"
  have cut: "take (min 64 (length name + 6)) (name @ ''-'' @ EncodeToString d) = name @ ''-'' @ take 5 (EncodeToString d)"
    if "length name \<le> 58" for d
    using that by simp
  have long: "take (min 64 (length name + 6)) (name @ ''-'' @ EncodeToString d) = take 64 name"
    if "64 \<le> length name" for d
    using that by simp
  have "job_name name c = Done ?n \<longleftrightarrow> seed b = seed c" if "length name \<le> 58"
    using take_five_inject [OF assms] unfolding job_name_Done [OF assms(2)] cut [OF that] by auto
  moreover have "job_name name c = Done ?n" if "64 \<le> length name"
    unfolding job_name_Done [OF assms(2)] long [OF that] ..
  moreover have "length ?n = min 64 (length name + 6)"
    using assms(1) by (simp add: length_EncodeToString)
  ultimately show ?thesis
    using job_name_Done [OF assms(1), of name] cut [of b] long [of b] by blast
qed

theorem job_names_witness:
  "job_name ''backup'' (replicate 10 255) = Done ''backup-fffff''"
proof -
  have len: "length (replicate 10 255 :: 8 word list) = 10" by simp
  have digits: "take 5 (EncodeToString (replicate 10 255)) = ''fffff''" by code_simp
  from job_names [OF len len, of "''backup''"] show ?thesis unfolding digits by auto
qed

subsection \<open>What the generator makes\<close>

lemma jobAnnotations_fold:
  "distinct (map fst ls) \<Longrightarrow>
    map_of (fold (\<lambda>(k, v) annotations. AList.update k v annotations) ls acc) = map_of acc ++ map_of ls"
proof (induction ls arbitrary: acc)
  case (Cons p ls)
  obtain k v where p: "p = (k, v)" by (rule prod.exhaust)
  then have "map_of ls k = None" using Cons.prems by (simp add: map_of_eq_None_iff)
  with Cons p show ?case by (auto simp: update_conv' map_add_def split: option.splits intro!: ext)
qed simp

text \<open>The annotations of the template win over the mark of a manual job.\<close>

lemma jobAnnotations_map_of:
  "distinct (map fst (cjTemplateAnnotations cronJob)) \<Longrightarrow>
    map_of (jobAnnotationsOf cronJob) =
      [''cronjob.kubernetes.io/instantiate'' \<mapsto> ''manual''] ++ map_of (cjTemplateAnnotations cronJob)"
  by (simp add: jobAnnotationsOf_def jobAnnotations_fold)

text \<open>With ten random bytes the generator returns, so that it is a generator of the applier.\<close>

lemma cronjob_Generate_returns:
  assumes "length (fst (randRead lib (remote w))) = 10"
  shows "\<exists>r. cronjob_Generate lib obj w = Done r"
  using assms
  by (auto simp: cronjob_Generate_def createJobFromCronJob_def job_name_Done Let_def split: sum.split prod.split)

text \<open>The empty value asks for cron jobs that have the annotation empty, or do not have it.\<close>

lemma empty_value_handles:
  "genValue g = [] \<Longrightarrow> groupKind (pmGVK m) = cronJobGK \<Longrightarrow> genAnnotation g \<notin> fst ` set (gomap_of (pmAnnotations m)) \<Longrightarrow>
    cronjob_CanHandleResource g m"
  by (simp add: cronjob_CanHandleResource_def lookup_zero_def map_of_eq_None_iff [THEN iffD2])

text \<open>
  The generator as the applier calls it. \<open>rand.Read\<close> fills the ten bytes, so that the case of the
  panic does not arise (\<open>cronjob_Generate_returns\<close>).
\<close>

definition NewJobGenerator :: "jobGenerator \<Rightarrow> ('c, 'spec, 'w) job_lib \<Rightarrow> ('c, 'w) generator_interface" where
  "NewJobGenerator g lib = \<lparr> genCanHandleResource = cronjob_CanHandleResource g,
     genGenerate = (\<lambda>obj w. case cronjob_Generate lib obj w of
        Done r \<Rightarrow> r
      | Panic \<Rightarrow> (Inl (ErrorNew ''slice bounds out of range''), w)) \<rparr>"

subsection \<open>The contract of a generator\<close>

text \<open>The second object is the job made from the first, a cron job that carries the annotation.\<close>

definition job_of :: "jobGenerator \<Rightarrow> ('c, 'spec, 'w) job_lib \<Rightarrow> 'c unstructured \<Rightarrow> 'c unstructured \<Rightarrow> bool" where
  "job_of g lib obj obj' \<longleftrightarrow> cronjob_CanHandleResource g (AsPartialObjectMetadata obj) \<and>
     (\<exists>cronJob b job. toCronJob lib obj = Inr cronJob \<and> createJobFromCronJob cronJob b = Done job \<and>
        fromJob lib job = Inr obj')"

lemma cronjob_Generate_cases:
  assumes "cronjob_Generate lib obj w = Done (res, w')"
  shows "(\<exists>err v. res = Inl err \<and> w' = w \<lparr> remote := v \<rparr>) \<or>
    (\<exists>cronJob b job v obj'. toCronJob lib (objHeap w obj) = Inr cronJob \<and> createJobFromCronJob cronJob b = Done job \<and>
       fromJob lib job = Inr obj' \<and> res = Inr [nextRef w] \<and> w' = snd (alloc obj' (w \<lparr> remote := v \<rparr>)))"
proof (cases "toCronJob lib (objHeap w obj)")
  case (Inl err)
  then have "res = Inl err" "w' = w \<lparr> remote := remote w \<rparr>" using assms by (simp_all add: cronjob_Generate_def)
  then show ?thesis by blast
next
  case (Inr cronJob)
  obtain b v where rand: "randRead lib (remote w) = (b, v)" by (rule prod.exhaust)
  obtain job where job: "createJobFromCronJob cronJob b = Done job"
    using assms Inr rand by (auto simp: cronjob_Generate_def bind_exec_Done Let_def)
  show ?thesis
  proof (cases "fromJob lib job")
    case (Inl err)
    then have "res = Inl err" "w' = w \<lparr> remote := v \<rparr>"
      using assms Inr rand job by (simp_all add: cronjob_Generate_def)
    then show ?thesis by blast
  next
    case made: (Inr obj')
    then have "res = Inr [nextRef w]" "w' = snd (alloc obj' (w \<lparr> remote := v \<rparr>))"
      using assms Inr rand job by (auto simp: cronjob_Generate_def alloc_def)
    with Inr job made show ?thesis by blast
  qed
qed

lemma NewJobGenerator_Generate:
  assumes "genGenerate (NewJobGenerator g lib) obj w = (res, w')"
  shows "cronjob_Generate lib obj w = Done (res, w') \<or> (\<exists>err. res = Inl err) \<and> w' = w"
  using assms by (auto simp: NewJobGenerator_def split: exec.splits)

interpretation jobs: Generator "NewJobGenerator g lib" "job_of g lib" for g lib
proof
  fix obj res and w w' :: "('a, 'c) world"
  assume "genGenerate (NewJobGenerator g lib) obj w = (res, w')"
  then show "grown w w'"
    using NewJobGenerator_Generate cronjob_Generate_cases by (fastforce simp: grown_def)
next
  fix obj rs and w w' :: "('a, 'c) world"
  assume "genCanHandleResource (NewJobGenerator g lib) (AsPartialObjectMetadata (objHeap w obj))"
    and run: "genGenerate (NewJobGenerator g lib) obj w = (Inr rs, w')"
  then have handled: "cronjob_CanHandleResource g (AsPartialObjectMetadata (objHeap w obj))"
    by (simp add: NewJobGenerator_def)
  have "cronjob_Generate lib obj w = Done (Inr rs, w')"
    using NewJobGenerator_Generate [OF run] by simp
  from cronjob_Generate_cases [OF this] obtain cronJob b job v obj' where
    job: "toCronJob lib (objHeap w obj) = Inr cronJob" "createJobFromCronJob cronJob b = Done job" "fromJob lib job = Inr obj'"
    and new: "rs = [nextRef w]" "w' = snd (alloc obj' (w \<lparr> remote := v \<rparr>))"
    by auto
  have "job_of g lib (objHeap w obj) obj'" unfolding job_of_def using handled job by blast
  with new show "\<forall>r \<in> set rs. nextRef w \<le> r \<and> r < nextRef w' \<and> job_of g lib (objHeap w obj) (objHeap w' r)"
    by simp
qed

end
