(* ===== verification/Applier_Manifests.thy ===== *)
theory Applier_Manifests
  imports Mutator_Labels Generator_CronJob Resource_Reader
begin

text \<open>
  What \<open>Run\<close> of \<open>pkg/client/applier.go\<close> makes of its manifests before it hands them to the
  runner, with the generators and the mutators of the library: the contracts of the two
  interfaces and of the cache, composed in the order of the code.
\<close>

subsection \<open>The contracts composed\<close>

lemma Generator_mono:
  assumes "Generator rg made" and "\<And>a b. made a b \<Longrightarrow> made' a b"
  shows "Generator rg made'"
  using assms unfolding Generator_def by blast

lemma loaded_world:
  assumes "client_ok mapper client"
    and "loadObjectsFromInventory store inventory (Get mapper client) (w0 \<lparr> cache := [] \<rparr>) = (Inr rs, w1)"
  shows "grown w0 w1 \<and> (\<forall>ids rem. store_Load store inventory (remote w0) = (Inr ids, rem) \<longrightarrow>
    w1 = gets (Get mapper client) ids (w0 \<lparr> cache := [], remote := rem \<rparr>))"
proof -
  obtain ids rem where load: "store_Load store inventory (remote w0) = (Inr ids, rem)"
    and loop: "loadLoop (Get mapper client) ids [] (w0 \<lparr> cache := [], remote := rem \<rparr>) = (Inr rs, w1)"
    using assms(2) by (auto simp: loadObjectsFromInventory_def split: prod.splits sum.splits)
  have "cache_ok (w0 \<lparr> cache := [], remote := rem \<rparr>)" by (simp add: cache_ok_def)
  note result = RemoteResourceGetter.loadLoop_result [OF Get_RemoteResourceGetter [OF assms(1)] loop this]
  have "grown w0 w1" using result [THEN conjunct2] by (simp add: grown_def)
  with result [THEN conjunct1] load show ?thesis by simp
qed

text \<open>The stages of a preparation that succeeds: loading, generating, mutating and the queue.\<close>

lemma prepare_stages:
  assumes "client_ok (rtMapper (apRuntime a)) (rtClient (apRuntime a))"
    and "\<forall>rg \<in> set (apGenerators a). Generator rg made"
    and "\<forall>mt \<in> set (apMutators a). Mutator mt changed" and "\<And>obj. changed obj obj"
    and "prepare lib a objs options w0 = Done (Inr (s, tasks), w')" and "set objs \<subseteq> {..<nextRef w0}"
  obtains rs w1 generated w2 where
    "loadObjectsFromInventory (rtStore (apRuntime a)) (apInventory a)
      (Get (rtMapper (apRuntime a)) (rtClient (apRuntime a))) (w0 \<lparr> cache := [] \<rparr>) = (Inr rs, w1)"
    and "grown w0 w1" and "generated_from made objs w1 generated w2"
    and "\<forall>r. metadata_of (objHeap w') r = metadata_of (objHeap w2) r \<and> changed (objHeap w2 r) (objHeap w' r) \<and>
      (r \<notin> set (objs @ generated) \<longrightarrow> objHeap w' r = objHeap w2 r)"
    and "set (concat (map applies tasks)) = set objs \<union> set generated"
proof (rule prepare_Inr [OF assms(5)])
  fix rs w1 generated w2 b opts
  assume load: "loadObjectsFromInventory (rtStore (apRuntime a)) (apInventory a)
      (Get (rtMapper (apRuntime a)) (rtClient (apRuntime a))) (w0 \<lparr> cache := [] \<rparr>) = (Inr rs, w1)"
    and gen: "generateObjects (apGenerators a) objs w1 = ((generated, None), w2)"
    and mut: "mutateObjects (apMutators a) (objs @ generated) w2 = (None, w')"
    and build: "Build lib (objHeap w') b opts = Done (Inr tasks)" and objects: "objects b = objs @ generated"
  have loaded: "grown w0 w1" using loaded_world [OF assms(1) load] by blast
  then have known: "set objs \<subseteq> {..<nextRef w1}" using assms(6) by (auto simp: grown_def)
  have "generated_from made objs w1 generated w2"
    using generateAll_made [OF assms(2) gen [unfolded generateObjects_def] known] by auto
  moreover have "set (concat (map applies tasks)) = set objs \<union> set generated"
    using Build_applies [OF build] objects by simp
  ultimately show ?thesis
    using that [OF load loaded] mutateObjects_changed [OF assms(3,4) mut] by blast
qed

text \<open>
  The objects that a queue applies are the manifests, still the resources they were, and the
  generated objects; both have gone through the mutators.
\<close>

lemma prepare_contracts:
  assumes "client_ok (rtMapper (apRuntime a)) (rtClient (apRuntime a))"
    and "\<forall>rg \<in> set (apGenerators a). Generator rg made"
    and "\<forall>mt \<in> set (apMutators a). Mutator mt changed" and "\<And>obj. changed obj obj"
    and "prepare lib a objs options w0 = Done (Inr (s, tasks), w')" and "set objs \<subseteq> {..<nextRef w0}"
    and "applied = set (concat (map applies tasks))"
  shows "set objs \<subseteq> applied \<and>
    (\<forall>r < nextRef w0. metadata_of (objHeap w') r = metadata_of (objHeap w0) r \<and>
       changed (objHeap w0 r) (objHeap w' r) \<and> (r \<notin> set objs \<longrightarrow> objHeap w' r = objHeap w0 r)) \<and>
    (\<forall>r \<in> applied - set objs. nextRef w0 \<le> r \<and>
       (\<exists>obj \<in> set objs. \<exists>new. made (objHeap w0 obj) new \<and> changed new (objHeap w' r)))"
proof (rule prepare_stages [OF assms(1-6)])
  fix rs w1 generated w2
  assume loaded: "grown w0 w1" and new: "generated_from made objs w1 generated w2"
    and mutated: "\<forall>r. metadata_of (objHeap w') r = metadata_of (objHeap w2) r \<and> changed (objHeap w2 r) (objHeap w' r) \<and>
      (r \<notin> set (objs @ generated) \<longrightarrow> objHeap w' r = objHeap w2 r)"
    and "set (concat (map applies tasks)) = set objs \<union> set generated"
  then have applied: "applied = set objs \<union> set generated" using assms(7) by simp
  have w2: "grown w0 w2" using loaded new grown_trans by (auto simp: generated_from_def)
  have "metadata_of (objHeap w') r = metadata_of (objHeap w0) r \<and> changed (objHeap w0 r) (objHeap w' r) \<and>
      (r \<notin> set objs \<longrightarrow> objHeap w' r = objHeap w0 r)" if "r < nextRef w0" for r
  proof -
    have "objHeap w2 r = objHeap w0 r" using w2 that by (simp add: grown_def)
    moreover have "r \<notin> set generated" using new loaded that by (auto simp: generated_from_def grown_def)
    ultimately show ?thesis
      using mutated [rule_format, of r] by (simp add: metadata_of_def)
  qed
  moreover have "nextRef w0 \<le> r \<and> (\<exists>obj \<in> set objs. \<exists>new. made (objHeap w0 obj) new \<and> changed new (objHeap w' r))"
    if "r \<in> applied - set objs" for r
  proof -
    have "r \<in> set generated" using that applied by blast
    then obtain obj where obj: "nextRef w1 \<le> r" "obj \<in> set objs" "made (objHeap w1 obj) (objHeap w2 r)"
      using new by (auto simp: generated_from_def)
    have "objHeap w1 obj = objHeap w0 obj" using loaded obj(2) assms(6) by (auto simp: grown_def)
    moreover have "nextRef w0 \<le> r" using loaded obj(1) by (simp add: grown_def)
    ultimately show ?thesis using obj(2,3) mutated by metis
  qed
  ultimately show ?thesis using applied by blast
qed

text \<open>What was loaded stays the resource it was.\<close>

lemma prepare_keeps_loaded:
  assumes "client_ok (rtMapper (apRuntime a)) (rtClient (apRuntime a))"
    and "\<forall>rg \<in> set (apGenerators a). Generator rg made"
    and "\<forall>mt \<in> set (apMutators a). Mutator mt changed" and "\<And>obj. changed obj obj"
    and "prepare lib a objs options w0 = Done (Inr (s, tasks), w')" and "set objs \<subseteq> {..<nextRef w0}"
    and "store_Load (rtStore (apRuntime a)) (apInventory a) (remote w0) = (Inr ids, rem)"
    and "w1 = gets (Get (rtMapper (apRuntime a)) (rtClient (apRuntime a))) ids (w0 \<lparr> cache := [], remote := rem \<rparr>)"
    and "r < nextRef w1"
  shows "metadata_of (objHeap w') r = metadata_of (objHeap w1) r"
proof (rule prepare_stages [OF assms(1-6)])
  fix rs w1' generated w2
  assume load: "loadObjectsFromInventory (rtStore (apRuntime a)) (apInventory a)
      (Get (rtMapper (apRuntime a)) (rtClient (apRuntime a))) (w0 \<lparr> cache := [] \<rparr>) = (Inr rs, w1')"
    and new: "generated_from made objs w1' generated w2"
    and mutated: "\<forall>r. metadata_of (objHeap w') r = metadata_of (objHeap w2) r \<and> changed (objHeap w2 r) (objHeap w' r) \<and>
      (r \<notin> set (objs @ generated) \<longrightarrow> objHeap w' r = objHeap w2 r)"
  have "w1' = w1" using loaded_world [OF assms(1) load] assms(7,8) by blast
  then have "objHeap w2 r = objHeap w1 r" using new assms(9) by (simp add: generated_from_def grown_def)
  then show ?thesis using mutated by (simp add: metadata_of_def)
qed

text \<open>
  C10: What a run with the job generators and the labels mutators of the library applies: its
  manifests and, besides, only objects that are new, each of them the job made from a manifest
  that is a cron job with the annotation of a generator. No run changes which resource a
  manifest is: it only gains labels and keeps those it had, and so do the jobs. An object that
  is no manifest is left as it is.
\<close>

theorem run_applies_manifests_and_jobs:
  assumes "client_ok (rtMapper (apRuntime a)) (rtClient (apRuntime a))"
    and "apGenerators a = map (\<lambda>g. NewJobGenerator g jobLib) gs"
    and "apMutators a = map (NewLabelsMutator validate) labels"
    and "prepare lib a objs options w0 = Done (Inr (s, tasks), w')" and "set objs \<subseteq> {..<nextRef w0}"
    and "applied = set (concat (map applies tasks))"
  shows "set objs \<subseteq> applied \<and>
    (\<forall>r < nextRef w0. metadata_of (objHeap w') r = metadata_of (objHeap w0) r \<and>
       only_labels (objHeap w0 r) (objHeap w' r) \<and> (r \<notin> set objs \<longrightarrow> objHeap w' r = objHeap w0 r)) \<and>
    (\<forall>r \<in> applied - set objs. nextRef w0 \<le> r \<and>
       (\<exists>obj \<in> set objs. \<exists>job. (\<exists>g \<in> set gs. job_of g jobLib (objHeap w0 obj) job) \<and> only_labels job (objHeap w' r)))"
proof -
  have gens: "\<forall>rg \<in> set (apGenerators a). Generator rg (\<lambda>obj job. \<exists>g \<in> set gs. job_of g jobLib obj job)"
    unfolding assms(2) using jobs.Generator_axioms by (auto intro: Generator_mono)
  have muts: "\<forall>mt \<in> set (apMutators a). Mutator mt only_labels"
    unfolding assms(3) using labels_only.Mutator_axioms by auto
  show ?thesis by (rule prepare_contracts [OF assms(1) gens muts only_labels_refl assms(4-6)])
qed

subsection \<open>Witness\<close>

definition example_cronjob :: "unit unstructured" where
  "example_cronjob = example_object (GroupVersionKind ''batch'' ''v1'' ''CronJob'') ''backup'' ''prod''
     \<lparr> objAnnotations := Some [(''run'', ''now'')] \<rparr>"

definition example_job_lib :: "(unit, unit, unit cluster process) job_lib" where
  "example_job_lib =
     \<lparr> toCronJob = (\<lambda>obj. Inr \<lparr> cjName = objName obj, cjNamespace = objNamespace obj, cjTemplateAnnotations = [],
         cjTemplateLabels = None, cjTemplateSpec = () \<rparr>),
       fromJob = (\<lambda>job. Inr (example_object (GroupVersionKind ''batch'' ''v1'' ''Job'') (jobName job) (jobNamespace job))),
       randRead = (\<lambda>w. (replicate 10 255, w)) \<rparr>"

definition manifest_applier :: "(unit, unit, unit, unit, unit cluster) Applier" where
  "manifest_applier = prune_applier
     \<lparr> apGenerators := map (\<lambda>g. NewJobGenerator g example_job_lib) [\<lparr> genAnnotation = ''run'', genValue = ''now'' \<rparr>],
       apMutators := map (NewLabelsMutator (\<lambda>ls. [])) [[(''team'', ''x'')]] \<rparr>"

definition manifest_world :: "(unit, unit cluster process) world" where
  "manifest_world = prune_world \<lparr> objHeap := (\<lambda>r. example_cronjob) \<rparr>"

definition manifest_summary where
  "manifest_summary =
     (case prepare no_conversion manifest_applier [0] applier_options manifest_world of
        Done (Inr (s, tasks), w') \<Rightarrow> Some (concat (map applies tasks), objName (objHeap w' 4))
      | _ \<Rightarrow> None)"

lemma manifest_summary_value: "manifest_summary = Some ([0, 4], ''backup-fffff'')"
  by code_simp

theorem run_applies_manifests_and_jobs_witness:
  "\<exists>s tasks w'. prepare no_conversion manifest_applier [0] applier_options manifest_world = Done (Inr (s, tasks), w') \<and>
     set (concat (map applies tasks)) = {0, 4} \<and> objName (objHeap w' 4) = ''backup-fffff'' \<and>
     (\<exists>job g. job_of g example_job_lib example_cronjob job \<and> only_labels job (objHeap w' 4))"
proof -
  obtain s tasks w' where run: "prepare no_conversion manifest_applier [0] applier_options manifest_world = Done (Inr (s, tasks), w')"
    and evaluated: "concat (map applies tasks) = [0, 4]" "objName (objHeap w' 4) = ''backup-fffff''"
    using manifest_summary_value unfolding manifest_summary_def by (auto split: exec.splits prod.splits sum.splits)
  have client: "client_ok (rtMapper (apRuntime manifest_applier)) (rtClient (apRuntime manifest_applier))"
    by (simp add: manifest_applier_def prune_applier_def process_client_ok cluster_client_ok)
  have plugins: "apGenerators manifest_applier =
      map (\<lambda>g. NewJobGenerator g example_job_lib) [\<lparr> genAnnotation = ''run'', genValue = ''now'' \<rparr>]"
    "apMutators manifest_applier = map (NewLabelsMutator (\<lambda>ls. [])) [[(''team'', ''x'')]]"
    by (simp_all add: manifest_applier_def)
  have known: "set [0] \<subseteq> {..<nextRef manifest_world}" by (simp add: manifest_world_def prune_world_def)
  have "4 \<in> set (concat (map applies tasks)) - set [0]" by (simp only: evaluated) simp
  then have "\<exists>obj \<in> set [0]. \<exists>job. (\<exists>g \<in> set [\<lparr> genAnnotation = ''run'', genValue = ''now'' \<rparr>].
      job_of g example_job_lib (objHeap manifest_world obj) job) \<and> only_labels job (objHeap w' 4)"
    using run_applies_manifests_and_jobs [OF client plugins run known refl] by blast
  then have "\<exists>job g. job_of g example_job_lib example_cronjob job \<and> only_labels job (objHeap w' 4)"
    by (auto simp: manifest_world_def)
  moreover have "set (concat (map applies tasks)) = {0, 4}" by (simp only: evaluated list.set)
  ultimately show ?thesis using run evaluated(2) by blast
qed

subsection \<open>From a reader to the run\<close>

text \<open>The manifests of a reader reach the run as the resources they were when they were read.\<close>

context Reader
begin

lemma read_then_prepare:
  assumes "read h n = ((refs, None), objHeap w0, nextRef w0)"
    and "client_ok (rtMapper (apRuntime a)) (rtClient (apRuntime a))"
    and "\<forall>rg \<in> set (apGenerators a). Generator rg made"
    and "\<forall>mt \<in> set (apMutators a). Mutator mt changed" and "\<And>obj. changed obj obj"
    and "prepare lib a refs options w0 = Done (Inr (s, tasks), w')" and "r \<in> set refs"
  shows "r \<in> set (concat (map applies tasks)) \<and> placed refs (objHeap w0) r \<and>
    metadata_of (objHeap w') r = metadata_of (objHeap w0) r"
proof -
  have known: "set refs \<subseteq> {..<nextRef w0}" using read_new [OF assms(1)] by auto
  note contracts = prepare_contracts [OF assms(2-6) known refl]
  from known assms(7) have "r < nextRef w0" by blast
  with contracts have "metadata_of (objHeap w') r = metadata_of (objHeap w0) r" by blast
  moreover have "r \<in> set (concat (map applies tasks))" using contracts assms(7) by blast
  ultimately show ?thesis using read_placed [OF assms(1,7)] by blast
qed

end

lemma metadata_of_namespace:
  assumes "metadata_of h r = metadata_of h' r"
  shows "objNamespace (h r) = objNamespace (h' r)"
proof -
  obtain n ns g k where ident: "metadata_of h' r = ObjectMetadata n ns g k" by (rule ObjectMetadata.exhaust)
  with assms have "metadata_of h r = ObjectMetadata n ns g k" by simp
  with ident show ?thesis unfolding metadata_of_def ObjectMetadata_inject_parts by simp
qed

lemma well_placed_namespace:
  "objNamespace obj = objNamespace obj' \<Longrightarrow> well_placed scope namespace enforce obj = well_placed scope namespace enforce obj'"
  by (simp add: well_placed_def split: sum.split RESTScope.split)

text \<open>
  C11: The namespaces of a run: when a reader of files or of a stream with a namespace has
  returned its objects without an error and a run is made of them, with generators and mutators
  that keep their contracts, then each of them is applied, and it is applied where it belongs:
  of cluster scope in no namespace, of namespaced scope in the namespace of the configuration,
  or in its own if that is not enforced.
\<close>

theorem namespaces_reach_the_run:
  assumes "Read gvkText conv kio rd h n = ((refs, None), objHeap w0, nextRef w0)"
    and "spec_only conv" and "cfg = configs_of rd" and "EnforceNamespace cfg \<or> ReaderNamespace cfg \<noteq> []"
    and "client_ok (rtMapper (apRuntime a)) (rtClient (apRuntime a))"
    and "\<forall>rg \<in> set (apGenerators a). Generator rg made"
    and "\<forall>mt \<in> set (apMutators a). Mutator mt changed" and "\<And>obj. changed obj obj"
    and "prepare lib a refs options w0 = Done (Inr (s, tasks), w')"
    and "scope = (\<lambda>r. Scope conv (objHeap w0) (objHeap w0 r) (Mapper cfg) (FindCRDs (objHeap w0) refs))"
  shows "\<forall>r \<in> set refs. r \<in> set (concat (map applies tasks)) \<and>
    well_placed (scope r) (ReaderNamespace cfg) (EnforceNamespace cfg) (objHeap w' r)"
proof
  fix r
  assume "r \<in> set refs"
  note result = readers.read_then_prepare [OF assms(1,5-9) this]
  have "well_placed (scope r) (ReaderNamespace cfg) (EnforceNamespace cfg) (objHeap w0 r)"
    using result assms(2,4) unfolding placed_by_def assms(3,10) by blast
  moreover have "objNamespace (objHeap w' r) = objNamespace (objHeap w0 r)"
    using result metadata_of_namespace by blast
  ultimately show "r \<in> set (concat (map applies tasks)) \<and>
      well_placed (scope r) (ReaderNamespace cfg) (EnforceNamespace cfg) (objHeap w' r)"
    using result well_placed_namespace by blast
qed

definition example_kio :: "(unit source, unit, unit) kio_lib" where
  "example_kio = \<lparr> readNodes = (\<lambda>src. Inr [()]), MarshalJSON = (\<lambda>node. Inr ''secret''),
     Unmarshal = (\<lambda>data. Inr (example_object (GroupVersionKind [] ''v1'' ''Secret'') ''a'' [])), writerFailed = (\<lambda>e. e) \<rparr>"

definition example_reader :: "unit Reader" where
  "example_reader = StreamReader \<lparr> Mapper = example_scopes, ReaderNamespace = ''prod'', EnforceNamespace = True \<rparr> ()"

definition read_world :: "(unit, unit cluster process) world" where
  "read_world = (case Read (\<lambda>gvk. gvk_kind gvk) no_conversion example_kio example_reader example_heap3 3 of
     (res, h, n) \<Rightarrow> prune_world \<lparr> objHeap := h, nextRef := n \<rparr>)"

definition read_summary where
  "read_summary =
     (case prepare no_conversion prune_applier [3] applier_options read_world of
        Done (Inr (s, tasks), w') \<Rightarrow>
          Some (fst (Read (\<lambda>gvk. gvk_kind gvk) no_conversion example_kio example_reader example_heap3 3),
            Scope no_conversion (objHeap read_world) (objHeap read_world 3) example_scopes (FindCRDs (objHeap read_world) [3]))
      | _ \<Rightarrow> None)"

lemma read_summary_value: "read_summary = Some (([3], None), Inr RESTScopeNamespace)"
  by code_simp

theorem namespaces_reach_the_run_witness:
  "\<exists>s tasks w'. prepare no_conversion prune_applier [3] applier_options read_world = Done (Inr (s, tasks), w') \<and>
     3 \<in> set (concat (map applies tasks)) \<and> objNamespace (objHeap w' 3) = ''prod''"
proof -
  let ?read = "Read (\<lambda>gvk. gvk_kind gvk) no_conversion example_kio example_reader example_heap3 3"
  obtain s tasks w' where run: "prepare no_conversion prune_applier [3] applier_options read_world = Done (Inr (s, tasks), w')"
    and evaluated: "fst ?read = ([3], None)"
      "Scope no_conversion (objHeap read_world) (objHeap read_world 3) example_scopes (FindCRDs (objHeap read_world) [3]) =
        Inr RESTScopeNamespace"
    using read_summary_value unfolding read_summary_def by (auto split: exec.splits prod.splits sum.splits)
  then have read: "?read = (([3], None), objHeap read_world, nextRef read_world)"
    unfolding read_world_def by (cases ?read) (simp add: prune_world_def split: prod.splits)
  have spec: "spec_only no_conversion" by (simp add: spec_only_def no_conversion_def)
  have client: "client_ok (rtMapper (apRuntime prune_applier)) (rtClient (apRuntime prune_applier))"
    by (simp add: prune_applier_def process_client_ok cluster_client_ok)
  have cfg: "configs_of example_reader = \<lparr> Mapper = example_scopes, ReaderNamespace = ''prod'', EnforceNamespace = True \<rparr>"
    by (simp add: example_reader_def)
  have plugins: "\<forall>rg \<in> set (apGenerators prune_applier). Generator rg (\<lambda>a b. True)"
    "\<forall>mt \<in> set (apMutators prune_applier). Mutator mt (=)"
    by (simp_all add: prune_applier_def)
  have enforced: "EnforceNamespace (configs_of example_reader) \<or> ReaderNamespace (configs_of example_reader) \<noteq> []"
    by (simp add: cfg)
  note result = namespaces_reach_the_run [OF read spec refl enforced client plugins refl run refl, THEN bspec, of 3,
      unfolded cfg ReaderConfigs.select_convs evaluated(2)]
  have "3 \<in> set [3 :: ref]" by simp
  from result [OF this] show ?thesis using run by (auto simp: well_placed_def)
qed

end
