(* ===== verification/Applier_Runs.thy ===== *)
theory Applier_Runs
  imports Applier_Manifests
begin

text \<open>
  What whole runs of the applier leave behind: the report that the events of a run give of its
  objects, and what the run after it prunes.
\<close>

subsection \<open>The events of a run\<close>

text \<open>The events that a task may send.\<close>

fun task_log :: "('c, 'w) Task \<Rightarrow> Event list \<Rightarrow> bool" where
  "task_log (Apply t) es \<longleftrightarrow> apply_log (applyObjects t) es"
| "task_log (Prune t) es \<longleftrightarrow>
     (\<forall>e \<in> set es. evType e = TypePrune \<and> (\<exists>obj \<in> set (pruneTaskObjects t). event_object e = Some obj))"
| "task_log _ es \<longleftrightarrow> (\<forall>e \<in> set es. event_object e = None)"

text \<open>A poller sends statuses and errors.\<close>

definition polite :: "('c, 'b, 'm, 's, 'w) runtime \<Rightarrow> bool" where
  "polite rt \<longleftrightarrow> (\<forall>w objs. \<forall>e \<in> set (fst (rtPoller rt w objs)). evType e \<in> {TypeStatusUpdate, TypeError})"

lemma prune_events_about: "e \<in> set (prune_events obj res) \<Longrightarrow> evType e = TypePrune \<and> event_object e = Some obj"
  by (auto simp: prune_events_def split: option.splits if_splits)

lemma PruneTask_Run_log:
  "\<exists>es. fst (PruneTask_Run mapper client RunnerState_ops t st v) = send_all RunnerState_ops es st \<and> task_log (Prune t) es"
proof -
  let ?answers = "prune_answers mapper client (objHeap v) (pruneDryRun t) (pruneTaskObjects t) (remote v)"
  let ?es = "concat (map2 prune_events (pruneTaskObjects t) ?answers)"
  have "task_log (Prune t) ?es"
    using prune_events_about by (fastforce dest: set_zip_leftD)
  moreover have "fst (PruneTask_Run mapper client RunnerState_ops t st v) = send_all RunnerState_ops ?es st"
    unfolding PruneTask_Run_def by (rule PruneLoop_send_all)
  ultimately show ?thesis by blast
qed

lemma Task_Run_log:
  assumes "polite rt" and "Task_Run rt t s = Some s'"
  shows "\<exists>es. eventChannel (fst s') = eventChannel (fst s) @ es \<and> task_log t es"
proof -
  obtain st v where s: "s = (st, v)" by (rule prod.exhaust)
  show ?thesis
  proof (cases t)
    case (Apply a)
    then show ?thesis
      using assms(2) s ApplyTask_Run_sends [of a "rtPrinters rt" "rtRest rt" RunnerState_ops st v]
      by (auto simp: runner_state.log_send_all)
  next
    case (Wait objs)
    obtain st' v' how where run: "WaitTask_Run (rtMapper rt) (rtPoller rt (remote v)) RunnerState_ops objs st v = (st', v', how)"
      by (rule prod_cases3)
    obtain es where es: "set es \<subseteq> set (fst (rtPoller rt (remote v) (pollerObjects RunnerState_ops st objs)))"
      "st' = send_all RunnerState_ops es st"
      using WaitTask_Run_sends [OF run] by blast
    have "event_object e = None" if "e \<in> set es" for e
    proof -
      have "evType e \<in> {TypeStatusUpdate, TypeError}" using assms(1) es(1) that unfolding polite_def by blast
      then show ?thesis by (auto simp: event_object_def)
    qed
    then show ?thesis using Wait assms(2) s run es(2) by (auto simp: runner_state.log_send_all split: if_splits)
  next
    case (Prune p)
    then have s': "s' = PruneTask_Run (rtMapper rt) (rtClient rt) RunnerState_ops p st v"
      using assms(2) s by simp
    then show ?thesis
      using Prune s PruneTask_Run_log [of "rtMapper rt" "rtClient rt" p st v]
      by (auto simp: runner_state.log_send_all)
  next
    case (InventoryTask dry)
    obtain res m w where save: "SaveCurrentInventoryState (rtStore rt) (objHeap v) dry
        (manager (SendEvent RunnerState_ops (inventoryEvent EventPending None) st)) (remote v) = (res, m, w)"
      by (rule prod_cases3)
    have "s' = InventoryTask_Run (rtStore rt) dry st v" using InventoryTask assms(2) s by simp
    then show ?thesis
      unfolding InventoryTask_Run_result [OF save] using InventoryTask s
      by (intro exI [of _ "[inventoryEvent EventPending None, inventoryEvent (if res = None then EventSuccessful else EventFailed) res]"])
         (simp add: runner_state.log_SendEvent)
  qed
qed

lemma run_tasks_log:
  assumes "polite rt" and "run_tasks (Task_Run rt) ts s = Some s'"
  shows "\<exists>ess. eventChannel (fst s') = eventChannel (fst s) @ concat ess \<and> list_all2 task_log ts ess"
  using assms(2)
proof (induction ts arbitrary: s)
  case Nil
  then show ?case by (intro exI [of _ "[]"]) simp
next
  case (Cons t ts)
  then obtain s1 where s1: "Task_Run rt t s = Some s1" "run_tasks (Task_Run rt) ts s1 = Some s'"
    by (auto split: option.splits)
  obtain es where es: "eventChannel (fst s1) = eventChannel (fst s) @ es" "task_log t es"
    using Task_Run_log [OF assms(1) s1(1)] by blast
  obtain ess where "eventChannel (fst s') = eventChannel (fst s1) @ concat ess" "list_all2 task_log ts ess"
    using Cons.IH [OF s1(2)] by blast
  with es show ?case by (intro exI [of _ "es # ess"]) simp
qed

subsection \<open>What a run reports\<close>

lemma finals_append: "finals obj (es @ es') = finals obj es @ finals obj es'"
  by (simp add: finals_def)

lemma finals_none: "\<forall>e \<in> set es. event_object e \<noteq> Some obj \<Longrightarrow> finals obj es = []"
  by (auto simp: finals_def filter_empty_conv)

lemma finals_outcome: "finals obj es = [] \<Longrightarrow> log_outcome s es obj = s"
  by (induction es arbitrary: s) (auto simp: log_outcome_def split: if_splits)

lemma task_log_about:
  "task_log t es \<Longrightarrow> e \<in> set es \<Longrightarrow> event_object e = Some obj \<Longrightarrow>
    obj \<in> set (applies t) \<and> evType e = TypeApply \<or> obj \<in> set (prunes t) \<and> evType e = TypePrune"
  using apply_log_events by (cases t) fastforce+

text \<open>
  The report on an object of an apply task: one final event, or none behind an object of the
  same task that failed because the server has no server-side apply.
\<close>

definition reported :: "('c, 'w) Task \<Rightarrow> Event list \<Rightarrow> ref \<Rightarrow> bool" where
  "reported t es obj \<longleftrightarrow> length (finals obj es) = 1 \<or>
     finals obj es = [] \<and> (\<exists>o' \<in> set (applies t). \<exists>err. has_reason UnsupportedMediaType err \<and>
       applyEvent EventFailed o' (Some err) \<in> set es)"

lemma task_log_reported:
  assumes "task_log t es" and "obj \<in> set (applies t)" and "distinct (applies t)"
  shows "reported t es obj"
proof -
  obtain a where t: "t = Apply a" using assms(2) by (cases t) auto
  obtain tried rest where split: "log_split (applyObjects a) es tried rest"
    using apply_log_split assms(1,3) t by fastforce
  show ?thesis
  proof (cases "obj \<in> set tried")
    case True
    with split show ?thesis by (simp add: reported_def log_split_def)
  next
    case False
    then have behind: "obj \<in> set rest" using split assms(2) t by (auto simp: log_split_def)
    then have "finals obj es = []" using split by (intro finals_none) (simp add: log_split_def)
    moreover from behind split obtain err where "tried \<noteq> []" "es \<noteq> []" "has_reason UnsupportedMediaType err"
      "last es = applyEvent EventFailed (last tried) (Some err)"
      by (auto simp: log_split_def)
    moreover have "last tried \<in> set (applies t)"
      using split t \<open>tried \<noteq> []\<close> by (simp add: log_split_def)
    ultimately show ?thesis unfolding reported_def by (metis last_in_set)
  qed
qed

lemma reported_more:
  assumes "reported t es obj" and "finals obj es1 = []" and "finals obj es2 = []"
  shows "reported t (es1 @ es @ es2) obj"
  using assms by (auto simp: reported_def finals_append)

lemma task_logs_about:
  assumes "list_all2 task_log ts ess" and "e \<in> set (concat ess)" and "event_object e = Some obj"
  shows "obj \<in> set (concat (map applies ts)) \<and> evType e = TypeApply \<or>
    obj \<in> set (concat (map prunes ts)) \<and> evType e = TypePrune"
  using assms
proof (induction rule: list_all2_induct)
  case (Cons t ts es ess)
  then show ?case using task_log_about by fastforce
qed simp

lemma task_logs_silent:
  assumes "list_all2 task_log ts ess" and "obj \<notin> set (concat (map applies ts))" and "obj \<notin> set (concat (map prunes ts))"
  shows "finals obj (concat ess) = []"
  using task_logs_about [OF assms(1)] assms(2,3) by (intro finals_none) blast

lemma task_logs_reported:
  assumes "list_all2 task_log ts ess" and "distinct (concat (map applies ts))"
    and "obj \<in> set (concat (map applies ts))" and "obj \<notin> set (concat (map prunes ts))"
  shows "\<exists>t \<in> set ts. obj \<in> set (applies t) \<and> reported t (concat ess) obj"
  using assms
proof (induction rule: list_all2_induct)
  case (Cons t ts es ess)
  show ?case
  proof (cases "obj \<in> set (applies t)")
    case True
    then have "obj \<notin> set (concat (map applies ts))" using Cons.prems(1) by auto
    then have "finals obj (concat ess) = []" using task_logs_silent [OF Cons.hyps(2)] Cons.prems(3) by simp
    moreover have "reported t es obj" using task_log_reported [OF Cons.hyps(1) True] Cons.prems(1) by simp
    ultimately have "reported t ([] @ es @ concat ess) obj" by (intro reported_more) simp_all
    with True show ?thesis by auto
  next
    case False
    have "finals obj es = []"
      using task_log_about [OF Cons.hyps(1)] False Cons.prems(3) by (intro finals_none) fastforce
    moreover obtain t' where "t' \<in> set ts" "obj \<in> set (applies t')" "reported t' (concat ess) obj"
      using Cons.IH Cons.prems False by auto
    moreover have "reported t' (es @ concat ess @ []) obj"
      using \<open>reported t' (concat ess) obj\<close> \<open>finals obj es = []\<close> by (rule reported_more) simp
    ultimately show ?thesis by auto
  qed
qed simp

lemma prepare_disjoint:
  assumes "prepare lib a objs options w0 = Done (Inr (s0, tasks), w')"
  shows "eventChannel (fst s0) = [] \<and> distinct (concat (map applies tasks)) \<and>
    set (concat (map applies tasks)) \<inter> set (concat (map prunes tasks)) = {}"
proof (rule prepare_Inr [OF assms])
  fix remoteObjects w1 generated w2 b opts
  assume "s0 = (\<lparr> eventChannel = [], manager = NewManager (apInventory a) remoteObjects \<rparr>, w')"
    and build: "Build lib (objHeap w') b opts = Done (Inr tasks)" and objects: "objects b = objs @ generated"
    and prune: "pruneObjects b = findObjectsToPrune (objHeap w') remoteObjects (objs @ generated)"
    and "optPrune opts"
  then show ?thesis
    using Build_applies [OF build] Build_pruned [OF build \<open>optPrune opts\<close>]
    unfolding prune objects by (auto simp: findObjectsToPrune_filter)
qed


text \<open>A server without server-side apply, and a group of two objects.\<close>

definition bail_applier :: "(unit, unit, unit, configMapStore, server) Applier" where
  "bail_applier = save_applier \<lparr> apRuntime := apRuntime save_applier \<lparr> rtRest := rtRest (apRuntime save_applier)
     \<lparr> patch := (\<lambda>r w. (Inl (LibraryError UnsupportedMediaType ''unsupported''), w)) \<rparr> \<rparr> \<rparr>"

definition bail_summary where
  "bail_summary =
     (case prepare no_conversion bail_applier [0, 1] save_options save_world of
        Done (Inr (s0, tasks), w') \<Rightarrow>
          (case run_tasks (Task_Run (apRuntime bail_applier)) tasks s0 of
             Some s \<Rightarrow> Some (concat (map applies tasks), map event_object (eventChannel (fst s)))
           | None \<Rightarrow> None)
      | _ \<Rightarrow> None)"

lemma bail_summary_value: "bail_summary = Some ([0, 1], [Some 0, Some 0, None, None])"
  by code_simp


subsection \<open>The next run\<close>

text \<open>A run only sets the objects of its inventory.\<close>

lemma Task_Run_Inventory:
  assumes "Task_Run rt t s = Some s'"
  shows "Inventory (manager (fst s')) = Inventory (manager (fst s)) \<or>
    (\<exists>objs. Inventory (manager (fst s')) = store_SetObjects (rtStore rt) objs (Inventory (manager (fst s))))"
proof -
  obtain st v where s: "s = (st, v)" by (rule prod.exhaust)
  show ?thesis
  proof (cases t)
    case (Apply a)
    then show ?thesis
      using assms s ApplyTask_Run_sends [of a "rtPrinters rt" "rtRest rt" RunnerState_ops st v] by auto
  next
    case (Wait objs)
    obtain st' v' how where run: "WaitTask_Run (rtMapper rt) (rtPoller rt (remote v)) RunnerState_ops objs st v = (st', v', how)"
      by (rule prod_cases3)
    with Wait assms s WaitTask_Run_sends [OF run] show ?thesis by (auto split: if_splits)
  next
    case (Prune p)
    then show ?thesis
      using assms s PruneTask_Run_sends [of "rtMapper rt" "rtClient rt" RunnerState_ops p st v] by auto
  next
    case (InventoryTask dry)
    let ?st1 = "SendEvent RunnerState_ops (inventoryEvent EventPending None) st"
    obtain res m w where save: "SaveCurrentInventoryState (rtStore rt) (objHeap v) dry (manager ?st1) (remote v) = (res, m, w)"
      by (rule prod_cases3)
    then have "Inventory m = store_SetObjects (rtStore rt) (newInventory (objHeap v) (manager ?st1)) (Inventory (manager st))"
      by (auto simp: SaveCurrentInventoryState_def Let_def split: prod.splits)
    moreover have "s' = InventoryTask_Run (rtStore rt) dry st v" using InventoryTask assms s by simp
    ultimately show ?thesis unfolding InventoryTask_Run_result [OF save] using s by auto
  qed
qed

definition same_inventory :: "('c, 's, 'w) store_ops \<Rightarrow> 's \<Rightarrow> 's \<Rightarrow> bool" where
  "same_inventory store = (\<lambda>i j. \<exists>objs. j = store_SetObjects store objs i)\<^sup>*\<^sup>*"

interpretation inventories:
  task_runner "Task_Run rt :: ('c, 'w) Task \<Rightarrow> ('c, 's, 'w) run_state \<Rightarrow> ('c, 's, 'w) run_state option"
    "\<lambda>s. same_inventory (rtStore rt) start (Inventory (manager (fst s)))"
  for rt :: "('c, 'b, 'm, 's, 'w) runtime" and start
proof
  fix st st' and t :: "('c, 'w) Task"
  assume before: "same_inventory (rtStore rt) start (Inventory (manager (fst st)))"
    and "Task_Run rt t st = Some st'"
  from Task_Run_Inventory [OF this(2)]
  show "same_inventory (rtStore rt) start (Inventory (manager (fst st')))"
  proof
    assume "\<exists>objs. Inventory (manager (fst st')) = store_SetObjects (rtStore rt) objs (Inventory (manager (fst st)))"
    with before show ?thesis unfolding same_inventory_def by (rule rtranclp.rtrancl_into_rtrancl)
  qed (use before in simp)
qed

lemma same_configMap:
  "same_inventory (configMap_ops cl) i j \<Longrightarrow> cmName j = cmName i \<and> cmNamespace j = cmNamespace i"
  unfolding same_inventory_def
  by (induction rule: rtranclp_induct) (auto simp: configMap_ops_def configMap_SetObjects_def)

lemma configMap_Load_place:
  "cmName i = cmName j \<Longrightarrow> cmNamespace i = cmNamespace j \<Longrightarrow> configMap_Load cl i w = configMap_Load cl j w"
  by (simp add: configMap_Load_def)

lemma image_unwanted: "f ` {x \<in> A. f x \<notin> B} = f ` A - B"
  by blast

lemma prepare_loads:
  assumes "prepare lib a objs options w0 = Done (Inr (s0, tasks), w')"
  shows "\<exists>ids rem. store_Load (rtStore (apRuntime a)) (apInventory a) (remote w0) = (Inr ids, rem)"
  using assms
  by (rule prepare_Inr) (auto simp: loadObjectsFromInventory_def split: prod.splits sum.splits)


text \<open>A first run that applies a secret, and a second one without manifests.\<close>

definition secret_client :: "(unit, server process) dynamic_client" where
  "secret_client = \<lparr> dyn_Get = (\<lambda>gvr ns n w. (case gvr of GroupVersionResource g version kind \<Rightarrow>
     (Inr (example_object (GroupVersionKind g version kind) n ns), w))), dyn_Delete = (\<lambda>gvr ns n opts w. (None, w)) \<rparr>"

definition rerun_applier :: "(unit, unit, unit, configMapStore, server) Applier" where
  "rerun_applier = save_applier \<lparr> apRuntime := apRuntime save_applier \<lparr> rtClient := secret_client \<rparr> \<rparr>"

definition rerun_summary where
  "rerun_summary =
     (case prepare no_conversion save_applier [0] save_options save_world of
        Done (Inr (s0, tasks), w') \<Rightarrow>
          (case run_tasks (Task_Run (apRuntime save_applier)) tasks s0 of
             Some s \<Rightarrow>
               (case prepare no_conversion rerun_applier [] save_options (save_world \<lparr> remote := remote (snd s) \<rparr>) of
                  Done (Inr (s2, tasks2), w2') \<Rightarrow>
                    Some (map (metadata_of (objHeap w2')) (concat (map prunes tasks2)), concat (map applies tasks2))
                | _ \<Rightarrow> None)
           | None \<Rightarrow> None)
      | _ \<Rightarrow> None)"

lemma rerun_summary_value: "rerun_summary = Some ([ObjectMetadata ''a'' ''prod'' [] ''Secret''], [])"
  by code_simp

lemma secret_client_ok: "client_ok (rtMapper (apRuntime rerun_applier)) (rtClient (apRuntime rerun_applier))"
  by (auto simp: client_ok_def rerun_applier_def save_applier_def secret_client_def cluster_mapping_def
      example_object_def objGK_def groupKind_def split: GroupVersionResource.splits)


end
