(* ===== verification/Applier_Order.thy ===== *)
theory Applier_Order
  imports Applier_Runs
begin

text \<open>
  The order of a run at work: what is known of the dependencies of an object when its turn
  comes. This composes the queue of \<open>queuebuilder.go\<close>, the loop of \<open>runner.go\<close> and the tasks that
  apply and wait.
\<close>

subsection \<open>Tasks and the heap\<close>

text \<open>A filter may look at remote objects, which only adds to the heap.\<close>

definition filter_ok :: "('c, 'w) filter_fn \<Rightarrow> bool" where
  "filter_ok f \<longleftrightarrow> (\<forall>obj w res w'. f obj w = (res, w') \<longrightarrow> grown w w')"

lemma filterLoop_grown:
  "\<forall>f \<in> set fs. filter_ok f \<Longrightarrow> filterLoop fs obj v = (e, v') \<Longrightarrow> grown v v'"
proof (induction fs arbitrary: v)
  case Nil
  then show ?case by (simp add: grown_refl)
next
  case (Cons f fs)
  obtain filtered err v1 where f: "f obj v = ((filtered, err), v1)" by (metis surj_pair)
  then have first: "grown v v1" using Cons.prems(1) by (simp add: filter_ok_def)
  show ?case
  proof (cases "err = None \<and> \<not> filtered")
    case True
    then have "filterLoop fs obj v1 = (e, v')" using Cons.prems(2) f by simp
    then have "grown v1 v'" using Cons.IH Cons.prems(1) by simp
    with first show ?thesis by (rule grown_trans)
  next
    case False
    then have "v' = v1" using Cons.prems(2) f by (auto split: option.splits if_splits)
    with first show ?thesis by simp
  qed
qed

lemma grown_remote: "grown v w \<Longrightarrow> grown v (w \<lparr> remote := p \<rparr>)"
  by (simp add: grown_def)

lemma ApplyLoop_grown:
  assumes "\<forall>f \<in> set (applyFilters t). filter_ok f"
  shows "ApplyLoop pr lib ops t objs st v = (st', v') \<Longrightarrow> grown v v'"
proof (induction objs arbitrary: st v)
  case Nil
  then show ?case by (simp add: grown_refl)
next
  case (Cons obj objs)
  obtain fe v1 where filter: "filterLoop (applyFilters t) obj v = (fe, v1)" by (rule prod.exhaust)
  have first: "grown v v1" by (rule filterLoop_grown [OF assms filter])
  have later: "grown v v'" if "ApplyLoop pr lib ops t objs st1 v2 = (st', v')" and "grown v v2" for st1 v2
    using Cons.IH [OF that(1)] grown_trans [OF that(2)] by blast
  show ?case
  proof (cases "fe = None \<and> (\<exists>i. applyInfoFetcher t (objHeap v1 obj) (remote v1) = Inr i)")
    case False
    then obtain st1 where "ApplyLoop pr lib ops t objs st1 v1 = (st', v')"
      using Cons.prems filter by (cases fe; cases "applyInfoFetcher t (objHeap v1 obj) (remote v1)") auto
    then show ?thesis using later first by blast
  next
    case True
    then obtain i where i: "applyInfoFetcher t (objHeap v1 obj) (remote v1) = Inr i" and fe: "fe = None" by blast
    obtain res p where call: "applyObject pr lib i (applyDryRun t) (applyFieldManager t) (remote v1) = (res, p)"
      by (rule prod.exhaust)
    have "v' = v1 \<lparr> remote := p \<rparr> \<or> (\<exists>st1. ApplyLoop pr lib ops t objs st1 (v1 \<lparr> remote := p \<rparr>) = (st', v'))"
      using Cons.prems filter fe i call by (cases res) (auto simp: Let_def split: if_splits)
    then show ?thesis using later grown_remote [OF first] by blast
  qed
qed

lemma PruneLoop_heap:
  "PruneLoop mapper client ops dry objs st v = (st', v') \<Longrightarrow> \<exists>w. v' = v \<lparr> remote := w \<rparr>"
proof (induction objs arbitrary: st v)
  case Nil
  then show ?case by (intro exI [of _ "remote v"]) simp
next
  case (Cons obj objs)
  obtain res w where call: "pruneObject mapper client (objHeap v obj) dry (remote v) = (res, w)" by (rule prod.exhaust)
  obtain st1 where "PruneLoop mapper client ops dry objs st1 (v \<lparr> remote := w \<rparr>) = (st', v')"
    using Cons.prems call by (cases res) (auto simp: Let_def)
  from Cons.IH [OF this] show ?case by auto
qed

fun task_filters :: "('c, 'w) Task \<Rightarrow> ('c, 'w) filter_fn list" where
  "task_filters (Apply t) = applyFilters t"
| "task_filters _ = []"

lemma Task_Run_grown:
  assumes "\<forall>f \<in> set (task_filters t). filter_ok f" and "Task_Run rt t s = Some s'"
  shows "grown (snd s) (snd s')"
proof -
  obtain st v st' v' where s: "s = (st, v)" "s' = (st', v')" by (metis surj_pair)
  show ?thesis
  proof (cases t)
    case (Apply a)
    then show ?thesis using assms s ApplyLoop_grown [of a] by (simp add: ApplyTask_Run_def)
  next
    case (Wait objs)
    obtain how st1 v1 where run: "WaitTask_Run (rtMapper rt) (rtPoller rt (remote v)) RunnerState_ops objs st v = (st1, v1, how)"
      by (metis surj_pair)
    then have "grown v v1"
      by (auto simp: WaitTask_Run_def Let_def grown_refl grown_def split: prod.splits if_splits)
    then show ?thesis using assms(2) s Wait run by (auto split: if_splits)
  next
    case (Prune p)
    then show ?thesis using assms(2) s PruneLoop_heap [of "rtMapper rt" "rtClient rt" RunnerState_ops]
      by (fastforce simp: PruneTask_Run_def grown_def)
  next
    case (InventoryTask dry)
    then show ?thesis using assms(2) s
      by (auto simp: InventoryTask_Run_def Let_def grown_def split: prod.splits option.splits)
  qed
qed

lemma run_tasks_grown:
  "\<forall>t \<in> set ts. \<forall>f \<in> set (task_filters t). filter_ok f \<Longrightarrow> run_tasks (Task_Run rt) ts s = Some s' \<Longrightarrow>
    grown (snd s) (snd s')"
proof (induction ts arbitrary: s)
  case Nil
  then show ?case by (simp add: grown_refl)
next
  case (Cons t ts)
  then obtain s1 where s1: "Task_Run rt t s = Some s1" "run_tasks (Task_Run rt) ts s1 = Some s'"
    by (auto split: option.splits)
  have "grown (snd s) (snd s1)" using Task_Run_grown [OF _ s1(1)] Cons.prems(1) by simp
  also have "grown (snd s1) (snd s')" using Cons.IH [OF _ s1(2)] Cons.prems(1) by simp
  finally (grown_trans) show ?case .
qed

subsection \<open>What a wait leaves behind\<close>

lemma ready_forwarded:
  "m \<in> set watch \<Longrightarrow> m \<in> ready_ids msgs \<Longrightarrow> m \<in> ready_ids (forwarded msgs watch)"
proof (induction msgs watch rule: forwarded.induct)
  case (2 msg msgs watch)
  show ?case
  proof (cases "succeeded msg \<and> update_of msg = m")
    case True
    with 2(3) show ?thesis by simp
  next
    case False
    then have "m \<in> ready_ids msgs" using 2(4) by (auto split: if_splits)
    moreover have "m \<in> set (if succeeded msg then removeAll (update_of msg) watch else watch)"
      using False 2(3) by auto
    ultimately show ?thesis using 2 by auto
  qed
qed simp

lemma ready_ids_append: "ready_ids (es @ es') = ready_ids es \<union> ready_ids es'"
  by (auto simp: ready_ids_def)

text \<open>
  A wait for the object, among the tasks that have run, whose poller closed its channel before it
  reported a success of the object.
\<close>

definition gave_up where
  "gave_up rt ts s obj ident \<longleftrightarrow> (\<exists>us waited later st v msgs. ts = us @ Wait waited # later \<and>
     run_tasks (Task_Run rt) us s = Some (st, v) \<and> obj \<in> set (pollerObjects RunnerState_ops st waited) \<and>
     rtPoller rt (remote v) (pollerObjects RunnerState_ops st waited) = (msgs, True) \<and> ident \<notin> ready_ids msgs)"

lemma wait_settles:
  assumes "Task_Run rt (Wait objs) (st, v) = Some (st', v')" and "obj \<in> set objs"
  shows "outcome (manager st) obj \<in> {Some ApplyFailed, Some Skipped} \<or>
    metadata_of (objHeap v) obj \<in> ready_ids (eventChannel st') \<or>
    (\<exists>msgs. obj \<in> set (pollerObjects RunnerState_ops st objs) \<and>
      rtPoller rt (remote v) (pollerObjects RunnerState_ops st objs) = (msgs, True) \<and>
      metadata_of (objHeap v) obj \<notin> ready_ids msgs)"
proof (cases "outcome (manager st) obj \<in> {Some ApplyFailed, Some Skipped}")
  case False
  let ?polled = "pollerObjects RunnerState_ops st objs"
  have polled: "obj \<in> set ?polled"
    using False assms(2) by (auto simp: pollerObjects_def RunnerState_ops_def RunnerState_SkipWait_def outcome_queries)
  then have nonempty: "?polled \<noteq> []" by auto
  obtain how where run: "WaitTask_Run (rtMapper rt) (rtPoller rt (remote v)) RunnerState_ops objs st v = (st', v', how)"
    and "how \<noteq> Some Blocked"
    using assms(1) by (auto split: prod.splits if_splits)
  then obtain h where how: "how = Some h" "h \<noteq> Blocked"
    by (metis nonempty WaitTask_Run_polls option.sel prod.inject)
  obtain msgs closed where start: "rtPoller rt (remote v) ?polled = (msgs, closed)" by (rule prod.exhaust)
  note sent = WaitTask_Run_forwards [OF run [unfolded how(1)] start refl]
  show ?thesis
  proof (cases "metadata_of (objHeap v) obj \<in> ready_ids msgs")
    case True
    have "metadata_of (objHeap v) obj \<in> set (watchedIds (objHeap v) ?polled)" using polled by simp
    from ready_forwarded [OF this True] sent show ?thesis by (simp add: ready_ids_append)
  next
    case unready: False
    then have "\<not> metadata_of (objHeap v) ` set ?polled \<subseteq> ready_ids msgs" using polled by blast
    then have "h = ChannelClosed"
      using WaitTask_Run_how [OF run [unfolded how(1)] start] how(2) by (cases h) auto
    then have "closed" using WaitTask_Run_how [OF run [unfolded how(1)] start] by blast
    with polled start unready show ?thesis by simp
  qed
qed simp

text \<open>Behind the task that applies an object its outcome stays, up to the task that prunes.\<close>

lemma outcome_stays:
  assumes "polite rt" and "run_tasks (Task_Run rt) ts s = Some s'" and "recorded s"
    and "obj \<notin> set (concat (map applies ts))" and "obj \<notin> set (concat (map prunes ts))"
  shows "outcome (manager (fst s')) obj = outcome (manager (fst s)) obj \<and>
    ready_ids (eventChannel (fst s)) \<subseteq> ready_ids (eventChannel (fst s'))"
proof -
  obtain ess where es: "eventChannel (fst s') = eventChannel (fst s) @ concat ess" and logs: "list_all2 task_log ts ess"
    using run_tasks_log [OF assms(1,2)] by blast
  have "recorded s'" by (rule tasks.run_tasks_invariant [OF assms(2,3)])
  then have "outcome (manager (fst s')) obj = log_outcome None (eventChannel (fst s')) obj"
    by (simp add: recorded_def)
  also have "\<dots> = log_outcome (log_outcome None (eventChannel (fst s)) obj) (concat ess) obj" by (simp add: es)
  also have "\<dots> = log_outcome None (eventChannel (fst s)) obj"
    by (rule finals_outcome [OF task_logs_silent [OF logs assms(4,5)]])
  also have "\<dots> = outcome (manager (fst s)) obj" using assms(3) by (simp add: recorded_def)
  finally show ?thesis using es by (simp add: ready_ids_append)
qed

subsection \<open>Dependents wait\<close>

lemma Build_task_filters:
  assumes "Build lib h b options = Done (Inr tasks)" and "t \<in> set tasks"
  shows "set (task_filters t) \<subseteq> set (queueFilters b)"
proof (rule Build_groups [OF assms(1)])
  fix gs
  assume "tasks = concat (map (groupTasks b options) gs) @ pruneTasks h b options @ [InventoryTask (optionDryRun options)]"
  then show ?thesis using assms(2) by (auto simp: groupTasks_def pruneTasks_def split: if_splits)
qed

text \<open>Where an object is applied by one task, the tasks in front of that task are known.\<close>

lemma applied_once:
  assumes "past @ t # rest = pre @ t2 # post" and "distinct (concat (map applies (past @ t # rest)))"
    and "obj \<in> set (applies t)" and "obj \<in> set (applies t2)"
  shows "past = pre"
  using assms
proof (induction past arbitrary: pre)
  case Nil
  then show ?case by (cases pre) auto
next
  case (Cons u past)
  then show ?case by (cases pre) auto
qed

lemma after_the_wait:
  assumes "polite rt" and "\<forall>u \<in> set ts. \<forall>f \<in> set (task_filters u). filter_ok f"
    and "ts = us @ Wait waited # later" and "dep \<in> set waited" and "dep < nextRef (snd s)"
    and "run_tasks (Task_Run rt) ts s = Some s'" and "recorded s"
    and "dep \<notin> set (concat (map applies later))" and "dep \<notin> set (concat (map prunes later))"
  shows "outcome (manager (fst s')) dep \<in> {Some ApplyFailed, Some Skipped} \<or>
    metadata_of (objHeap (snd s)) dep \<in> ready_ids (eventChannel (fst s')) \<or>
    gave_up rt ts s dep (metadata_of (objHeap (snd s)) dep)"
proof -
  obtain s1 s2 where s1: "run_tasks (Task_Run rt) us s = Some s1" and s2: "Task_Run rt (Wait waited) s1 = Some s2"
    and s': "run_tasks (Task_Run rt) later s2 = Some s'"
    using assms(6) by (auto simp: assms(3) run_tasks_append simp del: Task_Run.simps split: option.splits)
  have "grown (snd s) (snd s1)" by (rule run_tasks_grown [OF _ s1]) (use assms(2,3) in auto)
  then have meta: "metadata_of (objHeap (snd s1)) dep = metadata_of (objHeap (snd s)) dep"
    using assms(5) by (simp add: grown_def metadata_of_def)
  have rec: "recorded s1" by (rule tasks.run_tasks_invariant [OF s1 assms(7)])
  have step: "run_tasks (Task_Run rt) [Wait waited] s1 = Some s2" using s2 by (simp del: Task_Run.simps)
  note kept = outcome_stays [OF assms(1) step rec]
  have "recorded s2" by (rule tasks.run_tasks_invariant [OF step rec])
  note kept' = outcome_stays [OF assms(1) s' this assms(8,9)]
  obtain st v st2 v2 where s12: "s1 = (st, v)" "s2 = (st2, v2)" by (metis surj_pair)
  have "gave_up rt ts s dep (metadata_of (objHeap (snd s)) dep)"
    if "\<exists>msgs. dep \<in> set (pollerObjects RunnerState_ops st waited) \<and>
      rtPoller rt (remote v) (pollerObjects RunnerState_ops st waited) = (msgs, True) \<and>
      metadata_of (objHeap v) dep \<notin> ready_ids msgs"
    unfolding gave_up_def using that s1 assms(3) meta s12 by fastforce
  with wait_settles [OF s2 [unfolded s12] assms(4)] kept kept' meta show ?thesis
    unfolding s12 by (auto simp: s12)
qed

lemma dependency_settled:
  assumes "prepare lib a objs options w0 = Done (Inr (s0, tasks), w')"
    and "loadObjectsFromInventory (rtStore (apRuntime a)) (apInventory a)
       (Get (rtMapper (apRuntime a)) (rtClient (apRuntime a))) (w0 \<lparr> cache := [] \<rparr>) = (loaded, w1)"
    and "generateObjects (apGenerators a) objs w1 = ((generated, genErr), w2)"
    and "\<not> apDryRun options" and "\<not> apDisableWait options" and "polite (apRuntime a)"
    and "\<forall>f \<in> set (apFilters a). filter_ok f" and "set (objs @ generated) \<subseteq> {..<nextRef w'}"
    and "tasks = past @ t # rest" and "run_tasks (Task_Run (apRuntime a)) past s0 = Some s"
    and "obj \<in> set (applies t)" and "depends lib (objHeap w') (objs @ generated) obj dep"
  shows "log_outcome None (eventChannel (fst s)) dep \<in> {Some ApplyFailed, Some Skipped} \<or>
    metadata_of (objHeap w') dep \<in> ready_ids (eventChannel (fst s)) \<or>
    gave_up (apRuntime a) past s0 dep (metadata_of (objHeap w') dep)"
proof (rule prepare_Inr [OF assms(1)])
  fix remoteObjects w1' generated' w2' b opts
  assume "loadObjectsFromInventory (rtStore (apRuntime a)) (apInventory a)
       (Get (rtMapper (apRuntime a)) (rtClient (apRuntime a))) (w0 \<lparr> cache := [] \<rparr>) = (Inr remoteObjects, w1')"
    and "generateObjects (apGenerators a) objs w1' = ((generated', None), w2')" and "objects b = objs @ generated'"
    and s0: "s0 = (\<lparr> eventChannel = [], manager = NewManager (apInventory a) remoteObjects \<rparr>, w')"
    and build: "Build lib (objHeap w') b opts = Done (Inr tasks)"
    and opts: "optionDryRun opts = apDryRun options" "optWait opts = (\<not> apDisableWait options)"
    and filters: "queueFilters b = apFilters a"
  then have objects: "objects b = objs @ generated" using assms(2,3) by simp
  obtain ts1 t1 ts2 t2 ts3 waiting where queue: "tasks = (ts1 @ t1 # ts2) @ t2 # ts3" and t2: "obj \<in> set (applies t2)"
    and waiting: "waiting \<in> set ts2" "dep \<in> set (waits_for waiting)" and dep: "dep \<in> set (applies t1)"
    using Build_order [OF build, unfolded objects, OF assms(12)] opts assms(4,5) by auto
  note once = prepare_disjoint [OF assms(1)]
  have past: "past = ts1 @ t1 # ts2"
    by (rule applied_once [OF trans [OF assms(9) [symmetric] queue] _ assms(11) t2]) (simp only: assms(9) [symmetric] once)
  obtain us later waited where ts2: "ts2 = us @ Wait waited # later" "dep \<in> set waited"
    using waiting(2) split_list [OF waiting(1)] by (cases waiting) auto
  have rec: "recorded s0" unfolding s0 by (rule recorded_start)
  have "dep \<in> set (objs @ generated)"
    using Build_applies [OF build] dep objects queue by auto
  then have old: "dep < nextRef (snd s0)" using assms(8) s0 by auto
  have "dep \<notin> set (concat (map applies later))" "dep \<notin> set (concat (map prunes later))"
    using once dep unfolding queue ts2 by auto
  from after_the_wait [OF assms(6) _ _ ts2(2) old assms(10) rec this, of "ts1 @ t1 # us"]
  have "outcome (manager (fst s)) dep \<in> {Some ApplyFailed, Some Skipped} \<or>
      metadata_of (objHeap (snd s0)) dep \<in> ready_ids (eventChannel (fst s)) \<or>
      gave_up (apRuntime a) past s0 dep (metadata_of (objHeap (snd s0)) dep)"
    using Build_task_filters [OF build] filters assms(7) past ts2 queue by fastforce
  moreover have "recorded s" by (rule tasks.run_tasks_invariant [OF assms(10) rec])
  ultimately show ?thesis using s0 by (simp add: recorded_def)
qed

text \<open>
  C3: What is known of a dependency when the turn of an object comes, in a run that is not a dry
  run and waits: before the task that applies the object starts, whatever it depends on either
  has failed or was skipped, or its readiness was reported, or the poller that was asked to watch
  it closed its channel before it said so. Only the last case, which is how the poller shows that
  the run was interrupted or that the watching failed, leaves the order to chance.
\<close>

theorem dependents_wait:
  assumes "prepare lib a objs options w0 = Done (Inr (s0, tasks), w')"
    and "loadObjectsFromInventory (rtStore (apRuntime a)) (apInventory a)
       (Get (rtMapper (apRuntime a)) (rtClient (apRuntime a))) (w0 \<lparr> cache := [] \<rparr>) = (loaded, w1)"
    and "generateObjects (apGenerators a) objs w1 = ((generated, genErr), w2)"
    and "\<not> apDryRun options" and "\<not> apDisableWait options" and "polite (apRuntime a)"
    and "\<forall>f \<in> set (apFilters a). filter_ok f" and "set (objs @ generated) \<subseteq> {..<nextRef w'}"
    and "tasks = past @ t # rest" and "run_tasks (Task_Run (apRuntime a)) past s0 = Some s"
    and "obj \<in> set (applies t)" and "depends lib (objHeap w') (objs @ generated) obj dep"
  shows "log_outcome None (eventChannel (fst s)) dep \<in> {Some ApplyFailed, Some Skipped} \<or>
    metadata_of (objHeap w') dep \<in> ready_ids (eventChannel (fst s)) \<or>
    gave_up (apRuntime a) past s0 dep (metadata_of (objHeap w') dep)"
  by (rule dependency_settled [OF assms])

text \<open>A config map and its namespace, with a poller that finds everything ready.\<close>

definition order_applier :: "(unit, unit, unit, configMapStore, server) Applier" where
  "order_applier = save_applier \<lparr> apRuntime := apRuntime save_applier
     \<lparr> rtPoller := (\<lambda>w objs. (map (\<lambda>r. ready_message (metadata_of run_heap r)) objs, False)) \<rparr> \<rparr>"

definition order_world :: "(unit, server process) world" where
  "order_world = save_world \<lparr> objHeap := run_heap, nextRef := 2 \<rparr>"

definition order_options :: ApplierOptions where
  "order_options = save_options \<lparr> apDisableWait := False \<rparr>"

definition order_summary where
  "order_summary =
     (case prepare no_conversion order_applier [0, 1] order_options order_world of
        Done (Inr (s0, tasks), w') \<Rightarrow>
          (case run_tasks (Task_Run (apRuntime order_applier)) (take 2 tasks) s0 of
             Some s \<Rightarrow> Some (map applies tasks, nextRef w', map (objHeap w') [0, 1],
               log_outcome None (eventChannel (fst s)) 1)
           | None \<Rightarrow> None)
      | _ \<Rightarrow> None)"

lemma order_summary_value:
  "order_summary = Some ([[1], [], [0], [], []], 2, map run_heap [0, 1], Some ApplySuccessfull)"
  by code_simp

lemma third_task:
  assumes "map applies tasks = [[1], [], [0], [], []]"
  shows "tasks = take 2 tasks @ tasks ! 2 # drop 3 tasks" and "0 \<in> set (applies (tasks ! 2))"
proof -
  have len: "length tasks = 5" using arg_cong [OF assms, of length] by simp
  then show "tasks = take 2 tasks @ tasks ! 2 # drop 3 tasks"
    using id_take_nth_drop [of 2 tasks] by (simp add: numeral_eq_Suc)
  show "0 \<in> set (applies (tasks ! 2))" using arg_cong [OF assms, of "\<lambda>xs. xs ! 2"] len by simp
qed

lemma run_heap_depends:
  "h 0 = run_heap 0 \<Longrightarrow> h 1 = run_heap 1 \<Longrightarrow> depends no_conversion h ([0, 1] @ []) 0 1"
  by (simp add: depends_def current_def last_where_def with_metadata_def is_namespace_def run_heap_def
      example_object_def IsNamespace_def objGK_def groupKind_def namespaceGK_def ObjectMetadataFromUnstructured_def)

theorem dependents_wait_witness:
  "\<exists>s0 tasks w' s. prepare no_conversion order_applier [0, 1] order_options order_world = Done (Inr (s0, tasks), w') \<and>
     0 \<in> set (applies (tasks ! 2)) \<and> run_tasks (Task_Run (apRuntime order_applier)) (take 2 tasks) s0 = Some s \<and>
     metadata_of (objHeap w') 1 \<in> ready_ids (eventChannel (fst s))"
proof -
  obtain s0 tasks w' where p: "prepare no_conversion order_applier [0, 1] order_options order_world = Done (Inr (s0, tasks), w')"
    using order_summary_value unfolding order_summary_def by (auto split: exec.splits prod.splits sum.splits)
  obtain s where s: "run_tasks (Task_Run (apRuntime order_applier)) (take 2 tasks) s0 = Some s"
    using order_summary_value unfolding order_summary_def p by (auto split: option.splits)
  have evaluated: "map applies tasks = [[1], [], [0], [], []]" "nextRef w' = 2" "objHeap w' 0 = run_heap 0"
    "objHeap w' 1 = run_heap 1" "log_outcome None (eventChannel (fst s)) 1 = Some ApplySuccessfull"
    using order_summary_value unfolding order_summary_def p by (simp_all add: s)
  obtain loaded w1 where load: "loadObjectsFromInventory (rtStore (apRuntime order_applier)) (apInventory order_applier)
      (Get (rtMapper (apRuntime order_applier)) (rtClient (apRuntime order_applier))) (order_world \<lparr> cache := [] \<rparr>) = (loaded, w1)"
    by (rule prod.exhaust)
  have gen: "generateObjects (apGenerators order_applier) [0, 1] w1 = (([], None), w1)"
    by (simp add: generateObjects_def order_applier_def save_applier_def)
  have options: "\<not> apDryRun order_options" "\<not> apDisableWait order_options"
    by (simp_all add: order_options_def save_options_def)
  have polite: "polite (apRuntime order_applier)"
    by (auto simp: polite_def order_applier_def ready_message_def)
  have filters: "\<forall>f \<in> set (apFilters order_applier). filter_ok f"
    by (simp add: order_applier_def save_applier_def)
  have old: "set ([0, 1] @ []) \<subseteq> {..<nextRef w'}" using evaluated(2) by simp
  have "\<not> gave_up (apRuntime order_applier) (take 2 tasks) s0 1 (metadata_of (objHeap w') 1)"
    by (simp add: gave_up_def order_applier_def)
  with dependents_wait [OF p load gen options polite filters old third_task(1) [OF evaluated(1)] s
      third_task(2) [OF evaluated(1)] run_heap_depends [OF evaluated(3,4)]] evaluated(5)
  have "metadata_of (objHeap w') 1 \<in> ready_ids (eventChannel (fst s))" by simp
  with p s third_task(2) [OF evaluated(1)] show ?thesis by blast
qed

end
