(* ===== verification/Applier_Interrupted.thy ===== *)
theory Applier_Interrupted
  imports Applier_Order
begin

text \<open>
  Runs that do not get to the end of their queue, because they were interrupted or because their
  time was over: what they leave in the inventory, and what the next run makes of it.
\<close>

subsection \<open>Requests that spare the inventory\<close>

text \<open>
  \<open>load\<close> is something that is read from the remote side. It does not depend on the standard
  error, and the requests of the tasks that apply, wait and prune leave it alone.
\<close>

definition spares :: "('w process \<Rightarrow> 'x) \<Rightarrow> ('c, 'b, 'm, 's, 'w) runtime \<Rightarrow> bool" where
  "spares load rt \<longleftrightarrow>
     (\<forall>p es. load (p \<lparr> procStderr := es \<rparr>) = load p) \<and>
     (\<forall>q p. load (p \<lparr> procRemote := snd (patch (rtRest rt) q (procRemote p)) \<rparr>) = load p) \<and>
     (\<forall>i p. load (p \<lparr> procRemote := snd (info_Get (rtRest rt) i (procRemote p)) \<rparr>) = load p) \<and>
     (\<forall>gvr ns n opts p. load (snd (dyn_Delete (rtClient rt) gvr ns n opts p)) = load p) \<and>
     (\<forall>p. load (reset_mapper (rtMapper rt) p) = load p)"

definition filter_spares :: "('w process \<Rightarrow> 'x) \<Rightarrow> ('c, 'w) filter_fn \<Rightarrow> bool" where
  "filter_spares load f \<longleftrightarrow> (\<forall>obj w. load (remote (snd (f obj w))) = load (remote w))"

lemma do_patch_spares:
  "spares load rt \<Longrightarrow> do_patch (rtRest rt) q p = (res, p') \<Longrightarrow> load p' = load p"
  by (auto simp: spares_def do_patch_def Let_def split_beta)

lemma info_Get_spares:
  "spares load rt \<Longrightarrow> info_Get (rtRest rt) i (procRemote p) = (res, w) \<Longrightarrow> load (p \<lparr> procRemote := w \<rparr>) = load p"
  unfolding spares_def by (drule conjunct2, drule conjunct2, drule conjunct1, drule spec [of _ i], drule spec [of _ p]) simp

lemma dyn_Delete_spares:
  assumes "spares load rt" and "dyn_Delete (rtClient rt) gvr ns n opts p = (res, w)"
  shows "load w = load p"
proof -
  have "load (snd (dyn_Delete (rtClient rt) gvr ns n opts p)) = load p" using assms(1) by (simp add: spares_def)
  with assms(2) show ?thesis by simp
qed

lemma warn_spares: "spares load rt \<Longrightarrow> load (warn t p) = load p"
  by (simp add: spares_def warn_def)

lemma warnIfDeleting_spares: "spares load rt \<Longrightarrow> load (warnIfDeleting obj p) = load p"
  by (simp add: warnIfDeleting_def warn_spares)

lemma migrateLoop_spares:
  assumes "spares load rt"
  shows "migrateLoop (rtRest rt) ms fm n err i p = (res, i', p') \<Longrightarrow> load p' = load p"
proof (induction n arbitrary: err i p)
  case (Suc n)
  show ?case
  proof (cases "\<exists>data. upgradeManagedFieldsPatch (rtRest rt) (infoObject i) ms fm = Inr (Some data)")
    case False
    then show ?thesis using Suc.prems by (auto split: sum.splits option.splits)
  next
    case True
    then obtain data where data: "upgradeManagedFieldsPatch (rtRest rt) (infoObject i) ms fm = Inr (Some data)" ..
    let ?o = "\<lparr> optForce = None, optFieldManager = fm, optFieldValidation = [], optDryRun = [] \<rparr>"
    obtain r p1 where call: "do_patch (rtRest rt) (infoRequest JSONPatchType i ?o data) p = (r, p1)"
      by (rule prod.exhaust)
    note first = do_patch_spares [OF assms call]
    obtain g w where get: "info_Get (rtRest rt) i (procRemote p1) = (g, w)" by (rule prod.exhaust)
    note second = info_Get_spares [OF assms get]
    have "p' = p1 \<or> p' = p1 \<lparr> procRemote := w \<rparr> \<or>
        (\<exists>i2. migrateLoop (rtRest rt) ms fm n None i2 (p1 \<lparr> procRemote := w \<rparr>) = (res, i', p'))"
      using Suc.prems data call get by (cases r; cases g) (auto simp: Let_def split: if_splits)
    then show ?thesis using Suc.IH first second by metis
  qed
qed simp

lemma migrateToSSA_spares:
  assumes "spares load rt" and "migrateToSSAIfNecessary (rtRest rt) i fm p = (res, i', p')"
  shows "load p' = load p"
  using assms(2) migrateLoop_spares [OF assms(1)]
  by (auto simp: migrateToSSAIfNecessary_def Let_def split: sum.splits)

lemma applyObject_spares:
  assumes "spares load rt" and "applyObject pr (rtRest rt) i dryRun fm p = (res, p')"
  shows "load p' = load p"
proof (cases "encode (rtRest rt) (infoObject i)")
  case (Inl err)
  with assms(2) show ?thesis by (simp add: applyObject_def)
next
  case (Inr data)
  let ?o = "\<lparr> optForce = Some True, optFieldManager = fm, optFieldValidation = ''Strict'',
    optDryRun = (if dryRun then [''All''] else []) \<rparr>"
  obtain r p1 where first: "do_patch (rtRest rt) (infoRequest ApplyPatchType i ?o data) p = (r, p1)"
    by (rule prod.exhaust)
  note same1 = do_patch_spares [OF assms(1) first]
  show ?thesis
  proof (cases r)
    case (Inl err)
    with assms(2) Inr first same1 show ?thesis by (simp add: applyObject_def Let_def)
  next
    case obj: (Inr obj)
    obtain migrated merr i2 p2
      where migrate: "migrateToSSAIfNecessary (rtRest rt) (info_Refresh (rtRest rt) i obj) fm p1 = ((migrated, merr), i2, p2)"
      by (metis surj_pair)
    note same2 = migrateToSSA_spares [OF assms(1) migrate]
    obtain r3 p3 where second: "do_patch (rtRest rt) (infoRequest ApplyPatchType i2 ?o data) p2 = (r3, p3)"
      by (rule prod.exhaust)
    note same3 = do_patch_spares [OF assms(1) second]
    show ?thesis
      using assms(2) Inr first obj migrate second same1 same2 same3
      by (cases r3) (auto simp: applyObject_def Let_def warn_spares [OF assms(1)] warnIfDeleting_spares [OF assms(1)]
          split: option.splits if_splits)
  qed
qed

lemma filterLoop_spares:
  assumes "\<forall>f \<in> set fs. filter_spares load f"
  shows "filterLoop fs obj v = (e, v') \<Longrightarrow> load (remote v') = load (remote v)"
  using assms
proof (induction fs arbitrary: v)
  case (Cons f fs)
  obtain filtered err v1 where f: "f obj v = ((filtered, err), v1)" by (metis surj_pair)
  then have "load (remote v1) = load (remote v)" using Cons.prems(2) by (metis filter_spares_def list.set_intros(1) snd_conv)
  with Cons f show ?case by (auto split: option.splits if_splits)
qed simp

lemma ApplyLoop_spares:
  assumes "spares load rt" and "\<forall>f \<in> set (applyFilters t). filter_spares load f"
  shows "ApplyLoop pr (rtRest rt) ops t objs st v = (st', v') \<Longrightarrow> load (remote v') = load (remote v)"
proof (induction objs arbitrary: st v)
  case (Cons obj objs)
  obtain fe v1 where filter: "filterLoop (applyFilters t) obj v = (fe, v1)" by (rule prod.exhaust)
  note first = filterLoop_spares [OF assms(2) filter]
  show ?case
  proof (cases "fe = None \<and> (\<exists>i. applyInfoFetcher t (objHeap v1 obj) (remote v1) = Inr i)")
    case False
    then obtain st1 where "ApplyLoop pr (rtRest rt) ops t objs st1 v1 = (st', v')"
      using Cons.prems filter by (cases fe; cases "applyInfoFetcher t (objHeap v1 obj) (remote v1)") auto
    then show ?thesis using Cons.IH first by metis
  next
    case True
    then obtain i where i: "applyInfoFetcher t (objHeap v1 obj) (remote v1) = Inr i" and fe: "fe = None" by blast
    obtain res p where call: "applyObject pr (rtRest rt) i (applyDryRun t) (applyFieldManager t) (remote v1) = (res, p)"
      by (rule prod.exhaust)
    have same: "load p = load (remote v1)" by (rule applyObject_spares [OF assms(1) call])
    have "v' = v1 \<lparr> remote := p \<rparr> \<or> (\<exists>st1. ApplyLoop pr (rtRest rt) ops t objs st1 (v1 \<lparr> remote := p \<rparr>) = (st', v'))"
      using Cons.prems filter fe i call by (cases res) (auto simp: Let_def split: if_splits)
    then show ?thesis using Cons.IH first same by fastforce
  qed
qed simp

lemma PruneLoop_spares:
  assumes "spares load rt"
  shows "PruneLoop mapper (rtClient rt) ops dry objs st v = (st', v') \<Longrightarrow> load (remote v') = load (remote v)"
proof (induction objs arbitrary: st v)
  case (Cons obj objs)
  obtain res w where call: "pruneObject mapper (rtClient rt) (objHeap v obj) dry (remote v) = (res, w)" by (rule prod.exhaust)
  have "load w = load (remote v)"
  proof (cases "map_kind mapper (remote v) (objGK (objHeap v obj)) []")
    case (Inr m)
    then show ?thesis using call by (simp add: pruneObject_def dyn_Delete_spares [OF assms])
  qed (use call in \<open>simp add: pruneObject_def\<close>)
  moreover obtain st1 where "PruneLoop mapper (rtClient rt) ops dry objs st1 (v \<lparr> remote := w \<rparr>) = (st', v')"
    using Cons.prems call by (cases res) (auto simp: Let_def)
  ultimately show ?case using Cons.IH by fastforce
qed simp

fun saves :: "('c, 'w) Task \<Rightarrow> bool" where
  "saves (InventoryTask dry) = True"
| "saves _ = False"

lemma Task_Run_spares:
  assumes "spares load rt" and "\<forall>f \<in> set (task_filters t). filter_spares load f"
    and "\<not> saves t" and "Task_Run rt t s = Some s'"
  shows "load (remote (snd s')) = load (remote (snd s))"
proof -
  obtain st v st' v' where s: "s = (st, v)" "s' = (st', v')" by (metis surj_pair)
  show ?thesis
  proof (cases t)
    case (Apply a)
    then show ?thesis using assms s ApplyLoop_spares [OF assms(1), of a] by (simp add: ApplyTask_Run_def)
  next
    case (Wait objs)
    obtain how st1 v1 where run: "WaitTask_Run (rtMapper rt) (rtPoller rt (remote v)) RunnerState_ops objs st v = (st1, v1, how)"
      by (metis surj_pair)
    then have "load (remote v1) = load (remote v)" using assms(1)
      by (auto simp: WaitTask_Run_def Let_def spares_def split: prod.splits if_splits)
    then show ?thesis using assms(4) s Wait run by (auto split: if_splits)
  next
    case (Prune p)
    then show ?thesis using assms(4) s PruneLoop_spares [OF assms(1), of "rtMapper rt" RunnerState_ops]
      by (simp add: PruneTask_Run_def)
  qed (use assms(3) in simp)
qed

lemma run_tasks_spares:
  assumes "spares load rt"
  shows "\<forall>t \<in> set ts. \<not> saves t \<and> (\<forall>f \<in> set (task_filters t). filter_spares load f) \<Longrightarrow>
    run_tasks (Task_Run rt) ts s = Some s' \<Longrightarrow> load (remote (snd s')) = load (remote (snd s))"
proof (induction ts arbitrary: s)
  case (Cons t ts)
  then obtain s1 where s1: "Task_Run rt t s = Some s1" "run_tasks (Task_Run rt) ts s1 = Some s'"
    by (auto split: option.splits)
  have "load (remote (snd s1)) = load (remote (snd s))" using Task_Run_spares [OF assms _ _ s1(1)] Cons.prems(1) by simp
  with Cons.IH [OF _ s1(2)] Cons.prems(1) show ?case by simp
qed simp

subsection \<open>The next run\<close>

lemma pruneTasks_saves: "t \<in> set (pruneTasks h b options) \<Longrightarrow> \<not> saves t"
  by (auto simp: pruneTasks_def split: if_splits)

text \<open>Only the last task of a queue saves.\<close>

lemma Build_saves_last:
  assumes "Build lib h b options = Done (Inr tasks)" and "tasks = past @ left" and "left \<noteq> []" and "t \<in> set past"
  shows "\<not> saves t"
proof -
  obtain ts where "tasks = (ts @ pruneTasks h b options) @ [InventoryTask (optionDryRun options)]"
    and kinds: "\<forall>t \<in> set ts. \<forall>p dry. t \<noteq> Prune p \<and> t \<noteq> InventoryTask dry"
    using Build_prunes [OF assms(1)] by auto
  then have "past @ butlast left = ts @ pruneTasks h b options"
    using assms(2,3) by (metis butlast_append butlast_snoc)
  then have "t \<in> set ts \<or> t \<in> set (pruneTasks h b options)" using assms(4) by (metis Un_iff set_append)
  then show ?thesis
  proof
    assume "t \<in> set ts"
    then have "\<forall>p dry. t \<noteq> Prune p \<and> t \<noteq> InventoryTask dry" using kinds by blast
    then show ?thesis by (cases t) auto
  qed (rule pruneTasks_saves)
qed

lemma prepare_saves_last:
  assumes "prepare lib a objs options w0 = Done (Inr (s0, tasks), w')" and "tasks = past @ left" and "left \<noteq> []"
    and "\<forall>f \<in> set (apFilters a). P f" and "t \<in> set past"
  shows "\<not> saves t \<and> (\<forall>f \<in> set (task_filters t). P f)"
proof (rule prepare_Inr [OF assms(1)])
  fix b opts
  assume build: "Build lib (objHeap w') b opts = Done (Inr tasks)" and "queueFilters b = apFilters a"
  then show ?thesis
    using Build_saves_last [OF build assms(2,3,5)] Build_task_filters [OF build, of t] assms(2,4,5) by auto
qed


text \<open>A run that applies a secret and is stopped in front of the inventory, and a second one.\<close>

definition stopped_summary where
  "stopped_summary =
     (case prepare no_conversion save_applier [0] save_options save_world of
        Done (Inr (s0, tasks), w') \<Rightarrow>
          (case run_tasks (Task_Run (apRuntime save_applier)) (take 1 tasks) s0 of
             Some s \<Rightarrow>
               (case prepare no_conversion rerun_applier [] save_options (save_world \<lparr> remote := remote (snd s) \<rparr>) of
                  Done (Inr (s2, tasks2), w2') \<Rightarrow>
                    Some (length tasks, log_outcome None (eventChannel (fst s)) 0,
                      fst (store_Load (rtStore (apRuntime save_applier)) (apInventory save_applier) (remote w')))
                | _ \<Rightarrow> None)
           | None \<Rightarrow> None)
      | _ \<Rightarrow> None)"

lemma stopped_summary_value: "stopped_summary = Some (2, Some ApplySuccessfull, Inr [])"
  by code_simp

lemma runs_prefix:
  "run_tasks run past st = Some st' \<Longrightarrow>
    (runner_step run)\<^sup>*\<^sup>* \<lparr> queue = past @ left, state = st, ctxErr = c, returned = None \<rparr>
      \<lparr> queue = left, state = st', ctxErr = c, returned = None \<rparr>"
proof (induction past arbitrary: st)
  case (Cons t past)
  then obtain st1 where t: "run t st = Some st1" "run_tasks run past st1 = Some st'"
    by (auto split: option.splits)
  have "runner_step run \<lparr> queue = t # past @ left, state = st, ctxErr = c, returned = None \<rparr>
      (\<lparr> queue = t # past @ left, state = st, ctxErr = c, returned = None \<rparr> \<lparr> queue := past @ left, state := st1 \<rparr>)"
    using t(1) by (intro runner_step.task) simp_all
  then show ?case
    using converse_rtranclp_into_rtranclp [of "runner_step run", OF _ Cons.IH [OF t(2)]] by simp
qed simp

lemma save_applier_spares:
  "spares (\<lambda>p. fst (store_Load (rtStore (apRuntime save_applier)) (apInventory save_applier) p)) (apRuntime save_applier)"
  by (simp add: spares_def save_applier_def configMap_ops_def configMap_Load_def process_configmaps_def
      on_remote_def Let_def split: prod.splits sum.splits)


end
