(* ===== verification/Applier_Readiness.thy ===== *)
theory Applier_Readiness
  imports Applier_Order Applier_Builder
begin

text \<open>
  From the builder to the checks of the poller: what the readiness that a run reports rests on
  when the applier was built without a poller of its own.
\<close>

subsection \<open>Where a report of readiness comes from\<close>

lemma ready_ids_none: "\<forall>e \<in> set es. evType e \<noteq> TypeStatusUpdate \<Longrightarrow> ready_ids es = {}"
  by (auto simp: ready_ids_def succeeded_def)

lemma ready_ids_mono: "set es \<subseteq> set es' \<Longrightarrow> ready_ids es \<subseteq> ready_ids es'"
  by (auto simp: ready_ids_def)

lemma Task_Run_ready:
  assumes "Task_Run rt t s = Some s'" and "m \<in> ready_ids (eventChannel (fst s'))"
  shows "m \<in> ready_ids (eventChannel (fst s)) \<or>
    (\<exists>waited. t = Wait waited \<and>
       m \<in> ready_ids (fst (rtPoller rt (remote (snd s)) (pollerObjects RunnerState_ops (fst s) waited))))"
proof -
  obtain st v st' v' where s: "s = (st, v)" "s' = (st', v')" by (metis surj_pair)
  have quiet: ?thesis if "eventChannel st' = eventChannel st @ es" and "\<forall>e \<in> set es. evType e \<noteq> TypeStatusUpdate" for es
    using assms(2) that(1) ready_ids_none [OF that(2)] by (simp add: s ready_ids_append)
  show ?thesis
  proof (cases t)
    case (Apply a)
    then have run: "ApplyTask_Run (rtPrinters rt) (rtRest rt) RunnerState_ops a st v = (st', v')"
      using assms(1) s by simp
    obtain es where "apply_log (applyObjects a) es" "st' = send_all RunnerState_ops es st"
      using ApplyTask_Run_sends [of a "rtPrinters rt" "rtRest rt" RunnerState_ops st v] run by auto
    then show ?thesis using apply_log_events by (intro quiet [of es]) (fastforce simp: runner_state.log_send_all)+
  next
    case (Wait objs)
    obtain how st1 v1 where run: "WaitTask_Run (rtMapper rt) (rtPoller rt (remote v)) RunnerState_ops objs st v = (st1, v1, how)"
      by (metis surj_pair)
    obtain es where es: "set es \<subseteq> set (fst (rtPoller rt (remote v) (pollerObjects RunnerState_ops st objs)))"
      "st1 = send_all RunnerState_ops es st"
      using WaitTask_Run_sends [OF run] by blast
    have "eventChannel st' = eventChannel st @ es"
      using assms(1) s Wait run es(2) by (auto simp: runner_state.log_send_all split: if_splits)
    then show ?thesis using assms(2) Wait ready_ids_mono [OF es(1)] by (auto simp: s ready_ids_append)
  next
    case (Prune p)
    then have "st' = fst (PruneTask_Run (rtMapper rt) (rtClient rt) RunnerState_ops p st v)" using assms(1) s by simp
    moreover obtain es where "fst (PruneTask_Run (rtMapper rt) (rtClient rt) RunnerState_ops p st v) = send_all RunnerState_ops es st"
      "task_log (Prune p) es"
      using PruneTask_Run_log by blast
    ultimately show ?thesis by (intro quiet [of es]) (auto simp: runner_state.log_send_all)
  next
    case (InventoryTask dry)
    obtain res m' w where save: "SaveCurrentInventoryState (rtStore rt) (objHeap v) dry
        (manager (SendEvent RunnerState_ops (inventoryEvent EventPending None) st)) (remote v) = (res, m', w)"
      by (rule prod_cases3)
    have "InventoryTask_Run (rtStore rt) dry st v = (st', v')" using InventoryTask assms(1) s by simp
    then show ?thesis unfolding InventoryTask_Run_result [OF save]
      by (intro quiet [of "[inventoryEvent EventPending None, inventoryEvent (if res = None then EventSuccessful else EventFailed) res]"])
         (auto simp: runner_state.log_SendEvent inventoryEvent_def)
  qed
qed

text \<open>What the poller of a wait among the tasks that have run answers.\<close>

definition wait_asks where
  "wait_asks rt ts s w objs \<longleftrightarrow> (\<exists>us waited later st v. ts = us @ Wait waited # later \<and>
     run_tasks (Task_Run rt) us s = Some (st, v) \<and> w = remote v \<and> objs = pollerObjects RunnerState_ops st waited)"

lemma wait_asks_later:
  assumes "Task_Run rt t s = Some s1" and "wait_asks rt ts s1 w objs"
  shows "wait_asks rt (t # ts) s w objs"
proof -
  obtain us waited later st v where "ts = us @ Wait waited # later" "run_tasks (Task_Run rt) us s1 = Some (st, v)"
    "w = remote v" "objs = pollerObjects RunnerState_ops st waited"
    using assms(2) unfolding wait_asks_def by blast
  then have "t # ts = (t # us) @ Wait waited # later" "run_tasks (Task_Run rt) (t # us) s = Some (st, v)"
    using assms(1) by simp_all
  then show ?thesis unfolding wait_asks_def using \<open>w = _\<close> \<open>objs = _\<close> by blast
qed

lemma run_tasks_ready:
  "run_tasks (Task_Run rt) ts s = Some s' \<Longrightarrow> m \<in> ready_ids (eventChannel (fst s')) \<Longrightarrow>
    m \<in> ready_ids (eventChannel (fst s)) \<or> (\<exists>w objs. wait_asks rt ts s w objs \<and> m \<in> ready_ids (fst (rtPoller rt w objs)))"
proof (induction ts arbitrary: s)
  case (Cons t ts)
  then obtain s1 where s1: "Task_Run rt t s = Some s1" "run_tasks (Task_Run rt) ts s1 = Some s'"
    by (auto split: option.splits)
  from Cons.IH [OF s1(2) Cons.prems(2)] show ?case
  proof
    assume "m \<in> ready_ids (eventChannel (fst s1))"
    from Task_Run_ready [OF s1(1) this] show ?thesis
    proof
      assume "\<exists>waited. t = Wait waited \<and>
        m \<in> ready_ids (fst (rtPoller rt (remote (snd s)) (pollerObjects RunnerState_ops (fst s) waited)))"
      then obtain waited where t: "t = Wait waited"
        and m: "m \<in> ready_ids (fst (rtPoller rt (remote (snd s)) (pollerObjects RunnerState_ops (fst s) waited)))" by blast
      have "wait_asks rt (t # ts) s (remote (snd s)) (pollerObjects RunnerState_ops (fst s) waited)"
        unfolding wait_asks_def t by (intro exI [of _ "[]"] exI [of _ waited] exI [of _ ts] exI [of _ "fst s"] exI [of _ "snd s"]) simp
      with m show ?thesis by blast
    qed simp
  next
    assume "\<exists>w objs. wait_asks rt ts s1 w objs \<and> m \<in> ready_ids (fst (rtPoller rt w objs))"
    then show ?thesis using wait_asks_later [OF s1(1)] by blast
  qed
qed simp

text \<open>A runtime whose poller reports runs; \<open>run w objs\<close> is the one that it starts in a state for some objects.\<close>

context StatusPoller
begin

lemma reports_polite:
  assumes "\<And>w objs. \<exists>ids. reports (run w objs) ids (fst (rtPoller rt w objs))"
  shows "polite rt"
  unfolding polite_def
proof (intro allI ballI)
  fix w objs e
  assume e: "e \<in> set (fst (rtPoller rt w objs))"
  obtain ids where "reports (run w objs) ids (fst (rtPoller rt w objs))" using assms by blast
  from reports_ordered [OF this] e show "evType e \<in> {TypeStatusUpdate, TypeError}"
    unfolding statuses_then_errors_def by (metis Un_iff insertCI set_append)
qed

lemma ready_confirmed:
  assumes "\<And>w objs. \<exists>ids. reports (run w objs) ids (fst (rtPoller rt w objs))"
    and "run_tasks (Task_Run rt) ts s = Some s'" and "eventChannel (fst s) = []"
    and "m \<in> ready_ids (eventChannel (fst s'))"
  shows "\<exists>w objs. wait_asks rt ts s w objs \<and> confirmed (run w objs) m"
proof -
  obtain w objs where asks: "wait_asks rt ts s w objs" and "m \<in> ready_ids (fst (rtPoller rt w objs))"
    using run_tasks_ready [OF assms(2,4)] assms(3) by auto
  then obtain e where e: "e \<in> set (fst (rtPoller rt w objs))" "succeeded e" "update_of e = m"
    by (auto simp: ready_ids_def)
  obtain ids where "reports (run w objs) ids (fst (rtPoller rt w objs))" using assms(1) by blast
  with reports_confirmed [OF this e(1,2)] asks e(3) show ?thesis by blast
qed

end

subsection \<open>The poller of a built applier\<close>

text \<open>
  The answers of the default poller \<open>p\<close> are the events of runs of its informers on the resources
  that it makes of the objects, with the mapper as it is when the poller starts; \<open>client\<close> is what
  the informers of the library are made of, and \<open>history\<close> what happens to them in each run.
\<close>

definition default_im ::
  "(('c, 'w process) dynamic_client, 'w process rest_mapper, 'c) defaultStatusPoller \<Rightarrow> informer_lib \<Rightarrow>
     'c unstructured heap \<Rightarrow> 'w process \<Rightarrow> ref list \<Rightarrow> 'c informerMultiplexer" where
  "default_im p client h w objs = fst (defaultStatusPoller_Start \<lparr> dpClient = client, dpMapper = map_kind (dpMapper p) w,
     dpResync = dpResync p, dpStatusCheckers = dpStatusCheckers p \<rparr> h objs)"

definition runs_informers ::
  "('c, 'b, 'm, 'w) applier_lib \<Rightarrow> informer_lib \<Rightarrow> 'c unstructured heap \<Rightarrow>
     ('w process \<Rightarrow> ref list \<Rightarrow> 'c happening list) \<Rightarrow>
     (('c, 'w process) dynamic_client, 'w process rest_mapper, 'c) defaultStatusPoller \<Rightarrow> bool" where
  "runs_informers lib client h history p \<longleftrightarrow> (\<forall>w objs. \<exists>pl.
     runs (default_im p client h w objs) (history w objs) pl \<and> plEvents pl = fst (pollerRuns lib p w objs))"

lemma built_poller:
  assumes "Builder_Build lib b = Inr a" and "bPoller b = None" and "bFactory b = Some factory"
    and "DynamicClient factory = Inr client" and "ToRESTMapper factory = Inr mapper"
  shows "rtPoller (apRuntime a) = pollerRuns lib (NewDefaultStatusPoller client mapper (bCustomResourceCheck b))"
  using assms by (auto simp: Builder_Build_def Let_def split: option.splits sum.splits)

lemma informers_of_default:
  "runs_informers lib il h history p \<Longrightarrow>
    \<exists>ids. informer_reports (default_im p il h w objs, history w objs) ids (fst (pollerRuns lib p w objs))"
  unfolding runs_informers_def informer_reports_def by simp

text \<open>
  C4: From the builder to the checks: in a run of an applier that was built without a poller of
  its own, not a dry run and one that waits, before the task that applies an object starts,
  whatever the object depends on either has failed or was skipped, or the poller of one of the
  waits that have ended was handed a version of it that the status check, with the custom
  checkers that the builder was given, found current, or the poller that was asked to watch it
  gave up before that.
\<close>

theorem dependents_are_checked:
  assumes "Builder_Build alib b = Inr a" and "bPoller b = None" and "bFactory b = Some factory"
    and "DynamicClient factory = Inr client" and "ToRESTMapper factory = Inr mapper"
    and "p = NewDefaultStatusPoller client mapper (bCustomResourceCheck b)"
    and "runs_informers alib il (objHeap w') history p"
    and "prepare lib a objs options w0 = Done (Inr (s0, tasks), w')"
    and "loadObjectsFromInventory (rtStore (apRuntime a)) (apInventory a)
       (Get (rtMapper (apRuntime a)) (rtClient (apRuntime a))) (w0 \<lparr> cache := [] \<rparr>) = (loaded, w1)"
    and "generateObjects (bGenerators b) objs w1 = ((generated, genErr), w2)"
    and "\<not> apDryRun options" and "\<not> apDisableWait options"
    and "\<forall>f \<in> set (bFilters b). filter_ok f" and "set (objs @ generated) \<subseteq> {..<nextRef w'}"
    and "tasks = past @ t # rest" and "run_tasks (Task_Run (apRuntime a)) past s0 = Some s"
    and "obj \<in> set (applies t)" and "depends lib (objHeap w') (objs @ generated) obj dep"
  shows "log_outcome None (eventChannel (fst s)) dep \<in> {Some ApplyFailed, Some Skipped} \<or>
    (\<exists>w polled. wait_asks (apRuntime a) past s0 w polled \<and>
       (\<exists>h \<in> set (history w polled). found_current (default_im p il (objHeap w') w polled) (metadata_of (objHeap w') dep) h)) \<or>
    gave_up (apRuntime a) past s0 dep (metadata_of (objHeap w') dep)"
proof -
  let ?run = "\<lambda>w objs. (default_im p il (objHeap w') w objs, history w objs)"
  have polls: "\<exists>ids. informer_reports (?run w objs) ids (fst (rtPoller (apRuntime a) w objs))" for w objs
    unfolding built_poller [OF assms(1-5)] using informers_of_default [OF assms(7)] assms(6) by simp
  have built: "apGenerators a = bGenerators b" "apFilters a = bFilters b" using Build_result [OF assms(1)] by auto
  have "eventChannel (fst s0) = []" using prepare_disjoint [OF assms(8)] by blast
  note checked = informers.ready_confirmed [where run = ?run, OF polls assms(16) this, of "metadata_of (objHeap w') dep"]
  from dependency_settled [OF assms(8,9) _ assms(11,12) informers.reports_polite [where run = ?run, OF polls] _ assms(14-18)]
    assms(10,13)
  show ?thesis
    unfolding built using checked by (simp add: informer_confirmed_def) blast
qed

subsection \<open>Witness\<close>

text \<open>
  The config map and the namespace of \<open>order_world\<close>; the poller is handed the namespace when it
  is asked to watch it, and hears of nothing else.
\<close>

definition ready_getter :: "(unit, unit, server process) client_getter" where
  "ready_getter = \<lparr> getDiscoveryClient = Inr (),
     getRESTConfig = Inr \<lparr> cfgRest = (), cfgAPIPath = [], cfgUnstructured = False, cfgGroupVersion = None \<rparr>,
     getRESTMapper = Inr (rtMapper (apRuntime save_applier)), getNamespace = Inr ([], False) \<rparr>"

definition ready_factory :: "(unit, unit, server process, (unit, server process) dynamic_client, unit, unit) ClientFactory" where
  "ready_factory = NewFactory \<lparr> SetKubernetesDefaults = Inr, newDynamicClient = (\<lambda>cfg. Inr (rtClient (apRuntime save_applier))),
     newRESTClient = (\<lambda>cfg. Inr ()), newClientSet = (\<lambda>cfg. Inr ()) \<rparr> ready_getter"

definition ready_lib :: "(unit, unit, unit, server) applier_lib" where
  "ready_lib = \<lparr> libPrinters = example_printers, libRest = rtRest (apRuntime save_applier),
     pollerRuns = (\<lambda>p w objs. if objs = [1]
       then ([status_event (currentResult ''Resource is current'') (run_heap 1)], False) else ([], False)) \<rparr>"

definition ready_builder :: "(unit, unit, unit, configMapStore, server) Builder" where
  "ready_builder = WithInventory (rtStore (apRuntime save_applier), example_store) (WithFactory ready_factory NewBuilder)"

definition ready_poller :: "((unit, server process) dynamic_client, server process rest_mapper, unit) defaultStatusPoller" where
  "ready_poller = NewDefaultStatusPoller (rtClient (apRuntime save_applier)) (rtMapper (apRuntime save_applier)) []"

definition ready_client :: informer_lib where
  "ready_client = \<lparr> SetWatchErrorHandler = (\<lambda>i. None), AddEventHandler = (\<lambda>i. None) \<rparr>"

definition ready_history :: "server process \<Rightarrow> ref list \<Rightarrow> unit happening list" where
  "ready_history w objs = (if objs = [1]
     then [Started (InformerResource namespaceGK []), Added example_lib (WatchedObject (run_heap 1))] else [])"

lemma ready_im:
  assumes "h 1 = run_heap 1"
  shows "Resources (default_im ready_poller ready_client h w [1]) = [InformerResource namespaceGK []]"
    and "ObjectToObserve (default_im ready_poller ready_client h w [1]) = [metadata_of run_heap 1]"
    and "customStatusCheckers (default_im ready_poller ready_client h w objs) = []"
    and "imBuilder (default_im ready_poller ready_client h w objs) = newInfromerBuilder ready_client
      (\<lambda>gk vs. Inr (cluster_mapping gk)) (dpResync ready_poller)"
  using assms
  by (simp_all add: default_im_def defaultStatusPoller_Start_def resourcesAndIDsFromObjects_def ready_poller_def
      NewDefaultStatusPoller_def Let_def split_beta metadata_of_def run_heap_def example_object_def objGK_def
      groupKind_def namespaceGK_def save_applier_def)

lemma ready_check:
  "statusCheck example_lib [] (run_heap 1) = Done (Some (currentResult ''Resource is current''), None)"
  by code_simp

lemma ready_runs:
  assumes "h 1 = run_heap 1"
  shows "\<exists>pl. runs (default_im ready_poller ready_client h w [1])
      [Started (InformerResource namespaceGK []), Added example_lib (WatchedObject (run_heap 1))] pl \<and>
    plEvents pl = [status_event (currentResult ''Resource is current'') (run_heap 1)]"
proof -
  define im where "im = default_im ready_poller ready_client h w [1]"
  define builder :: "(informer_lib, RESTMapper) informerBuilder" where
    "builder = newInfromerBuilder ready_client (\<lambda>gk vs. Inr (cluster_mapping gk)) (dpResync ready_poller)"
  define ns where "ns = run_heap 1"
  define ready where "ready = status_event (currentResult ''Resource is current'') ns"
  let ?r = "InformerResource namespaceGK []"
  note im = ready_im(1,2) [where h = h and w = w, OF assms, folded im_def]
    ready_im(3,4) [where h = h and w = w and objs = "[1]", OF assms, folded im_def builder_def]
  have "ibClient builder = ready_client" "ibMapper builder = (\<lambda>gk vs. Inr (cluster_mapping gk))"
    by (simp_all add: builder_def newInfromerBuilder_def)
  then obtain i where i: "runInformer im ?r (Run im \<lparr> plStarting := [] \<rparr>) = Inr i"
    by (simp add: runInformer_def newInformer_def im(4) ready_client_def AddChannel_def Run_def)
  let ?st = "Run im \<lparr> plStarting := [], plInformers := [(?r, i)] \<rparr>"
  have "happens im (Started ?r) (Run im) (startInformer im ?r (Run im \<lparr> plStarting := remove1 ?r (plStarting (Run im)) \<rparr>))"
    by (rule happens.started) (simp add: Run_def im(1))
  moreover have "startInformer im ?r (Run im \<lparr> plStarting := remove1 ?r (plStarting (Run im)) \<rparr>) = ?st"
    using i by (simp add: startInformer_def Run_def im(1) has_key_def)
  ultimately have started: "runs im ([] @ [Started ?r]) ?st" using happened [OF running] by metis
  have "filterObject im ns = False" by (simp add: filterObject_def im(2) metadata_of_def ns_def)
  then have "AddFunc example_lib im (WatchedObject ns) ?st = Done (emit ready ?st)"
    using ready_check [folded ns_def] im(3)
    by (simp add: AddFunc_def Run_def eventFromResult_event ready_def)
  then have "happens im (Added example_lib (WatchedObject ns)) ?st (emit ready ?st)"
    by (rule happens.added) simp
  from happened [OF started this]
  have "runs im [Started ?r, Added example_lib (WatchedObject ns)] (emit ready ?st)" by simp
  moreover have "plEvents (emit ready ?st) = [ready]" by (simp add: emit_def Run_def)
  ultimately show ?thesis unfolding im_def [symmetric] ns_def [symmetric] ready_def [symmetric] by blast
qed

lemma ready_runs_informers:
  assumes "h 1 = run_heap 1"
  shows "runs_informers ready_lib ready_client h ready_history ready_poller"
  unfolding runs_informers_def
proof (intro allI)
  fix w objs
  show "\<exists>pl. runs (default_im ready_poller ready_client h w objs) (ready_history w objs) pl \<and>
      plEvents pl = fst (pollerRuns ready_lib ready_poller w objs)"
  proof (cases "objs = [1]")
    case True
    then show ?thesis using ready_runs [where h = h, OF assms] by (simp add: ready_history_def ready_lib_def)
  next
    case False
    then show ?thesis
      by (intro exI [of _ "Run (default_im ready_poller ready_client h w objs)"])
         (simp add: ready_history_def ready_lib_def running, simp add: Run_def)
  qed
qed

text \<open>The whole run up to the turn of the config map.\<close>

definition ready_summary where
  "ready_summary =
     (case Builder_Build ready_lib ready_builder of
        Inr a \<Rightarrow>
          (case prepare no_conversion a [0, 1] order_options order_world of
             Done (Inr (s0, tasks), w') \<Rightarrow>
               (case run_tasks (Task_Run (apRuntime a)) (take 2 tasks) s0 of
                  Some s \<Rightarrow> Some (map applies tasks, nextRef w', map (objHeap w') [0, 1],
                    log_outcome None (eventChannel (fst s)) 1)
                | None \<Rightarrow> None)
           | _ \<Rightarrow> None)
      | Inl err \<Rightarrow> None)"

lemma ready_summary_value:
  "ready_summary = Some ([[1], [], [0], [], []], 2, map run_heap [0, 1], Some ApplySuccessfull)"
  by code_simp

theorem dependents_are_checked_witness:
  "\<exists>a s0 tasks w' s w. Builder_Build ready_lib ready_builder = Inr a \<and>
     prepare no_conversion a [0, 1] order_options order_world = Done (Inr (s0, tasks), w') \<and>
     run_tasks (Task_Run (apRuntime a)) (take 2 tasks) s0 = Some s \<and> 0 \<in> set (applies (tasks ! 2)) \<and>
     (\<exists>h \<in> set (ready_history w [1]). found_current (default_im ready_poller ready_client (objHeap w') w [1])
        (metadata_of (objHeap w') 1) h)"
proof -
  obtain a where a: "Builder_Build ready_lib ready_builder = Inr a"
    using ready_summary_value unfolding ready_summary_def by (auto split: sum.splits)
  obtain s0 tasks w' where p: "prepare no_conversion a [0, 1] order_options order_world = Done (Inr (s0, tasks), w')"
    using ready_summary_value unfolding ready_summary_def a by (auto split: exec.splits prod.splits sum.splits)
  obtain s where s: "run_tasks (Task_Run (apRuntime a)) (take 2 tasks) s0 = Some s"
    using ready_summary_value unfolding ready_summary_def a sum.case p by (auto split: option.splits)
  have evaluated: "map applies tasks = [[1], [], [0], [], []]" "nextRef w' = 2" "objHeap w' 0 = run_heap 0"
    "objHeap w' 1 = run_heap 1" "log_outcome None (eventChannel (fst s)) 1 = Some ApplySuccessfull"
    using ready_summary_value unfolding ready_summary_def a sum.case p by (simp_all add: s)
  have builder: "bPoller ready_builder = None" "bFactory ready_builder = Some ready_factory" "bGenerators ready_builder = []"
    "bFilters ready_builder = []" "bCustomResourceCheck ready_builder = []"
    by (simp_all add: ready_builder_def WithInventory_def WithFactory_def NewBuilder_def)
  have clients: "DynamicClient ready_factory = Inr (rtClient (apRuntime save_applier))"
    "ToRESTMapper ready_factory = Inr (rtMapper (apRuntime save_applier))"
    by (simp_all add: NewFactory_def factory_DynamicClient_def factory_ToRESTConfig_def factory_ToRESTMapper_def
        ready_factory_def ready_getter_def)
  have poller: "ready_poller = NewDefaultStatusPoller (rtClient (apRuntime save_applier)) (rtMapper (apRuntime save_applier))
      (bCustomResourceCheck ready_builder)"
    by (simp add: ready_poller_def builder)
  obtain loaded w1 where load: "loadObjectsFromInventory (rtStore (apRuntime a)) (apInventory a)
      (Get (rtMapper (apRuntime a)) (rtClient (apRuntime a))) (order_world \<lparr> cache := [] \<rparr>) = (loaded, w1)"
    by (rule prod.exhaust)
  have gen: "generateObjects (bGenerators ready_builder) [0, 1] w1 = (([], None), w1)"
    by (simp add: generateObjects_def builder)
  have options: "\<not> apDryRun order_options" "\<not> apDisableWait order_options"
    by (simp_all add: order_options_def save_options_def)
  have filters: "\<forall>f \<in> set (bFilters ready_builder). filter_ok f" by (simp add: builder)
  have old: "set ([0, 1] @ []) \<subseteq> {..<nextRef w'}" using evaluated(2) by simp
  have "rtPoller (apRuntime a) = pollerRuns ready_lib ready_poller"
    unfolding poller by (rule built_poller [OF a builder(1,2) clients])
  then have open_end: "\<not> gave_up (apRuntime a) (take 2 tasks) s0 1 ident" for ident
    by (simp add: gave_up_def ready_lib_def)
  note checked = dependents_are_checked [OF a builder(1,2) clients poller ready_runs_informers [where h = "objHeap w'", OF evaluated(4)]
      p load gen options filters old third_task(1) [OF evaluated(1)] s third_task(2) [OF evaluated(1)]
      run_heap_depends [OF evaluated(3,4)]]
  obtain w polled where "\<exists>h \<in> set (ready_history w polled). found_current (default_im ready_poller ready_client (objHeap w') w polled)
      (metadata_of (objHeap w') 1) h"
    using checked evaluated(5) open_end by (auto simp del: One_nat_def)
  moreover from this have "polled = [1]" by (auto simp: ready_history_def split: if_splits)
  ultimately show ?thesis using a p s third_task(2) [OF evaluated(1)] by blast
qed

end
