(* ===== verification/Spec2Isabelle.thy ===== *)
theory Spec2Isabelle
  imports Status_Check Applier Applier_Builder Poller_Informers Poller_Multiplexer Informer_Lifecycle
    Resource_Reader Applier_Interrupted Applier_Readiness
begin

text \<open>
  JPL is a Go library that deploys Kubernetes manifests: it reads them, compares them with the
  inventory of an earlier deployment, orders them by their dependencies, applies them to the
  server, waits until they are ready, prunes what is no longer wanted and saves the inventory.
  This is the root of a model of its packages under \<open>src/pkg\<close>.

  \<^bold>\<open>How the parts work together.\<close> A reader (\<open>pkg/resourcereader\<close>) makes objects of files
  or a stream. A builder (\<open>pkg/client/builder.go\<close>) makes an applier of a client factory
  (\<open>pkg/util\<close>), an inventory store (\<open>pkg/inventory\<close>) and generators, mutators and
  filters. A run of the applier (\<open>pkg/client/applier.go\<close>) loads the inventory through a cache of
  remote objects (\<open>pkg/client/cache\<close>), generates and mutates objects, sorts them into groups
  with the dependency graph (\<open>pkg/resource\<close>), builds a queue of tasks
  (\<open>pkg/client/queuebuilder.go\<close>) and hands it to the runner (\<open>pkg/runner\<close>). The tasks
  (\<open>pkg/runner/task\<close>) apply, wait, prune and save; they send events (\<open>pkg/event\<close>) through the
  state of the run, which records the outcome of every object in the inventory manager. A wait
  listens to the poller (\<open>pkg/poller\<close>), which watches the server and checks the status of
  objects.

  \<^bold>\<open>Conventions.\<close> A Go map is an association list with distinct keys, whose order is the
  order of a \<open>range\<close> loop; a set is a list without duplicates; a pointer to an object is an
  address of a heap. An error is a value of \<open>go_error\<close>, a result with an error a sum or a
  pair as in the code, and a panic the value \<open>Panic\<close> of \<open>exec\<close>. A channel is the list of what
  was sent on it, where the reader takes everything. The server, the client library, the
  conversions to typed objects, the YAML pipeline and the clock are records of functions that
  the definitions take as arguments; what is assumed of them is a named predicate
  (\<open>client_ok\<close>, \<open>server_ok\<close>, \<open>spec_only\<close>), and each is met by an instance in a witness.

  \<^bold>\<open>The theories.\<close>
  \<^item> \<open>Go_Prelude\<close>, \<open>Go_Strings\<close>: maps, heaps, folds that stop at an error, and the string
    routines of the standard library with their lemmas.
  \<^item> \<open>Resource_Metadata\<close>, \<open>Resource_Errors\<close>, \<open>Resource_Dependency\<close>, \<open>Resource_Kinds\<close>: objects,
    their metadata and its string form (\<open>resourcemetadata.go\<close>, with the regular expression as a
    list of atoms and a backtracking matcher), all errors and their texts (\<open>errors.go\<close>), the
    annotation of explicit dependencies (\<open>dependency.go\<close>), and the kinds, scopes and webhook
    services (\<open>unstructured.go\<close>, \<open>scope.go\<close>). The lemmas are round trips and exact results.
  \<^item> \<open>Resource_Sort\<close>: the order of \<open>sort.go\<close>, the instance \<open>linorder\<close> of the metadata, and the locale
    \<open>sort_interface\<close> with what sorting by such an order gives.
  \<^item> \<open>Resource_Graph\<close>, \<open>Graph_Builder\<close>: \<open>graph.go\<close>, the sort of a graph into groups and its failure
    on cycles, and the construction of the graph from objects, whose edges are specified.
  \<^item> \<open>Status_Types\<close>, \<open>Status_Check\<close>: the status checks of \<open>statuschecker.go\<close> for every kind.
  \<^item> \<open>Events\<close>: \<open>event.go\<close> and the generated texts of its types.
  \<^item> \<open>Inventory_Store\<close>, \<open>Inventory_Manager\<close>: the locale \<open>Store\<close>, the store in a config map, the store of
    the tests, and the manager, with what it saves proved for every store.
  \<^item> \<open>Client_Cache\<close>, \<open>Runner_State\<close>: the getter of remote objects with the locale
    \<open>RemoteResourceGetter\<close>, the state of a run with the locale \<open>State\<close>.
  \<^item> \<open>Task_Apply\<close>, \<open>Task_Prune\<close>, \<open>Task_Wait\<close>: the four tasks, with the events of each.
  \<^item> \<open>Queue_Builder\<close>, \<open>Task_Runner\<close>: the queue, and the runner as a step relation with the locale
    \<open>task_runner\<close>; a run executes a prefix of its queue and ends.
  \<^item> \<open>Applier\<close>, \<open>Applier_Builder\<close>, \<open>Client_Factory\<close>: a whole run, the builder, the clients (the
    interface \<open>ClientFactory\<close> with the factory of the program and that of its tests) and the flow
    control probe. The properties that span components are here: what is pruned, and what the
    next run loads of what this one saved.
  \<^item> \<open>Poller_Informers\<close>, \<open>Poller_Multiplexer\<close>, \<open>Informer_Lifecycle\<close>: the handlers of the informers and
    the runs of the poller, which meet the locale \<open>StatusPoller\<close> of the theory \<open>Task_Wait\<close> as the
    poller of the tests does, the multiplexer of channels under every interleaving of its
    goroutines, and the lock of an informer.
  \<^item> \<open>Resource_Reader\<close>, \<open>Mutator_Labels\<close>, \<open>Generator_CronJob\<close>: readers and namespaces with
    the locale \<open>Reader\<close>, the labels mutator and the generator of jobs, which meet the locales
    \<open>Mutator\<close> and \<open>Generator\<close> of the theory \<open>Applier\<close>.
  \<^item> \<open>Applier_Manifests\<close>, \<open>Applier_Runs\<close>, \<open>Applier_Order\<close>, \<open>Applier_Interrupted\<close>: the properties of
    whole runs that rest on these contracts: what becomes of the manifests from their reader to
    the queue, the report that the events give of every object, what the next run prunes, what
    is known of the dependencies of an object when its turn comes, and what a run that does not
    get to its end leaves in the inventory. \<open>Applier_Readiness\<close> goes from the builder to the
    checks: in a run of an applier that was built without a poller of its own, the readiness of a
    dependency rests on a status check of an object that an informer handed over.

  \<^bold>\<open>Bounds.\<close> No definition runs on fuel: the sort into groups, the matcher and the string
  routines are total with a measure, the retry of the migration counts down the constant of the
  source, and the loops that depend on a scheduler are step relations. The runner makes at most
  two steps more than its queue has tasks. The counter of the multiplexer is a 32-bit word, and
  its correctness needs fewer than two to the 31 channels. Replica counts are 32-bit words.

  \<^bold>\<open>Not modelled.\<close> Locks and goroutines outside of the runner, the poller and the multiplexer:
  the calls of the cache and of the store are sequential. The messages a poller sends to a wait
  are a list with a flag that says whether the channel is closed; that they are the events of a
  run of the informers is a hypothesis of the theorems that need it (\<open>runs_informers\<close>). Output to
  the standard error is kept only for the warnings of the apply task. The readers of files and the
  static mapper of the test fixtures in \<open>pkg/testing\<close> are left out: they only call the client
  library. The busy loop of the multiplexer is a relation without time.
\<close>

end
